(* ===== verification/Prelude.thy ===== *)
theory Prelude
  imports Main "HOL-Library.Word"
begin

text \<open>
  What every component of the development shares: the machine types of the Go source, byte
  buffers with Go's \<open>copy\<close> semantics, the little-endian codec of \<open>encoding/binary\<close> as a
  locale with its interpretations at 16, 32 and 64 bits, and the collections of rewrite rules
  that carry the layout proofs of the wire structures.
\<close>

unbundle bit_operations_syntax

section \<open>Machine types\<close>

type_synonym byte = "8 word"
type_synonym u16 = "16 word"
type_synonym u32 = "32 word"
type_synonym u64 = "64 word"
type_synonym i64 = "64 word"
type_synonym bytes = "byte list"

text \<open>
  Go strings are immutable byte sequences; a string literal of the source is written
  \<open>ascii ''...''\<close>.
\<close>

type_synonym gostring = "byte list"

definition ascii :: "string \<Rightarrow> gostring" where
  "ascii s = map of_char s"

lemma ascii_Nil [simp]: "ascii [] = []"
  by (simp add: ascii_def)

lemma ascii_Cons [simp]: "ascii (c # s) = of_char c # ascii s"
  by (simp add: ascii_def)

lemma length_ascii [simp]: "length (ascii s) = length s"
  by (simp add: ascii_def)

named_theorems wire_defs \<open>definitions of the wire structures, unfolded by the layout proofs\<close>

section \<open>Byte buffers\<close>

lemma replicate_numeral_Cons: "replicate (numeral k) x = x # replicate (pred_numeral k) x"
  by (simp add: numeral_eq_Suc [of k])

text \<open>
  \<open>mk n\<close> is \<open>make([]byte, n)\<close>. \<open>slice b i j\<close> is \<open>b[i:j]\<close> for \<open>i \<le> j \<le> len(b)\<close>; every use in the
  source is guarded, so the panicking case does not arise. \<open>copy_at b o s\<close> is
  \<open>copy(b[o:], s)\<close>: it never changes the length of \<open>b\<close> and stops at its end.
\<close>

definition mk :: "nat \<Rightarrow> bytes" where
  "mk n = replicate n 0"

definition slice :: "'a list \<Rightarrow> nat \<Rightarrow> nat \<Rightarrow> 'a list" where
  "slice b i j = take (j - i) (drop i b)"

definition copy_at :: "bytes \<Rightarrow> nat \<Rightarrow> bytes \<Rightarrow> bytes" where
  "copy_at b off s = take (length b) (take off b @ s @ drop (off + length s) b)"

lemma length_mk [simp]: "length (mk n) = n"
  by (simp add: mk_def)

lemma mk_0 [simp]: "mk 0 = []"
  by (simp add: mk_def)

lemma length_slice [simp]: "length (slice b i j) = min (j - i) (length b - i)"
  by (simp add: slice_def min.commute)

lemma slice_whole [simp]: "length b \<le> n \<Longrightarrow> slice b 0 n = b"
  by (simp add: slice_def)

lemma length_copy_at [simp]: "length (copy_at b off s) = length b"
  by (simp add: copy_at_def)

lemma nth_copy_at:
  "i < length b \<Longrightarrow>
   copy_at b off s ! i = (if off \<le> i \<and> i < off + length s then s ! (i - off) else b ! i)"
  by (auto simp: copy_at_def nth_append not_less min_def)

lemma take_drop_copy_at_same [simp]:
  "off + length s \<le> length b \<Longrightarrow> n \<le> length s \<Longrightarrow>
   take n (drop off (copy_at b off s)) = take n s"
  by (simp add: copy_at_def drop_take min_def)

lemma take_copy_at_same [simp]:
  "length s \<le> length b \<Longrightarrow> n \<le> length s \<Longrightarrow> take n (copy_at b 0 s) = take n s"
  using take_drop_copy_at_same [of 0 s b n] by simp

lemma take_drop_copy_at_inside:
  "off \<le> p \<Longrightarrow> p + n \<le> off + length s \<Longrightarrow> off + length s \<le> length b \<Longrightarrow>
   take n (drop p (copy_at b off s)) = take n (drop (p - off) s)"
proof (rule nth_equalityI, goal_cases)
  case 1
  then show ?case by simp
next
  case (2 i)
  then have "p + i < length b" "off \<le> p + i" "p + i < off + length s" by auto
  moreover have "p + i - off = p - off + i" using 2 by simp
  ultimately show ?case using 2 by (simp add: nth_copy_at)
qed

lemma take_drop_copy_at_other [simp]:
  "p + n \<le> off \<or> off + length s \<le> p \<Longrightarrow>
   take n (drop p (copy_at b off s)) = take n (drop p b)"
  by (rule nth_equalityI) (auto simp: nth_copy_at)

lemma slice_copy_at_same [simp]:
  "off + length s \<le> length b \<Longrightarrow> j = off + length s \<Longrightarrow> slice (copy_at b off s) off j = s"
  by (simp add: slice_def)

lemma slice_copy_at_other [simp]:
  "i \<le> j \<Longrightarrow> j \<le> off \<or> off + length s \<le> i \<Longrightarrow> slice (copy_at b off s) i j = slice b i j"
  by (simp add: slice_def)

lemma copy_at_restore [simp]: "copy_at (copy_at b off s) off (slice b off (off + length s)) = b"
proof (rule nth_equalityI)
  show "length (copy_at (copy_at b off s) off (slice b off (off + length s))) = length b"
    by simp
next
  fix i assume "i < length (copy_at (copy_at b off s) off (slice b off (off + length s)))"
  then have i: "i < length b" by simp
  show "copy_at (copy_at b off s) off (slice b off (off + length s)) ! i = b ! i"
    using i by (auto simp: nth_copy_at slice_def)
qed

lemma copy_at_twice [simp]:
  "length s = length t \<Longrightarrow> copy_at (copy_at b off s) off t = copy_at b off t"
  by (rule nth_equalityI) (auto simp: nth_copy_at)

lemma copy_at_slice [simp]: "copy_at b off (slice b off j) = b"
  by (rule nth_equalityI) (auto simp: nth_copy_at slice_def)

lemma copy_at_commute:
  "p + length s \<le> off \<Longrightarrow> copy_at (copy_at b p s) off t = copy_at (copy_at b off t) p s"
  by (rule nth_equalityI) (auto simp: nth_copy_at)

lemma take_copy_at_before [simp]: "n \<le> off \<Longrightarrow> take n (copy_at b off s) = take n b"
  using take_drop_copy_at_other [of 0 n off s b] by simp

lemma drop_copy_at_after [simp]: "off + length s \<le> n \<Longrightarrow> drop n (copy_at b off s) = drop n b"
  by (rule nth_equalityI) (auto simp: nth_copy_at)

lemma copy_at_append: "n = length a + k \<Longrightarrow> copy_at (a @ b) n s = a @ copy_at b k s"
  by (simp add: copy_at_def)

section \<open>The little-endian codec\<close>

primrec le_bytes :: "nat \<Rightarrow> nat \<Rightarrow> bytes" where
  "le_bytes 0 v = []"
| "le_bytes (Suc n) v = of_nat v # le_bytes n (v div 256)"

fun le_nat :: "bytes \<Rightarrow> nat" where
  "le_nat [] = 0"
| "le_nat (b # bs) = unat b + 256 * le_nat bs"

lemma le_bytes_numeral:
  "le_bytes (numeral k) v = of_nat v # le_bytes (pred_numeral k) (v div 256)"
  by (simp add: numeral_eq_Suc [of k])

lemma length_le_bytes [simp]: "length (le_bytes n v) = n"
  by (induction n arbitrary: v) auto

lemma le_nat_le_bytes: "le_nat (le_bytes n v) = v mod 256 ^ n"
proof (induction n arbitrary: v)
  case 0
  then show ?case by simp
next
  case (Suc n)
  have "v mod 256 ^ Suc n = v mod 256 + 256 * (v div 256 mod 256 ^ n)"
    using mod_mult2_eq [of v 256 "256 ^ n"] by simp
  then show ?case by (simp add: Suc unat_of_nat)
qed

lemma le_nat_bound: "le_nat bs < 256 ^ length bs"
proof (induction bs)
  case Nil
  then show ?case by simp
next
  case (Cons b bs)
  have "unat b < 256" using unsigned_less [where ?'a = nat, of b] by simp
  with Cons show ?case by simp
qed

lemma le_bytes_le_nat: "le_bytes (length bs) (le_nat bs) = bs"
proof (induction bs)
  case Nil
  then show ?case by simp
next
  case (Cons b bs)
  have "unat b < 256" using unsigned_less [where ?'a = nat, of b] by simp
  moreover have "(of_nat (256 * le_nat bs) :: byte) = 0"
    by (subst word_of_nat_eq_0_iff) simp
  ultimately have "(of_nat (unat b + 256 * le_nat bs) :: byte) = b"
    and "(unat b + 256 * le_nat bs) div 256 = le_nat bs"
    by (simp_all only: of_nat_add, simp_all)
  with Cons show ?case by simp
qed

text \<open>
  The interface of \<open>binary.LittleEndian\<close> at one width: what \<open>PutUintN\<close> writes and \<open>UintN\<close>
  reads. Its clients are the field lemmas below, which hold at every width.
\<close>

locale le_codec =
  fixes put :: "'v \<Rightarrow> bytes"
    and get :: "bytes \<Rightarrow> 'v"
    and width :: nat
  assumes length_put: "length (put v) = width"
    and get_put: "get (put v) = v"
    and get_take: "get (take width bs) = get bs"
    and put_get: "length bs = width \<Longrightarrow> put (get bs) = bs"
begin

lemma get_put_append: "get (put v @ rest) = v"
  by (metis append_eq_conv_conj get_put get_take length_put)

lemma put_inject: "put v = put w \<longleftrightarrow> v = w"
  by (metis get_put)

lemma field_same:
  assumes "off + width \<le> length b"
  shows "get (drop off (copy_at b off (put v))) = v"
proof -
  have "take width (drop off (copy_at b off (put v))) = put v"
    using assms by (simp add: length_put)
  then show ?thesis by (metis get_put get_take)
qed

lemma field_other:
  assumes "p + width \<le> off \<or> off + length s \<le> p"
  shows "get (drop p (copy_at b off s)) = get (drop p b)"
  using take_drop_copy_at_other [OF assms] by (metis get_take)

lemma field_inside:
  assumes "off \<le> p" and "p + width \<le> off + length s" and "off + length s \<le> length b"
  shows "get (drop p (copy_at b off s)) = get (drop (p - off) s)"
  using take_drop_copy_at_inside [OF assms] by (metis get_take)

lemma field_append:
  assumes "p + width \<le> length b"
  shows "get (drop p (b @ c)) = get (drop p b)"
proof -
  have "take width (drop p (b @ c)) = take width (drop p b)"
    using assms by (simp add: drop_append)
  then show ?thesis by (metis get_take)
qed

lemma field_take:
  assumes "p + width \<le> n"
  shows "get (drop p (take n b)) = get (drop p b)"
proof -
  have "take width (drop p (take n b)) = take width (drop p b)"
    using assms by (simp add: drop_take min_def)
  then show ?thesis by (metis get_take)
qed

lemma put_field:
  assumes "off + width \<le> length b"
  shows "copy_at b off (put (get (drop off b))) = b"
proof -
  have "put (get (take width (drop off b))) = take width (drop off b)"
    using assms by (intro put_get) simp
  then have "put (get (drop off b)) = slice b off (off + width)"
    by (simp add: get_take slice_def)
  then show ?thesis by simp
qed

end

definition le16 :: "u16 \<Rightarrow> bytes" where "le16 v = le_bytes 2 (unat v)"
definition le32 :: "u32 \<Rightarrow> bytes" where "le32 v = le_bytes 4 (unat v)"
definition le64 :: "u64 \<Rightarrow> bytes" where "le64 v = le_bytes 8 (unat v)"
definition un16 :: "bytes \<Rightarrow> u16" where "un16 b = of_nat (le_nat (take 2 b))"
definition un32 :: "bytes \<Rightarrow> u32" where "un32 b = of_nat (le_nat (take 4 b))"
definition un64 :: "bytes \<Rightarrow> u64" where "un64 b = of_nat (le_nat (take 8 b))"

lemma le_codec_word:
  assumes "LENGTH('a::len) = 8 * n"
  shows "le_codec (\<lambda>v::'a word. le_bytes n (unat v)) (\<lambda>b. of_nat (le_nat (take n b))) n"
proof -
  have pow: "(256::nat) ^ n = 2 ^ LENGTH('a)"
    by (simp add: assms power_mult)
  show ?thesis
  proof
    fix bs :: bytes
    assume len: "length bs = n"
    have "le_nat bs < 2 ^ LENGTH('a)" using le_nat_bound [of bs] len pow by simp
    then have "unat (of_nat (le_nat bs) :: 'a word) = le_nat bs"
      by (simp add: unat_of_nat)
    then show "le_bytes n (unat (of_nat (le_nat (take n bs)) :: 'a word)) = bs"
      using le_bytes_le_nat [of bs] len by simp
  qed (simp_all add: le_nat_le_bytes pow)
qed

interpretation c16: le_codec le16 un16 2
  using le_codec_word [where 'a=16 and n=2] by (simp add: le16_def [abs_def] un16_def [abs_def])

interpretation c32: le_codec le32 un32 4
  using le_codec_word [where 'a=32 and n=4] by (simp add: le32_def [abs_def] un32_def [abs_def])

interpretation c64: le_codec le64 un64 8
  using le_codec_word [where 'a=64 and n=8] by (simp add: le64_def [abs_def] un64_def [abs_def])

text \<open>The source's spelling: a field of a buffer at an offset.\<close>

abbreviation put16 :: "bytes \<Rightarrow> nat \<Rightarrow> u16 \<Rightarrow> bytes" where "put16 b off v \<equiv> copy_at b off (le16 v)"
abbreviation put32 :: "bytes \<Rightarrow> nat \<Rightarrow> u32 \<Rightarrow> bytes" where "put32 b off v \<equiv> copy_at b off (le32 v)"
abbreviation put64 :: "bytes \<Rightarrow> nat \<Rightarrow> u64 \<Rightarrow> bytes" where "put64 b off v \<equiv> copy_at b off (le64 v)"
abbreviation put8 :: "bytes \<Rightarrow> nat \<Rightarrow> byte \<Rightarrow> bytes" where "put8 b off v \<equiv> copy_at b off [v]"
abbreviation get16 :: "bytes \<Rightarrow> nat \<Rightarrow> u16" where "get16 b off \<equiv> un16 (drop off b)"
abbreviation get32 :: "bytes \<Rightarrow> nat \<Rightarrow> u32" where "get32 b off \<equiv> un32 (drop off b)"
abbreviation get64 :: "bytes \<Rightarrow> nat \<Rightarrow> u64" where "get64 b off \<equiv> un64 (drop off b)"

lemmas le_length [simp] = c16.length_put c32.length_put c64.length_put
lemmas le_get_put [simp] = c16.get_put c32.get_put c64.get_put
  c16.get_put_append c32.get_put_append c64.get_put_append
lemmas le_inject [simp] = c16.put_inject c32.put_inject c64.put_inject
lemmas field_same [simp] = c16.field_same c32.field_same c64.field_same
lemmas field_other [simp] = c16.field_other c32.field_other c64.field_other
lemmas field_zero [simp] = field_same [of 0, simplified] field_other [of 0, simplified]
lemmas field_append = c16.field_append c32.field_append c64.field_append
lemmas field_take = c16.field_take c32.field_take c64.field_take
lemmas field_inside = c16.field_inside c32.field_inside c64.field_inside

text \<open>
  Evaluation of the codec on concrete words, for witnesses: the numerals are unfolded to
  bytes by the simplifier.
\<close>

lemma le_eval:
  "le16 v = [of_nat (unat v), of_nat (unat v div 256)]"
  "le32 w = [of_nat (unat w), of_nat (unat w div 256), of_nat (unat w div 256 div 256),
     of_nat (unat w div 256 div 256 div 256)]"
  by (simp_all add: le16_def le32_def le_bytes_numeral)

lemma le_bytes_zero [simp]: "le_bytes n 0 = replicate n 0"
  by (induction n) auto

lemma le_zero [simp]: "le16 0 = [0, 0]" "le32 0 = [0, 0, 0, 0]" "le64 0 = [0, 0, 0, 0, 0, 0, 0, 0]"
  by (simp_all add: le16_def le32_def le64_def replicate_numeral_Cons)

lemma un_mk [simp]: "un16 (mk n) = 0" "un32 (mk n) = 0" "un64 (mk n) = 0"
proof -
  have "le_nat (replicate k 0) = 0" for k by (induction k) auto
  then show "un16 (mk n) = 0" "un32 (mk n) = 0" "un64 (mk n) = 0"
    by (simp_all add: un16_def un32_def un64_def mk_def)
qed

lemma drop_mk [simp]: "drop k (mk n) = mk (n - k)"
  by (simp add: mk_def)

lemma take_mk [simp]: "take k (mk n) = mk (min k n)"
  by (simp add: mk_def min.commute)

section \<open>Big-endian bytes\<close>

text \<open>The transport frame and DER lengths are big-endian.\<close>

definition be_bytes :: "nat \<Rightarrow> nat \<Rightarrow> bytes" where
  "be_bytes n v = rev (le_bytes n v)"

definition be_nat :: "bytes \<Rightarrow> nat" where
  "be_nat bs = le_nat (rev bs)"

lemma length_be_bytes [simp]: "length (be_bytes n v) = n"
  by (simp add: be_bytes_def)

lemma be_nat_be_bytes: "be_nat (be_bytes n v) = v mod 256 ^ n"
  by (simp add: be_bytes_def be_nat_def le_nat_le_bytes)

lemma be_nat_bound: "be_nat bs < 256 ^ length bs"
  using le_nat_bound [of "rev bs"] by (simp add: be_nat_def)

lemma be_bytes_be_nat: "be_bytes (length bs) (be_nat bs) = bs"
  using le_bytes_le_nat [of "rev bs"] by (simp add: be_bytes_def be_nat_def)

section \<open>Generic helpers\<close>

lemma sum_case_Inl_Inr: "(case x of Inl a \<Rightarrow> Inl a | Inr b \<Rightarrow> Inr b) = x"
  by (cases x) auto

lemma split_at_slice: "i \<le> j \<Longrightarrow> j \<le> length b \<Longrightarrow> b = take i b @ slice b i j @ drop j b"
  by (simp add: slice_def) (metis append_take_drop_id drop_drop le_add_diff_inverse2)

subsection \<open>Exclusive or on numbers read from bytes\<close>

lemma nat_split_bits: "x < 256 \<Longrightarrow> bit (x + 256 * y :: nat) i = (if i < 8 then bit x i else bit y (i - 8))"
proof -
  assume x: "x < 256"
  have "take_bit 8 (x + 256 * y) = x" "drop_bit 8 (x + 256 * y) = y"
    using x by (simp_all add: take_bit_eq_mod drop_bit_eq_div)
  then have "bit x i = (bit (x + 256 * y) i \<and> i < 8)" "bit y (i - 8) = bit (x + 256 * y) (i - 8 + 8)"
    by (metis bit_take_bit_iff, metis bit_drop_bit_eq comp_apply add.commute)
  then show ?thesis by auto
qed

lemma byte_less [simp]: "unat (b::byte) < 256"
  using unsigned_less [where ?'a = nat, of b] by simp

lemma xor_nat_split:
  assumes "x < 256" "x' < 256"
  shows "(x + 256 * y) XOR (x' + 256 * y') = (x XOR x') + 256 * (y XOR y' :: nat)"
proof -
  have "take_bit 8 (x XOR x') = x XOR x'" using assms by (simp add: take_bit_xor take_bit_nat_eq_self)
  then have "x XOR x' < 256" using take_bit_nat_less_exp [of 8 "x XOR x'"] by simp
  then show ?thesis
    by (intro bit_eqI) (simp add: nat_split_bits assms bit_xor_iff)
qed

lemma le_nat_xor:
  "length a = length b \<Longrightarrow> le_nat (map2 (XOR) a b) = le_nat a XOR le_nat b"
  by (induction a b rule: list_induct2) (simp_all add: xor_nat_split unsigned_xor_eq)

lemma be_nat_xor: "length a = length b \<Longrightarrow> be_nat (map2 (XOR) a b) = be_nat a XOR be_nat b"
  by (simp add: be_nat_def le_nat_xor [symmetric] zip_rev rev_map)

lemma of_nat_xor_word: "(of_nat (a XOR b) :: 'a::len word) = of_nat a XOR of_nat b"
  by (rule bit_word_eqI) (simp add: bit_simps)

lemma be_nat_Nil [simp]: "be_nat [] = 0"
  by (simp add: be_nat_def)

lemma le_nat_append: "le_nat (xs @ ys) = le_nat xs + 256 ^ length xs * le_nat ys"
  by (induction xs) (auto simp: algebra_simps)

lemma be_nat_Cons: "be_nat (x # xs) = 256 ^ length xs * unat x + be_nat xs"
  by (simp add: be_nat_def le_nat_append)

lemma be_nat_snoc: "be_nat (xs @ [x]) = unat x + 256 * be_nat xs"
  by (simp add: be_nat_def)

lemma even_or_bit: "even (n::nat) \<Longrightarrow> m < 2 \<Longrightarrow> n OR m = n + m"
  by (auto simp: less_2_cases_iff or_Suc_0_eq)

lemma copy_at_full: "length l = n \<Longrightarrow> copy_at (mk n) 0 l = l"
  by (intro nth_equalityI) (auto simp: nth_copy_at)

end
