(* ===== verification/GoText.thy ===== *)
theory GoText
  imports Prelude
begin

text \<open>
  The text the server handles: Go strings as UTF-8 bytes, the UTF-16LE names of the wire
  (\<open>utf16leToString\<close>, \<open>stringToUTF16le\<close> of \<open>internal/smb/packet.go\<close>), and what the source uses
  of \<open>unicode/utf8\<close>, \<open>unicode/utf16\<close>, \<open>strings\<close> and \<open>path\<close>. The case tables of package
  \<open>unicode\<close> above ASCII are the parameter \<open>unicode\<close>. The lemmas show the text round trips and
  that a cleaned rooted path has no empty, dot or dot-dot component.
\<close>

section \<open>UTF-8\<close>

abbreviation RuneError :: nat where "RuneError \<equiv> 0xFFFD"

definition valid_rune :: "nat \<Rightarrow> bool" where
  "valid_rune r \<longleftrightarrow> r < 0xD800 \<or> 0xDFFF < r \<and> r \<le> 0x10FFFF"

text \<open>\<open>utf8.AppendRune\<close>: an invalid rune is encoded as \<open>U+FFFD\<close>.\<close>

definition utf8_encode :: "nat \<Rightarrow> bytes" where
  "utf8_encode r =
    (if r < 0x80 then [of_nat r]
     else if r < 0x800 then [of_nat (0xC0 + r div 64), of_nat (0x80 + r mod 64)]
     else if \<not> valid_rune r then [0xEF, 0xBF, 0xBD]
     else if r < 0x10000 then
       [of_nat (0xE0 + r div 4096), of_nat (0x80 + r div 64 mod 64), of_nat (0x80 + r mod 64)]
     else
       [of_nat (0xF0 + r div 262144), of_nat (0x80 + r div 4096 mod 64),
        of_nat (0x80 + r div 64 mod 64), of_nat (0x80 + r mod 64)])"

text \<open>The conversion \<open>string(runes)\<close>.\<close>

definition string_of_runes :: "nat list \<Rightarrow> gostring" where
  "string_of_runes rs = concat (map utf8_encode rs)"

definition in_range :: "nat \<Rightarrow> nat \<Rightarrow> byte \<Rightarrow> bool" where
  "in_range lo hi b \<longleftrightarrow> lo \<le> unat b \<and> unat b \<le> hi"

text \<open>
  \<open>utf8.DecodeRune\<close>: the rune and its width; an ill-formed sequence is \<open>(U+FFFD, 1)\<close>. One
  function per sequence length, on the value of the leading byte and the bytes after it.
\<close>

fun decode2 :: "nat \<Rightarrow> bytes \<Rightarrow> nat \<times> nat" where
  "decode2 p0 (b1 # _) =
    (if in_range 0x80 0xBF b1 then ((p0 - 0xC0) * 64 + (unat b1 - 0x80), 2) else (RuneError, 1))"
| "decode2 p0 _ = (RuneError, 1)"

fun decode3 :: "nat \<Rightarrow> bytes \<Rightarrow> nat \<times> nat" where
  "decode3 p0 (b1 # b2 # _) =
    (if in_range (if p0 = 0xE0 then 0xA0 else 0x80) (if p0 = 0xED then 0x9F else 0xBF) b1
        \<and> in_range 0x80 0xBF b2
     then ((p0 - 0xE0) * 4096 + (unat b1 - 0x80) * 64 + (unat b2 - 0x80), 3)
     else (RuneError, 1))"
| "decode3 p0 _ = (RuneError, 1)"

fun decode4 :: "nat \<Rightarrow> bytes \<Rightarrow> nat \<times> nat" where
  "decode4 p0 (b1 # b2 # b3 # _) =
    (if in_range (if p0 = 0xF0 then 0x90 else 0x80) (if p0 = 0xF4 then 0x8F else 0xBF) b1
        \<and> in_range 0x80 0xBF b2 \<and> in_range 0x80 0xBF b3
     then ((p0 - 0xF0) * 262144 + (unat b1 - 0x80) * 4096 + (unat b2 - 0x80) * 64
           + (unat b3 - 0x80), 4)
     else (RuneError, 1))"
| "decode4 p0 _ = (RuneError, 1)"

fun DecodeRune :: "bytes \<Rightarrow> nat \<times> nat" where
  "DecodeRune [] = (RuneError, 0)"
| "DecodeRune (b0 # bs) =
    (if unat b0 < 0x80 then (unat b0, 1)
     else if 0xC2 \<le> unat b0 \<and> unat b0 \<le> 0xDF then decode2 (unat b0) bs
     else if 0xE0 \<le> unat b0 \<and> unat b0 \<le> 0xEF then decode3 (unat b0) bs
     else if 0xF0 \<le> unat b0 \<and> unat b0 \<le> 0xF4 then decode4 (unat b0) bs
     else (RuneError, 1))"

text \<open>The conversion \<open>[]rune(s)\<close>.\<close>

function runes :: "gostring \<Rightarrow> nat list" where
  "runes [] = []"
| "runes (b # bs) = fst (DecodeRune (b # bs)) # runes (drop (snd (DecodeRune (b # bs)) - 1) bs)"
  by pat_completeness auto
termination by (relation "measure length") auto

lemma byte_of_nat_eq [simp]: "n < 256 \<Longrightarrow> unat (of_nat n :: byte) = n"
  by (simp add: unat_of_nat)

lemma DecodeRune_encode:
  assumes "valid_rune r"
  shows "DecodeRune (utf8_encode r @ bs) = (r, length (utf8_encode r))"
proof -
  consider "r < 0x80" | "0x80 \<le> r" "r < 0x800" | "0x800 \<le> r" "r < 0x10000"
    | "0x10000 \<le> r" "r \<le> 0x10FFFF"
    using assms by (cases "r < 0x80"; cases "r < 0x800"; cases "r < 0x10000") (auto simp: valid_rune_def)
  then show ?thesis
  proof cases
    case 1
    then show ?thesis by (simp add: utf8_encode_def)
  next
    case 2
    have "2 \<le> r div 64" "r div 64 < 32" using 2 by auto
    moreover have "r mod 64 < 64" by simp
    ultimately obtain b0 b1 :: byte where b: "utf8_encode r = [b0, b1]"
      and u: "unat b0 = 0xC0 + r div 64" "unat b1 = 0x80 + r mod 64"
      using 2 by (simp add: utf8_encode_def del: of_nat_add)
    show ?thesis using 2 \<open>2 \<le> r div 64\<close> \<open>r div 64 < 32\<close>
      by (simp add: b u in_range_def)
  next
    case 3
    define x y z where xyz: "x = r div 4096" "y = r div 64 mod 64" "z = r mod 64"
    have "r div 64 div 64 = x" by (simp add: xyz flip: div_mult2_eq)
    then have r: "r = x * 4096 + y * 64 + z"
      using div_mult_mod_eq [of r 64] div_mult_mod_eq [of "r div 64" 64] xyz(2,3) by linarith
    have bounds: "x < 16" "y < 64" "z < 64" using 3 by (auto simp: xyz)
    have low: "x = 0 \<Longrightarrow> 32 \<le> y" using 3 r bounds by linarith
    have surr: "x = 13 \<Longrightarrow> y < 32" using assms 3 r bounds unfolding valid_rune_def by linarith
    obtain b0 b1 b2 :: byte where b: "utf8_encode r = [b0, b1, b2]"
      and u: "unat b0 = 0xE0 + x" "unat b1 = 0x80 + y" "unat b2 = 0x80 + z"
      using 3 assms bounds by (simp add: utf8_encode_def xyz del: of_nat_add)
    have "DecodeRune ([b0, b1, b2] @ bs) = (x * 4096 + y * 64 + z, 3)"
      using bounds low surr by (auto simp: u in_range_def)
    then show ?thesis by (simp only: b r [symmetric]) simp
  next
    case 4
    define w x y z where wxyz: "w = r div 262144" "x = r div 4096 mod 64" "y = r div 64 mod 64" "z = r mod 64"
    have "r div 64 div 64 = r div 4096" "r div 4096 div 64 = w" by (simp_all add: wxyz flip: div_mult2_eq)
    then have r: "r = w * 262144 + x * 4096 + y * 64 + z"
      using div_mult_mod_eq [of r 64] div_mult_mod_eq [of "r div 64" 64]
        div_mult_mod_eq [of "r div 4096" 64] wxyz(2-4) by linarith
    have bounds: "w \<le> 4" "x < 64" "y < 64" "z < 64" using 4 by (auto simp: wxyz)
    have low: "w = 0 \<Longrightarrow> 16 \<le> x" using 4 r bounds by linarith
    have high: "w = 4 \<Longrightarrow> x < 16" using 4 r bounds by linarith
    obtain b0 b1 b2 b3 :: byte where b: "utf8_encode r = [b0, b1, b2, b3]"
      and u: "unat b0 = 0xF0 + w" "unat b1 = 0x80 + x" "unat b2 = 0x80 + y" "unat b3 = 0x80 + z"
      using 4 assms bounds by (simp add: utf8_encode_def wxyz del: of_nat_add)
    have "DecodeRune ([b0, b1, b2, b3] @ bs) = (w * 262144 + x * 4096 + y * 64 + z, 4)"
      using bounds low high by (auto simp: u in_range_def)
    then show ?thesis by (simp only: b r [symmetric]) simp
  qed
qed

lemma utf8_encode_nonempty [simp]: "utf8_encode r \<noteq> []"
  by (simp add: utf8_encode_def)

lemma runes_encode_append: "valid_rune r \<Longrightarrow> runes (utf8_encode r @ bs) = r # runes bs"
proof -
  assume v: "valid_rune r"
  obtain b cs where cs: "utf8_encode r = b # cs"
    by (cases "utf8_encode r") auto
  show ?thesis
    using DecodeRune_encode [OF v, of bs] by (simp add: cs)
qed

lemma runes_string_of_runes: "\<forall>r \<in> set rs. valid_rune r \<Longrightarrow> runes (string_of_runes rs) = rs"
  by (induction rs) (auto simp: string_of_runes_def runes_encode_append)

lemma in_range_bounds: "in_range lo hi b \<Longrightarrow> lo \<le> unat b \<and> unat b \<le> hi"
  by (simp add: in_range_def)

lemma valid_RuneError [simp]: "valid_rune RuneError"
  by (simp add: valid_rune_def)

lemma decode2_valid: "p0 \<le> 0xDF \<Longrightarrow> valid_rune (fst (decode2 p0 bs))"
  by (cases "(p0, bs)" rule: decode2.cases) (auto simp: in_range_def valid_rune_def)

lemma decode3_valid:
  assumes "0xE0 \<le> p0" "p0 \<le> 0xEF"
  shows "valid_rune (fst (decode3 p0 bs))"
proof -
  have "valid_rune ((p - 0xE0) * 4096 + (b - 0x80) * 64 + (c - 0x80))"
    if "0xE0 \<le> p" "p \<le> 0xEF" "b \<le> (if p = 0xED then 0x9F else 0xBF)" "c \<le> 0xBF" for p b c :: nat
  proof (cases "p = 0xED")
    case True
    with that show ?thesis unfolding valid_rune_def by simp linarith
  next
    case False
    then have "p \<le> 0xEC \<or> 0xEE \<le> p" by linarith
    then show ?thesis using that False unfolding valid_rune_def by simp linarith
  qed
  note * = this
  show ?thesis using assms
    by (cases "(p0, bs)" rule: decode3.cases)
      (auto simp only: decode3.simps in_range_def fst_conv valid_RuneError prod.inject
        intro!: * split: if_split)
qed

lemma decode4_valid:
  assumes "0xF0 \<le> p0" "p0 \<le> 0xF4"
  shows "valid_rune (fst (decode4 p0 bs))"
proof -
  have "valid_rune ((p - 0xF0) * 262144 + (b - 0x80) * 4096 + (c - 0x80) * 64 + (d - 0x80))"
    if "0xF0 \<le> p" "p \<le> 0xF4" "(if p = 0xF0 then 0x90 else 0x80) \<le> b" "b \<le> (if p = 0xF4 then 0x8F else 0xBF)"
      "c \<le> 0xBF" "d \<le> 0xBF" for p b c d :: nat
  proof -
    have "p = 0xF0 \<or> 0xF1 \<le> p \<and> p \<le> 0xF3 \<or> p = 0xF4" using that(1,2) by linarith
    then show ?thesis using that unfolding valid_rune_def by (elim disjE; simp) linarith+
  qed
  note * = this
  show ?thesis using assms
    by (cases "(p0, bs)" rule: decode4.cases)
      (auto simp only: decode4.simps in_range_def fst_conv valid_RuneError prod.inject
        intro!: * split: if_split)
qed

lemma DecodeRune_valid: "valid_rune (fst (DecodeRune bs))"
proof (cases bs)
  case (Cons b0 cs)
  have "unat b0 < 0x80 \<Longrightarrow> valid_rune (unat b0)" by (simp add: valid_rune_def)
  with Cons show ?thesis by (simp add: decode2_valid decode3_valid decode4_valid)
qed simp

lemma runes_valid: "r \<in> set (runes s) \<Longrightarrow> valid_rune r"
  by (induction s rule: runes.induct) (auto simp: DecodeRune_valid simp del: DecodeRune.simps)

section \<open>UTF-16\<close>

text \<open>\<open>utf16.Decode\<close>: a surrogate pair is one rune, a lone surrogate is \<open>U+FFFD\<close>.\<close>

definition utf16_single :: "u16 \<Rightarrow> nat" where
  "utf16_single u = (if unat u < 0xD800 \<or> 0xE000 \<le> unat u then unat u else RuneError)"

fun utf16_Decode :: "u16 list \<Rightarrow> nat list" where
  "utf16_Decode [] = []"
| "utf16_Decode [u] = [utf16_single u]"
| "utf16_Decode (u # v # us) =
    (if 0xD800 \<le> unat u \<and> unat u < 0xDC00 \<and> 0xDC00 \<le> unat v \<and> unat v < 0xE000
     then ((unat u - 0xD800) * 1024 + (unat v - 0xDC00) + 0x10000) # utf16_Decode us
     else utf16_single u # utf16_Decode (v # us))"

text \<open>\<open>utf16.Encode\<close>.\<close>

definition utf16_encode :: "nat \<Rightarrow> u16 list" where
  "utf16_encode r =
    (if r < 0xD800 \<or> 0xE000 \<le> r \<and> r < 0x10000 then [of_nat r]
     else if 0x10000 \<le> r \<and> r \<le> 0x10FFFF then
       [of_nat (0xD800 + (r - 0x10000) div 1024), of_nat (0xDC00 + (r - 0x10000) mod 1024)]
     else [0xFFFD])"

definition utf16_Encode :: "nat list \<Rightarrow> u16 list" where
  "utf16_Encode rs = concat (map utf16_encode rs)"

lemma u16_of_nat_eq [simp]: "n < 65536 \<Longrightarrow> unat (of_nat n :: u16) = n"
  by (simp add: unat_of_nat)

lemma utf16_Decode_single:
  "\<not> (0xD800 \<le> unat u \<and> unat u < 0xDC00) \<Longrightarrow> utf16_Decode (u # us) = utf16_single u # utf16_Decode us"
  by (cases us) auto

lemma utf16_Decode_encode_append:
  assumes "valid_rune r"
  shows "utf16_Decode (utf16_encode r @ us) = r # utf16_Decode us"
proof (cases "r < 0x10000")
  case True
  then have "utf16_encode r = [of_nat r]" "unat (of_nat r :: u16) = r"
    using assms by (auto simp: utf16_encode_def valid_rune_def)
  moreover have "\<not> (0xD800 \<le> r \<and> r < 0xE000)" using assms by (auto simp: valid_rune_def)
  ultimately show ?thesis by (auto simp: utf16_Decode_single utf16_single_def)
next
  case False
  let ?h = "(r - 0x10000) div 1024" and ?l = "(r - 0x10000) mod 1024"
  have r: "0x10000 \<le> r" "r \<le> 0x10FFFF" using False assms by (auto simp: valid_rune_def)
  then have h: "?h < 1024" and l: "?l < 1024" by auto
  have sum: "?h * 1024 + ?l + 0x10000 = r" using r by simp
  have "unat (of_nat (0xD800 + ?h) :: u16) = 0xD800 + ?h"
    and "unat (of_nat (0xDC00 + ?l) :: u16) = 0xDC00 + ?l"
    using h l by (intro u16_of_nat_eq, simp)+
  moreover have "utf16_encode r = [of_nat (0xD800 + ?h), of_nat (0xDC00 + ?l)]"
    using r by (simp add: utf16_encode_def)
  ultimately show ?thesis using h l sum by simp
qed

lemma utf16_Decode_Encode: "\<forall>r \<in> set rs. valid_rune r \<Longrightarrow> utf16_Decode (utf16_Encode rs) = rs"
  by (induction rs) (auto simp: utf16_Encode_def utf16_Decode_encode_append)

subsection \<open>The wire conversions of packet.go\<close>

definition utf16leToString :: "bytes \<Rightarrow> gostring" where
  "utf16leToString b =
    (let b = (if odd (length b) then take (length b - 1) b else b);
         u = map (\<lambda>i. get16 b (2 * i)) [0..<length b div 2]
     in string_of_runes (utf16_Decode u))"

definition stringToUTF16le :: "gostring \<Rightarrow> bytes" where
  "stringToUTF16le s = concat (map le16 (utf16_Encode (runes s)))"

lemma length_concat_le16 [simp]: "length (concat (map le16 us)) = 2 * length us"
  by (induction us) auto

lemma even_length_stringToUTF16le [simp]: "even (length (stringToUTF16le s))"
  by (simp add: stringToUTF16le_def)

lemma runes_ascii: "\<forall>b \<in> set s. unat b < 128 \<Longrightarrow> runes s = map unat s"
  by (induction s) simp_all

lemma utf16_Encode_ascii:
  "\<forall>r \<in> set rs. r < 128 \<Longrightarrow> utf16_Encode rs = map of_nat rs"
  by (induction rs) (simp_all add: utf16_Encode_def utf16_encode_def)

lemma length_stringToUTF16le_ascii:
  "\<forall>b \<in> set s. unat b < 128 \<Longrightarrow> length (stringToUTF16le s) = 2 * length s"
  by (simp add: stringToUTF16le_def runes_ascii utf16_Encode_ascii del: map_map)

lemma units_concat_le16: "map (\<lambda>i. get16 (concat (map le16 us)) (2 * i)) [0..<length us] = us"
proof (induction us)
  case Nil
  then show ?case by simp
next
  case (Cons u us)
  have "map (\<lambda>i. get16 (concat (map le16 (u # us))) (2 * i)) [0..<length (u # us)]
      = u # map (\<lambda>i. get16 (le16 u @ concat (map le16 us)) (2 * Suc i)) [0..<length us]"
    by (simp add: upt_conv_Cons map_Suc_upt [symmetric] del: upt_Suc map_map) simp
  also have "\<dots> = u # us"
    using Cons.IH by (simp add: drop_append)
  finally show ?case .
qed

lemma utf16leToString_units:
  "utf16leToString (concat (map le16 us)) = string_of_runes (utf16_Decode us)"
  by (simp add: utf16leToString_def units_concat_le16)

lemma utf16le_roundtrip: "utf16leToString (stringToUTF16le s) = string_of_runes (runes s)"
  by (simp add: stringToUTF16le_def utf16leToString_units utf16_Decode_Encode runes_valid)

section \<open>Case folding\<close>

text \<open>
  The simple case tables of package \<open>unicode\<close> for runes above ASCII: the canonical member of
  a rune's folding orbit (the lower-case letter where the orbit has an ASCII one), and the
  lower and upper case mappings. They are data of the Go release, hence a parameter.
\<close>

record unicode =
  u_fold :: "nat \<Rightarrow> nat"
  u_lower :: "nat \<Rightarrow> nat"
  u_upper :: "nat \<Rightarrow> nat"

definition ascii_lower :: "nat \<Rightarrow> nat" where
  "ascii_lower r = (if 65 \<le> r \<and> r \<le> 90 then r + 32 else r)"

definition ascii_upper :: "nat \<Rightarrow> nat" where
  "ascii_upper r = (if 97 \<le> r \<and> r \<le> 122 then r - 32 else r)"

definition fold_rune :: "unicode \<Rightarrow> nat \<Rightarrow> nat" where
  "fold_rune U r = (if r < 128 then ascii_lower r else u_fold U r)"

text \<open>\<open>strings.EqualFold\<close>, \<open>strings.ToLower\<close>, \<open>strings.ToUpper\<close>.\<close>

definition EqualFold :: "unicode \<Rightarrow> gostring \<Rightarrow> gostring \<Rightarrow> bool" where
  "EqualFold U s t \<longleftrightarrow> map (fold_rune U) (runes s) = map (fold_rune U) (runes t)"

definition ToLower :: "unicode \<Rightarrow> gostring \<Rightarrow> gostring" where
  "ToLower U s =
    string_of_runes (map (\<lambda>r. if r < 128 then ascii_lower r else u_lower U r) (runes s))"

definition ToUpper :: "unicode \<Rightarrow> gostring \<Rightarrow> gostring" where
  "ToUpper U s =
    string_of_runes (map (\<lambda>r. if r < 128 then ascii_upper r else u_upper U r) (runes s))"

lemma EqualFold_refl [simp]: "EqualFold U s s"
  by (simp add: EqualFold_def)

lemma EqualFold_sym: "EqualFold U s t \<Longrightarrow> EqualFold U t s"
  by (simp add: EqualFold_def)

lemma EqualFold_trans: "EqualFold U s t \<Longrightarrow> EqualFold U t u \<Longrightarrow> EqualFold U s u"
  by (simp add: EqualFold_def)

section \<open>Slash-separated paths\<close>

abbreviation slash :: byte where "slash \<equiv> 0x2F"
abbreviation backslash :: byte where "backslash \<equiv> 0x5C"
abbreviation dot :: gostring where "dot \<equiv> [0x2E]"
abbreviation dotdot :: gostring where "dotdot \<equiv> [0x2E, 0x2E]"

fun split_on :: "'a \<Rightarrow> 'a list \<Rightarrow> 'a list list" where
  "split_on c [] = [[]]"
| "split_on c (x # xs) =
    (if x = c then [] # split_on c xs
     else (case split_on c xs of [] \<Rightarrow> [[x]] | p # ps \<Rightarrow> (x # p) # ps))"

fun join_with :: "'a \<Rightarrow> 'a list list \<Rightarrow> 'a list" where
  "join_with c [] = []"
| "join_with c [p] = p"
| "join_with c (p # q # ps) = p @ c # join_with c (q # ps)"

lemma split_on_not_Nil [simp]: "split_on c xs \<noteq> []"
  by (induction xs) (auto split: list.splits)

lemma split_on_no_sep: "p \<in> set (split_on c xs) \<Longrightarrow> c \<notin> set p"
  by (induction xs arbitrary: p) (fastforce split: if_splits list.splits)+

lemma split_on_append_sep: "c \<notin> set p \<Longrightarrow> split_on c (p @ c # xs) = p # split_on c xs"
  by (induction p) auto

lemma split_on_single: "c \<notin> set p \<Longrightarrow> split_on c p = [p]"
  by (induction p) auto

lemma split_on_join_with:
  "ps \<noteq> [] \<Longrightarrow> \<forall>p \<in> set ps. c \<notin> set p \<Longrightarrow> split_on c (join_with c ps) = ps"
  by (induction c ps rule: join_with.induct) (auto simp: split_on_append_sep split_on_single)

lemma join_with_split_on: "join_with c (split_on c xs) = xs"
proof (induction xs)
  case Nil
  then show ?case by simp
next
  case (Cons x xs)
  obtain p ps where "split_on c xs = p # ps"
    by (cases "split_on c xs") auto
  with Cons show ?case by (cases ps) auto
qed

text \<open>
  \<open>path.Clean\<close>: the components on a stack (top first); \<open>..\<close> removes the component before it,
  and at the root of a rooted path it is dropped.
\<close>

definition clean_step :: "bool \<Rightarrow> gostring \<Rightarrow> gostring list \<Rightarrow> gostring list" where
  "clean_step rooted c stk =
    (if c = [] \<or> c = dot then stk
     else if c = dotdot then
       (if stk \<noteq> [] \<and> hd stk \<noteq> dotdot then tl stk
        else if rooted then stk else c # stk)
     else c # stk)"

definition clean_components :: "bool \<Rightarrow> gostring list \<Rightarrow> gostring list" where
  "clean_components rooted cs = rev (fold (clean_step rooted) cs [])"

definition path_Clean :: "gostring \<Rightarrow> gostring" where
  "path_Clean p =
    (if p = [] then dot
     else
       let rooted = (hd p = slash);
           out = join_with slash (clean_components rooted (split_on slash p))
       in if rooted then slash # out else if out = [] then dot else out)"

text \<open>\<open>strings.Trim(s, "/")\<close> and \<open>path.Base\<close>.\<close>

definition trim_slashes :: "gostring \<Rightarrow> gostring" where
  "trim_slashes s = rev (dropWhile (\<lambda>b. b = slash) (rev (dropWhile (\<lambda>b. b = slash) s)))"

definition path_Base :: "gostring \<Rightarrow> gostring" where
  "path_Base p =
    (if p = [] then dot
     else
       let q = rev (dropWhile (\<lambda>b. b = slash) (rev p));
           l = last (split_on slash q)
       in if l = [] then [slash] else l)"

text \<open>A component a cleaned rooted path may have.\<close>

definition plain_component :: "gostring \<Rightarrow> bool" where
  "plain_component c \<longleftrightarrow> c \<noteq> [] \<and> c \<noteq> dot \<and> c \<noteq> dotdot \<and> slash \<notin> set c"

lemma clean_step_plain:
  "\<forall>d \<in> set stk. plain_component d \<Longrightarrow> slash \<notin> set c \<Longrightarrow>
   \<forall>d \<in> set (clean_step True c stk). plain_component d"
  by (auto simp: clean_step_def plain_component_def dest: list.set_sel(2))

lemma fold_clean_step_plain:
  "\<forall>d \<in> set stk. plain_component d \<Longrightarrow> \<forall>c \<in> set cs. slash \<notin> set c \<Longrightarrow>
   \<forall>d \<in> set (fold (clean_step True) cs stk). plain_component d"
proof (induction cs arbitrary: stk)
  case Nil
  then show ?case by simp
next
  case (Cons c cs)
  have "\<forall>d \<in> set (clean_step True c stk). plain_component d"
    using Cons.prems by (intro clean_step_plain) auto
  then show ?case using Cons by simp
qed

lemma clean_components_plain:
  "\<forall>d \<in> set (clean_components True (split_on slash p)). plain_component d"
  unfolding clean_components_def set_rev
  by (rule fold_clean_step_plain) (auto dest: split_on_no_sep)

lemma fold_clean_step_id:
  "\<forall>d \<in> set cs. plain_component d \<Longrightarrow> fold (clean_step r) cs stk = rev cs @ stk"
  by (induction cs arbitrary: stk) (auto simp: clean_step_def plain_component_def)

lemma clean_components_id:
  "\<forall>d \<in> set cs. plain_component d \<Longrightarrow> clean_components r cs = cs"
  by (simp add: clean_components_def fold_clean_step_id)

lemma plain_component_ends:
  "plain_component p \<Longrightarrow> p \<noteq> [] \<and> hd p \<noteq> slash \<and> last p \<noteq> slash"
  unfolding plain_component_def by (metis hd_in_set last_in_set)

lemma join_with_nonempty: "p \<noteq> [] \<Longrightarrow> join_with c (p # ps) \<noteq> [] \<and> hd (join_with c (p # ps)) = hd p"
  by (cases ps) auto

lemma join_with_last: "ps \<noteq> [] \<Longrightarrow> \<forall>p \<in> set ps. p \<noteq> [] \<Longrightarrow> last (join_with c ps) = last (last ps)"
  by (induction c ps rule: join_with.induct) (auto simp: join_with_nonempty)

lemma join_with_plain_ends:
  assumes "\<forall>d \<in> set cs. plain_component d" and "cs \<noteq> []"
  shows "join_with slash cs \<noteq> [] \<and> hd (join_with slash cs) \<noteq> slash \<and> last (join_with slash cs) \<noteq> slash"
proof -
  obtain p ps where cs: "cs = p # ps" using assms(2) by (cases cs) auto
  have "plain_component p" "plain_component (last cs)" using assms cs by auto
  moreover have "\<forall>p \<in> set cs. p \<noteq> []" using assms(1) plain_component_ends by blast
  ultimately show ?thesis
    using assms(2) join_with_nonempty [of p slash ps] join_with_last [of cs slash]
    by (auto simp: cs dest!: plain_component_ends simp del: join_with.simps)
qed

lemma dropWhile_hd_neq: "xs = [] \<or> hd xs \<noteq> c \<Longrightarrow> dropWhile (\<lambda>b. b = c) xs = xs"
  by (cases xs) auto

lemma trim_slashes_join:
  assumes "\<forall>d \<in> set cs. plain_component d"
  shows "trim_slashes (slash # join_with slash cs) = join_with slash cs"
    and "trim_slashes (join_with slash cs) = join_with slash cs"
proof -
  have ends: "join_with slash cs = [] \<or> hd (join_with slash cs) \<noteq> slash"
    "rev (join_with slash cs) = [] \<or> hd (rev (join_with slash cs)) \<noteq> slash"
    using join_with_plain_ends [OF assms] by (cases cs; auto simp: hd_rev)+
  show "trim_slashes (slash # join_with slash cs) = join_with slash cs"
    "trim_slashes (join_with slash cs) = join_with slash cs"
    using ends by (simp_all add: trim_slashes_def dropWhile_hd_neq)
qed

text \<open>The components a path has once it is anchored at the root and cleaned.\<close>

definition path_components :: "gostring \<Rightarrow> gostring list" where
  "path_components p = clean_components True (split_on slash (slash # p))"

lemma split_on_append: "split_on c (xs @ c # ys) = split_on c xs @ split_on c ys"
proof (induction xs)
  case (Cons x xs)
  obtain p ps where "split_on c xs = p # ps" by (cases "split_on c xs") auto
  with Cons show ?case by auto
qed simp

lemma clean_components_filter:
  assumes "\<forall>d \<in> set cs. d = [] \<or> plain_component d"
  shows "clean_components r cs = filter (\<lambda>c. c \<noteq> []) cs"
proof -
  have "fold (clean_step r) cs stk = rev (filter (\<lambda>c. c \<noteq> []) cs) @ stk" for stk
    using assms
    by (induction cs arbitrary: stk) (auto simp: clean_step_def plain_component_def)
  then show ?thesis by (simp add: clean_components_def)
qed

lemma split_on_join_plain:
  assumes "\<forall>c \<in> set cs. plain_component c"
  shows "filter (\<lambda>c. c \<noteq> []) (split_on slash (join_with slash cs)) = cs"
proof (cases "cs = []")
  case False
  then have "split_on slash (join_with slash cs) = cs"
    using assms by (intro split_on_join_with) (auto simp: plain_component_def)
  moreover have "filter (\<lambda>c. c \<noteq> []) cs = cs" using assms by (auto simp: plain_component_def intro: filter_True)
  ultimately show ?thesis by simp
qed simp

lemma path_Clean_abs:
  "path_Clean (slash # p) = slash # join_with slash (path_components p)"
  by (simp add: path_Clean_def path_components_def Let_def)

lemma path_components_plain: "\<forall>c \<in> set (path_components p). plain_component c"
  unfolding path_components_def by (rule clean_components_plain)

lemma path_components_join:
  assumes "\<forall>c \<in> set cs. plain_component c"
  shows "path_components (join_with slash cs) = cs"
proof -
  have "{c \<in> set (split_on slash (join_with slash cs)). c \<noteq> []} = set cs"
    using arg_cong [OF split_on_join_plain [OF assms], of set] by simp
  then have "\<forall>d \<in> set (split_on slash (slash # join_with slash cs)). d = [] \<or> plain_component d"
    using split_on_append [of slash "[]" "join_with slash cs"] assms by auto
  from clean_components_filter [OF this, of True]
  show ?thesis
    using split_on_append [of slash "[]" "join_with slash cs"] split_on_join_plain [OF assms]
    by (simp add: path_components_def)
qed


lemma set_join_with: "set (join_with c cs) \<subseteq> insert c (\<Union> (set ` set cs))"
  by (induction c cs rule: join_with.induct) auto

lemma set_split_on: "p \<in> set (split_on c xs) \<Longrightarrow> set p \<subseteq> set xs"
proof (induction xs arbitrary: p)
  case (Cons x xs)
  obtain q qs where "split_on c xs = q # qs" by (cases "split_on c xs") auto
  moreover from this have "set r \<subseteq> set xs" if "r \<in> set (q # qs)" for r using Cons.IH that by simp
  ultimately show ?case using Cons.prems by (cases "x = c") fastforce+
qed simp

lemma set_clean_components: "c \<in> set (clean_components r cs) \<Longrightarrow> c \<in> set cs \<or> c = dotdot"
proof -
  have "c \<in> set (fold (clean_step r) cs stk) \<Longrightarrow> c \<in> set stk \<or> c \<in> set cs \<or> c = dotdot" for stk
  proof (induction cs arbitrary: stk)
    case (Cons d cs)
    then have "c \<in> set (clean_step r d stk) \<or> c \<in> set cs \<or> c = dotdot" by simp
    then show ?case by (auto simp: clean_step_def dest: list.set_sel(2) split: if_splits)
  qed simp
  then show "c \<in> set (clean_components r cs) \<Longrightarrow> c \<in> set cs \<or> c = dotdot"
    unfolding clean_components_def set_rev by (metis empty_iff empty_set)
qed

section \<open>Properties\<close>

lemma string_of_runes_runes_idem: "runes (string_of_runes (runes s)) = runes s"
  by (rule runes_string_of_runes) (auto dest: runes_valid)

text \<open>
  A name survives the wire: encoding it as UTF-16 and decoding it again gives the name back,
  up to the replacement of bytes that are not UTF-8 by U+FFFD, after which it is exact.
\<close>

theorem wire_string_roundtrip:
  "utf16leToString (stringToUTF16le s) = string_of_runes (runes s) \<and>
   utf16leToString (stringToUTF16le (string_of_runes (runes s))) = string_of_runes (runes s)"
  by (simp add: utf16le_roundtrip string_of_runes_runes_idem)

end
