(* ===== verification/Packet.thy ===== *)
theory Packet
  imports GoText "HOL-Library.Signed_Division"
begin

text \<open>
  \<open>internal/smb/packet.go\<close>: the protocol constants, the 64-byte SMB2 header, the response
  builder, and the conversion between \<open>time.Time\<close> and FILETIME. The lemmas show that a built
  response parses back to the header fields it was given, and bound the FILETIME round trip.
\<close>

section \<open>Constants\<close>

abbreviation smb2HeaderSize :: nat where "smb2HeaderSize \<equiv> 64"

definition smb2Magic :: bytes where
  "smb2Magic = [0xFE, 0x53, 0x4D, 0x42]"

subsection \<open>Command codes\<close>

abbreviation cmdNegotiate :: u16 where "cmdNegotiate \<equiv> 0x0000"
abbreviation cmdSessionSetup :: u16 where "cmdSessionSetup \<equiv> 0x0001"
abbreviation cmdLogoff :: u16 where "cmdLogoff \<equiv> 0x0002"
abbreviation cmdTreeConnect :: u16 where "cmdTreeConnect \<equiv> 0x0003"
abbreviation cmdTreeDisconnect :: u16 where "cmdTreeDisconnect \<equiv> 0x0004"
abbreviation cmdCreate :: u16 where "cmdCreate \<equiv> 0x0005"
abbreviation cmdClose :: u16 where "cmdClose \<equiv> 0x0006"
abbreviation cmdFlush :: u16 where "cmdFlush \<equiv> 0x0007"
abbreviation cmdRead :: u16 where "cmdRead \<equiv> 0x0008"
abbreviation cmdWrite :: u16 where "cmdWrite \<equiv> 0x0009"
abbreviation cmdLock :: u16 where "cmdLock \<equiv> 0x000A"
abbreviation cmdIoctl :: u16 where "cmdIoctl \<equiv> 0x000B"
abbreviation cmdCancel :: u16 where "cmdCancel \<equiv> 0x000C"
abbreviation cmdEcho :: u16 where "cmdEcho \<equiv> 0x000D"
abbreviation cmdQueryDirectory :: u16 where "cmdQueryDirectory \<equiv> 0x000E"
abbreviation cmdQueryInfo :: u16 where "cmdQueryInfo \<equiv> 0x0010"
abbreviation cmdSetInfo :: u16 where "cmdSetInfo \<equiv> 0x0011"

subsection \<open>Header flags, dialects, security modes, session flags, share types\<close>

abbreviation flagsServerToRedir :: u32 where "flagsServerToRedir \<equiv> 0x00000001"
abbreviation flagsRelatedOps :: u32 where "flagsRelatedOps \<equiv> 0x00000004"
abbreviation flagsSigned :: u32 where "flagsSigned \<equiv> 0x00000008"
abbreviation dialect202 :: u16 where "dialect202 \<equiv> 0x0202"
abbreviation dialect210 :: u16 where "dialect210 \<equiv> 0x0210"
abbreviation dialect300 :: u16 where "dialect300 \<equiv> 0x0300"
abbreviation dialect302 :: u16 where "dialect302 \<equiv> 0x0302"
abbreviation dialectWildcard :: u16 where "dialectWildcard \<equiv> 0x02FF"
abbreviation negotiateSigningEnabled :: u16 where "negotiateSigningEnabled \<equiv> 0x0001"
abbreviation sessionFlagIsGuest :: u16 where "sessionFlagIsGuest \<equiv> 0x0001"
abbreviation shareTypeDisk :: byte where "shareTypeDisk \<equiv> 0x01"
abbreviation shareTypePipe :: byte where "shareTypePipe \<equiv> 0x02"

subsection \<open>NTSTATUS codes\<close>

abbreviation statusSuccess :: u32 where "statusSuccess \<equiv> 0x00000000"
abbreviation statusBufferOverflow :: u32 where "statusBufferOverflow \<equiv> 0x80000005"
abbreviation statusNoMoreFiles :: u32 where "statusNoMoreFiles \<equiv> 0x80000006"
abbreviation statusMoreProcessingRequired :: u32 where "statusMoreProcessingRequired \<equiv> 0xC0000016"
abbreviation statusObjectNameNotFound :: u32 where "statusObjectNameNotFound \<equiv> 0xC0000034"
abbreviation statusObjectNameCollision :: u32 where "statusObjectNameCollision \<equiv> 0xC0000035"
abbreviation statusAccessDenied :: u32 where "statusAccessDenied \<equiv> 0xC0000022"
abbreviation statusBadNetworkName :: u32 where "statusBadNetworkName \<equiv> 0xC00000CC"
abbreviation statusLogonFailure :: u32 where "statusLogonFailure \<equiv> 0xC000006D"
abbreviation statusUserSessionDeleted :: u32 where "statusUserSessionDeleted \<equiv> 0xC0000203"
abbreviation statusInsufficientResources :: u32 where "statusInsufficientResources \<equiv> 0xC000009A"
abbreviation statusNotSupported :: u32 where "statusNotSupported \<equiv> 0xC00000BB"
abbreviation statusNotFound :: u32 where "statusNotFound \<equiv> 0xC0000225"
abbreviation statusInvalidParameter :: u32 where "statusInvalidParameter \<equiv> 0xC000000D"
abbreviation statusEndOfFile :: u32 where "statusEndOfFile \<equiv> 0xC0000011"
abbreviation statusFileIsADirectory :: u32 where "statusFileIsADirectory \<equiv> 0xC00000BA"
abbreviation statusNotADirectory :: u32 where "statusNotADirectory \<equiv> 0xC0000103"
abbreviation statusInvalidInfoClass :: u32 where "statusInvalidInfoClass \<equiv> 0xC0000003"
abbreviation statusSharingViolation :: u32 where "statusSharingViolation \<equiv> 0xC0000043"
abbreviation statusDirectoryNotEmpty :: u32 where "statusDirectoryNotEmpty \<equiv> 0xC0000101"
abbreviation statusMediaWriteProtected :: u32 where "statusMediaWriteProtected \<equiv> 0xC00000A2"
abbreviation statusUnsuccessful :: u32 where "statusUnsuccessful \<equiv> 0xC0000001"
abbreviation statusNetworkNameDeleted :: u32 where "statusNetworkNameDeleted \<equiv> 0xC00000C9"

section \<open>The header\<close>

record header =
  h_creditCharge :: u16
  h_command :: u16
  h_creditReqResp :: u16
  h_flags :: u32
  h_nextCommand :: u32
  h_messageID :: u64
  h_treeID :: u32
  h_sessionID :: u64

definition parseHeader :: "bytes \<Rightarrow> header option" where
  "parseHeader b =
    (if length b < smb2HeaderSize \<or> slice b 0 4 \<noteq> smb2Magic then None
     else Some
       \<lparr>h_creditCharge = get16 b 6,
        h_command = get16 b 12,
        h_creditReqResp = get16 b 14,
        h_flags = get32 b 16,
        h_nextCommand = get32 b 20,
        h_messageID = get64 b 24,
        h_treeID = get32 b 36,
        h_sessionID = get64 b 40\<rparr>)"

definition buildResponse ::
    "header \<Rightarrow> u16 \<Rightarrow> u32 \<Rightarrow> u64 \<Rightarrow> u32 \<Rightarrow> u16 \<Rightarrow> bytes \<Rightarrow> bytes" where
  "buildResponse reqH command status sessionID treeID credits body =
    (let out = mk (smb2HeaderSize + length body);
         out = copy_at out 0 smb2Magic;
         out = put16 out 4 64;
         out = put16 out 6 (h_creditCharge reqH);
         out = put32 out 8 status;
         out = put16 out 12 command;
         out = put16 out 14 credits;
         out = put32 out 16 flagsServerToRedir;
         out = put64 out 24 (h_messageID reqH);
         out = put32 out 36 treeID;
         out = put64 out 40 sessionID
     in copy_at out smb2HeaderSize body)"

definition errorResponseBody :: bytes where
  "errorResponseBody = put16 (mk 9) 0 9"

lemma length_smb2Magic [simp]: "length smb2Magic = 4"
  by (simp add: smb2Magic_def)

lemma length_errorResponseBody [simp]: "length errorResponseBody = 9"
  by (simp add: errorResponseBody_def)

lemma length_buildResponse [simp]:
  "length (buildResponse h cmd st sid tid cr body) = smb2HeaderSize + length body"
  by (simp add: buildResponse_def Let_def)

lemma buildResponse_status: "get32 (buildResponse h cmd st sid tid cr body) 8 = st"
  by (simp add: buildResponse_def Let_def)

lemma buildResponse_body: "drop smb2HeaderSize (buildResponse h cmd st sid tid cr body) = body"
proof -
  have "slice (buildResponse h cmd st sid tid cr body) 64 (64 + length body) = body"
    by (simp add: buildResponse_def Let_def)
  then show ?thesis by (simp add: slice_def)
qed

lemma parseHeader_buildResponse:
  "parseHeader (buildResponse h cmd st sid tid cr body) =
     Some \<lparr>h_creditCharge = h_creditCharge h, h_command = cmd, h_creditReqResp = cr,
       h_flags = flagsServerToRedir, h_nextCommand = 0, h_messageID = h_messageID h,
       h_treeID = tid, h_sessionID = sid\<rparr>"
  by (simp add: parseHeader_def) (simp add: buildResponse_def Let_def)

section \<open>FILETIME\<close>

text \<open>
  A \<open>time.Time\<close> is either the zero time or an instant; the source only reads an instant as
  \<open>UnixNano()\<close>, an \<open>int64\<close>.
\<close>

datatype gotime = ZeroTime | UnixNano i64

abbreviation filetimeEpochDelta :: int where "filetimeEpochDelta \<equiv> 116444736000000000"

fun timeToFiletime :: "gotime \<Rightarrow> u64" where
  "timeToFiletime ZeroTime = 0"
| "timeToFiletime (UnixNano ns) = word_of_int (sint ns sdiv 100 + filetimeEpochDelta)"

definition filetimeToTime :: "u64 \<Rightarrow> gotime" where
  "filetimeToTime ft =
    (if ft = 0 then ZeroTime
     else UnixNano (word_of_int ((sint ft - filetimeEpochDelta) * 100)))"

lemma sint_word_of_int_i64: "- (2 ^ 63) \<le> x \<Longrightarrow> x < 2 ^ 63 \<Longrightarrow> sint (word_of_int x :: i64) = x"
  by (simp add: signed_of_int signed_take_bit_int_eq_self)

lemma sdiv_mult_self: "0 < c \<Longrightarrow> (x * c) sdiv c = (x::int)"
  by (simp add: signed_divide_int_def abs_mult sgn_mult mult_sgn_abs)

lemma timeToFiletime_filetimeToTime:
  assumes "- (2 ^ 63) \<le> (sint ft - filetimeEpochDelta) * 100"
    and "(sint ft - filetimeEpochDelta) * 100 < 2 ^ 63"
  shows "timeToFiletime (filetimeToTime ft) = ft"
proof (cases "ft = 0")
  case True
  then show ?thesis by (simp add: filetimeToTime_def)
next
  case False
  let ?x = "sint ft - filetimeEpochDelta"
  have "sint (word_of_int (?x * 100) :: i64) = ?x * 100"
    using assms by (rule sint_word_of_int_i64)
  moreover have "(?x * 100) sdiv 100 = ?x"
    by (rule sdiv_mult_self) simp
  ultimately have "timeToFiletime (filetimeToTime ft) = word_of_int (?x + filetimeEpochDelta)"
    using False by (simp only: filetimeToTime_def if_False timeToFiletime.simps)
  then show ?thesis by simp
qed

section \<open>Properties\<close>

text \<open>
  A response is a header and a body: a client reads back the message id, credit charge, command,
  credits, tree and session id it was built with, the status at offset 8 and the body after
  the header, and the only flag set is SERVER_TO_REDIR.
\<close>

theorem response_parses:
  "parseHeader (buildResponse h cmd st sid tid cr body) =
     Some \<lparr>h_creditCharge = h_creditCharge h, h_command = cmd, h_creditReqResp = cr,
       h_flags = flagsServerToRedir, h_nextCommand = 0, h_messageID = h_messageID h,
       h_treeID = tid, h_sessionID = sid\<rparr> \<and>
   get32 (buildResponse h cmd st sid tid cr body) 8 = st \<and>
   drop smb2HeaderSize (buildResponse h cmd st sid tid cr body) = body"
  by (simp only: parseHeader_buildResponse buildResponse_status buildResponse_body simp_thms)

text \<open>
  A FILETIME set by a client is reported back unchanged, for every time whose distance from the
  Unix epoch in nanoseconds fits 64 signed bits (1677 to 2262).
\<close>

theorem filetime_roundtrip:
  assumes "- (2 ^ 63) \<le> (sint ft - filetimeEpochDelta) * 100"
    and "(sint ft - filetimeEpochDelta) * 100 < 2 ^ 63"
  shows "timeToFiletime (filetimeToTime ft) = ft"
  by (rule timeToFiletime_filetimeToTime [OF assms])

lemma filetime_roundtrip_witness:
  "timeToFiletime (filetimeToTime 132000000000000000) = 132000000000000000"
  by (rule filetime_roundtrip) simp_all

end
