(* ===== verification/Fsx.thy ===== *)
theory Fsx
  imports Packet
begin

text \<open>
  \<open>internal/fsx/fsx.go\<close>: the interface between the protocol code and a backend, as a record of
  operations on the state \<open>'w\<close> of the world behind the share; the errors a backend returns;
  and \<open>mapOSError\<close> of \<open>internal/smb/create.go\<close> with the two \<open>osErrorStatus\<close> files. An error is
  modelled by its root cause: \<open>errors.Is\<close> and \<open>errors.As\<close> look through the wrappers of the
  \<open>os\<close> package (\<open>PathError\<close>, \<open>LinkError\<close>), so nothing else of it is observed.
\<close>

section \<open>Errors\<close>

datatype platform = Linux | Darwin | Windows

text \<open>\<open>syscall.Errno\<close>: the named values the code or \<open>Errno.Is\<close> tests; \<open>WinErr\<close> a Windows error code.\<close>

datatype errno =
    ENOENT | EEXIST | ENOTEMPTY | EACCES | EPERM | EROFS | ENOSYS
  | WinErr nat
  | OtherErrno nat

datatype goerror =
    ErrNotExist | ErrExist | ErrPermission | ErrInvalid
  | ErrReadOnly | ErrNotEmpty
  | EOF
  | Errno errno
  | OtherError

text \<open>
  \<open>Errno.Is\<close> of Go's \<open>syscall\<close> package: which errno values count as the portable sentinels.
  \<open>ENOTEMPTY\<close> and \<open>ERROR_DIR_NOT_EMPTY\<close> (145) count as \<open>ErrExist\<close>.
\<close>

fun errno_is :: "platform \<Rightarrow> errno \<Rightarrow> goerror \<Rightarrow> bool" where
  "errno_is P e ErrPermission =
    (e = EACCES \<or> e = EPERM \<or> P = Windows \<and> e = WinErr 5)"
| "errno_is P e ErrExist =
    (e = EEXIST \<or> e = ENOTEMPTY \<or> P = Windows \<and> e \<in> {WinErr 80, WinErr 145, WinErr 183})"
| "errno_is P e ErrNotExist =
    (e = ENOENT \<or> P = Windows \<and> e \<in> {WinErr 2, WinErr 3, WinErr 53})"
| "errno_is P e _ = False"

definition errors_Is :: "platform \<Rightarrow> goerror \<Rightarrow> goerror \<Rightarrow> bool" where
  "errors_Is P err target =
    (err = target \<or> (case err of Errno e \<Rightarrow> errno_is P e target | _ \<Rightarrow> False))"

definition osErrorStatus_other :: "goerror \<Rightarrow> u32 option" where
  "osErrorStatus_other err =
    (case err of
       Errno ENOTEMPTY \<Rightarrow> Some statusDirectoryNotEmpty
     | Errno EROFS \<Rightarrow> Some statusMediaWriteProtected
     | Errno ENOSYS \<Rightarrow> Some statusNotSupported
     | _ \<Rightarrow> None)"

abbreviation errnoWriteProtect :: errno where "errnoWriteProtect \<equiv> WinErr 19"
abbreviation errnoSharingViolation :: errno where "errnoSharingViolation \<equiv> WinErr 32"
abbreviation errnoLockViolation :: errno where "errnoLockViolation \<equiv> WinErr 33"
abbreviation errnoDirNotEmpty :: errno where "errnoDirNotEmpty \<equiv> WinErr 145"

definition osErrorStatus_windows :: "goerror \<Rightarrow> u32 option" where
  "osErrorStatus_windows err =
    (case err of
       Errno e \<Rightarrow>
         if e = errnoSharingViolation \<or> e = errnoLockViolation then Some statusSharingViolation
         else if e = errnoDirNotEmpty then Some statusDirectoryNotEmpty
         else if e = errnoWriteProtect then Some statusMediaWriteProtected
         else None
     | _ \<Rightarrow> None)"

definition osErrorStatus :: "platform \<Rightarrow> goerror \<Rightarrow> u32 option" where
  "osErrorStatus P = (if P = Windows then osErrorStatus_windows else osErrorStatus_other)"

definition mapOSError :: "platform \<Rightarrow> goerror option \<Rightarrow> u32" where
  "mapOSError P err =
    (case err of
       None \<Rightarrow> statusSuccess
     | Some e \<Rightarrow>
         if errors_Is P e ErrNotExist then statusObjectNameNotFound
         else if errors_Is P e ErrExist then statusObjectNameCollision
         else if errors_Is P e ErrPermission then statusAccessDenied
         else if errors_Is P e ErrReadOnly then statusMediaWriteProtected
         else if errors_Is P e ErrNotEmpty then statusDirectoryNotEmpty
         else if errors_Is P e ErrInvalid then statusInvalidParameter
         else (case osErrorStatus P e of Some s \<Rightarrow> s | None \<Rightarrow> statusUnsuccessful))"

text \<open>An error never reaches the client as success.\<close>

lemma mapOSError_error: "mapOSError P (Some e) \<noteq> statusSuccess"
  by (auto simp: mapOSError_def osErrorStatus_def osErrorStatus_windows_def osErrorStatus_other_def
      split: option.split goerror.splits errno.splits if_splits)

section \<open>File information\<close>

text \<open>The observations of an \<open>os.FileInfo\<close> the server makes; \<open>fi_perm\<close> is \<open>Mode().Perm()\<close>.\<close>

record fileinfo =
  fi_name :: gostring
  fi_size :: i64
  fi_isDir :: bool
  fi_perm :: u32
  fi_mtime :: gotime

section \<open>Open flags\<close>

text \<open>The values of the \<open>os\<close> package on Linux and Windows.\<close>

abbreviation O_RDONLY :: u32 where "O_RDONLY \<equiv> 0"
abbreviation O_WRONLY :: u32 where "O_WRONLY \<equiv> 0x1"
abbreviation O_RDWR :: u32 where "O_RDWR \<equiv> 0x2"
abbreviation O_CREATE :: u32 where "O_CREATE \<equiv> 0x40"
abbreviation O_EXCL :: u32 where "O_EXCL \<equiv> 0x80"
abbreviation O_TRUNC :: u32 where "O_TRUNC \<equiv> 0x200"
abbreviation O_APPEND :: u32 where "O_APPEND \<equiv> 0x400"

section \<open>The backend interface\<close>

text \<open>
  An operation takes the world and returns its result and the world after it. Open files are
  named by numbers the backend chooses. \<open>f_ReadAt h n off\<close> is \<open>ReadAt\<close> into a buffer of
  \<open>n\<close> bytes: it returns the bytes it put at the front of the buffer, and the error;
  \<open>f_WriteAt h p off\<close> returns the number of bytes written, and the error.
\<close>

record 'w fs =
  fs_Stat :: "gostring \<Rightarrow> 'w \<Rightarrow> (goerror + fileinfo) \<times> 'w"
  fs_OpenFile :: "gostring \<Rightarrow> u32 \<Rightarrow> u32 \<Rightarrow> 'w \<Rightarrow> (goerror + nat) \<times> 'w"
  fs_Mkdir :: "gostring \<Rightarrow> u32 \<Rightarrow> 'w \<Rightarrow> goerror option \<times> 'w"
  fs_ReadDir :: "gostring \<Rightarrow> 'w \<Rightarrow> (goerror + fileinfo list) \<times> 'w"
  fs_Rename :: "gostring \<Rightarrow> gostring \<Rightarrow> 'w \<Rightarrow> goerror option \<times> 'w"
  fs_Remove :: "gostring \<Rightarrow> 'w \<Rightarrow> goerror option \<times> 'w"
  fs_Truncate :: "gostring \<Rightarrow> i64 \<Rightarrow> 'w \<Rightarrow> goerror option \<times> 'w"
  fs_Chtimes :: "gostring \<Rightarrow> gotime \<Rightarrow> 'w \<Rightarrow> goerror option \<times> 'w"
  fs_Statfs :: "'w \<Rightarrow> (i64 \<times> i64 \<times> goerror option) \<times> 'w"
  fs_CaseInsensitive :: bool
  f_ReadAt :: "nat \<Rightarrow> nat \<Rightarrow> i64 \<Rightarrow> 'w \<Rightarrow> (bytes \<times> goerror option) \<times> 'w"
  f_WriteAt :: "nat \<Rightarrow> bytes \<Rightarrow> i64 \<Rightarrow> 'w \<Rightarrow> (nat \<times> goerror option) \<times> 'w"
  f_Close :: "nat \<Rightarrow> 'w \<Rightarrow> goerror option \<times> 'w"
  f_Truncate :: "nat \<Rightarrow> i64 \<Rightarrow> 'w \<Rightarrow> goerror option \<times> 'w"
  f_Sync :: "nat \<Rightarrow> 'w \<Rightarrow> goerror option \<times> 'w"
  f_Stat :: "nat \<Rightarrow> 'w \<Rightarrow> (goerror + fileinfo) \<times> 'w"

text \<open>
  A property of the world that the operations which only look are promised to keep: no
  operation but \<open>Mkdir\<close>, \<open>Rename\<close>, \<open>Remove\<close>, \<open>Truncate\<close>, \<open>Chtimes\<close>, \<open>WriteAt\<close> and an
  open with a flag other than \<open>O_RDONLY\<close> may break it. The handlers of a read-only share
  are shown to stay within this contract.
\<close>

locale query_backend =
  fixes F :: "'w fs" and I :: "'w \<Rightarrow> bool"
  assumes q_Stat: "I w \<Longrightarrow> I (snd (fs_Stat F p w))"
    and q_OpenFile: "I w \<Longrightarrow> I (snd (fs_OpenFile F p O_RDONLY perm w))"
    and q_ReadDir: "I w \<Longrightarrow> I (snd (fs_ReadDir F p w))"
    and q_Statfs: "I w \<Longrightarrow> I (snd (fs_Statfs F w))"
    and q_ReadAt: "I w \<Longrightarrow> I (snd (f_ReadAt F h n off w))"
    and q_Close: "I w \<Longrightarrow> I (snd (f_Close F h w))"
    and q_Sync: "I w \<Longrightarrow> I (snd (f_Sync F h w))"
    and q_FStat: "I w \<Longrightarrow> I (snd (f_Stat F h w))"


locale any_backend = query_backend +
  assumes a_OpenFile: "I w \<Longrightarrow> I (snd (fs_OpenFile F p flag perm w))"
    and a_Mkdir: "I w \<Longrightarrow> I (snd (fs_Mkdir F p perm w))"
    and a_Rename: "I w \<Longrightarrow> I (snd (fs_Rename F p p' w))"
    and a_Remove: "I w \<Longrightarrow> I (snd (fs_Remove F p w))"
    and a_Truncate: "I w \<Longrightarrow> I (snd (fs_Truncate F p n w))"
    and a_Chtimes: "I w \<Longrightarrow> I (snd (fs_Chtimes F p t w))"
    and a_WriteAt: "I w \<Longrightarrow> I (snd (f_WriteAt F h b off w))"
    and a_FTruncate: "I w \<Longrightarrow> I (snd (f_Truncate F h n w))"

section \<open>Properties\<close>

text \<open>
  On every platform a missing file, an existing one, a denied or read-only or invalid access and
  an unknown error each have their NTSTATUS, no error is reported as success, and no error as
  success is reported as an error.
\<close>

theorem mapOSError_table:
  "mapOSError P None = statusSuccess \<and> mapOSError P (Some e) \<noteq> statusSuccess \<and>
   mapOSError P (Some ErrNotExist) = statusObjectNameNotFound \<and>
   mapOSError P (Some (Errno ENOENT)) = statusObjectNameNotFound \<and>
   mapOSError P (Some ErrExist) = statusObjectNameCollision \<and>
   mapOSError P (Some (Errno EEXIST)) = statusObjectNameCollision \<and>
   mapOSError P (Some ErrPermission) = statusAccessDenied \<and>
   mapOSError P (Some (Errno EACCES)) = statusAccessDenied \<and>
   mapOSError P (Some ErrReadOnly) = statusMediaWriteProtected \<and>
   mapOSError P (Some ErrNotEmpty) = statusDirectoryNotEmpty \<and>
   mapOSError P (Some ErrInvalid) = statusInvalidParameter \<and>
   mapOSError Windows (Some (Errno errnoSharingViolation)) = statusSharingViolation \<and>
   mapOSError P (Some OtherError) = statusUnsuccessful"
  by (simp add: mapOSError_error) (simp add: mapOSError_def errors_Is_def osErrorStatus_def
      osErrorStatus_windows_def osErrorStatus_other_def)

text \<open>
  The entries of both \<open>osErrorStatus\<close> tables for a directory that is not empty are never
  reached: Go counts those errno values as \<open>os.ErrExist\<close>, so removing a non-empty directory of
  the local filesystem is answered with a name collision, not with DIRECTORY_NOT_EMPTY.
\<close>

theorem not_empty_is_collision:
  "osErrorStatus Linux (Errno ENOTEMPTY) = Some statusDirectoryNotEmpty \<and>
   mapOSError Linux (Some (Errno ENOTEMPTY)) = statusObjectNameCollision \<and>
   osErrorStatus Windows (Errno errnoDirNotEmpty) = Some statusDirectoryNotEmpty \<and>
   mapOSError Windows (Some (Errno errnoDirNotEmpty)) = statusObjectNameCollision"
  by (simp add: mapOSError_def errors_Is_def osErrorStatus_def osErrorStatus_windows_def
      osErrorStatus_other_def)

end
