(* ===== verification/MD4.thy ===== *)
theory MD4
  imports Prelude
begin

text \<open>
  \<open>internal/md4\<close>: the streaming MD4 digest (\<open>md4.go\<close>) over the block step (\<open>md4block.go\<close>).
  A digest refines the list of bytes written to it: however the bytes are split over
  \<open>Write\<close> calls, \<open>Sum\<close> is the hash of their concatenation, and its panic is unreachable.
\<close>

section \<open>The block step\<close>

type_synonym chain = "u32 \<times> u32 \<times> u32 \<times> u32"

definition shift1 :: "nat list" where "shift1 = [3, 7, 11, 19]"
definition shift2 :: "nat list" where "shift2 = [3, 5, 9, 13]"
definition shift3 :: "nat list" where "shift3 = [3, 9, 11, 15]"
definition xIndex2 :: "nat list" where
  "xIndex2 = [0, 4, 8, 12, 1, 5, 9, 13, 2, 6, 10, 14, 3, 7, 11, 15]"
definition xIndex3 :: "nat list" where
  "xIndex3 = [0, 8, 4, 12, 2, 10, 6, 14, 1, 9, 5, 13, 3, 11, 7, 15]"

text \<open>\<open>bits.RotateLeft32\<close>.\<close>

definition RotateLeft32 :: "u32 \<Rightarrow> nat \<Rightarrow> u32" where
  "RotateLeft32 x k = push_bit (k mod 32) x OR drop_bit (32 - k mod 32) x"

definition round1 :: "u32 list \<Rightarrow> chain \<Rightarrow> nat \<Rightarrow> chain" where
  "round1 X s i =
    (case s of (a, b, c, d) \<Rightarrow>
       let f = ((c XOR d) AND b) XOR d;
           a = a + (f + X ! i);
           a = RotateLeft32 a (shift1 ! (i mod 4))
       in (d, a, b, c))"

definition round2 :: "u32 list \<Rightarrow> chain \<Rightarrow> nat \<Rightarrow> chain" where
  "round2 X s i =
    (case s of (a, b, c, d) \<Rightarrow>
       let g = (b AND c) OR (b AND d) OR (c AND d);
           a = a + (g + X ! (xIndex2 ! i) + 0x5a827999);
           a = RotateLeft32 a (shift2 ! (i mod 4))
       in (d, a, b, c))"

definition round3 :: "u32 list \<Rightarrow> chain \<Rightarrow> nat \<Rightarrow> chain" where
  "round3 X s i =
    (case s of (a, b, c, d) \<Rightarrow>
       let h = b XOR c XOR d;
           a = a + (h + X ! (xIndex3 ! i) + 0x6ed9eba1);
           a = RotateLeft32 a (shift3 ! (i mod 4))
       in (d, a, b, c))"

text \<open>One 64-byte chunk: the sixteen little-endian words, three rounds, the feed-forward.\<close>

definition md4_chunk :: "chain \<Rightarrow> bytes \<Rightarrow> chain" where
  "md4_chunk s p =
    (let X = map (\<lambda>i. get32 p (4 * i)) [0..<16];
         (a, b, c, d) = foldl (round3 X) (foldl (round2 X) (foldl (round1 X) s [0..<16]) [0..<16]) [0..<16];
         (aa, bb, cc, dd) = s
     in (a + aa, b + bb, c + cc, d + dd))"

text \<open>\<open>_Block\<close>'s loop: every whole chunk of \<open>p\<close>, and the number of bytes consumed.\<close>

function md4_blocks :: "chain \<Rightarrow> bytes \<Rightarrow> chain \<times> nat" where
  "md4_blocks s p =
    (if 64 \<le> length p then
       let (s', n) = md4_blocks (md4_chunk s (take 64 p)) (drop 64 p) in (s', 64 + n)
     else (s, 0))"
  by pat_completeness auto
termination by (relation "measure (length \<circ> snd)") auto

declare md4_blocks.simps [simp del]

section \<open>The digest\<close>

record digest =
  d_s :: chain
  d_x :: bytes
  d_nx :: nat
  d_len :: u64

definition md4_Init :: chain where
  "md4_Init = (0x67452301, 0xEFCDAB89, 0x98BADCFE, 0x10325476)"

definition md4_New :: digest where
  "md4_New = \<lparr>d_s = md4_Init, d_x = mk 64, d_nx = 0, d_len = 0\<rparr>"

definition md4_Block :: "digest \<Rightarrow> bytes \<Rightarrow> digest \<times> nat" where
  "md4_Block d p = (let (s, n) = md4_blocks (d_s d) p in (d\<lparr>d_s := s\<rparr>, n))"

text \<open>
  \<open>Write\<close> in its two halves: top up a partly filled buffer (and digest it when it is full),
  then digest the whole chunks of the rest and keep what is left over.
\<close>

definition md4_fill :: "digest \<Rightarrow> bytes \<Rightarrow> digest \<times> bytes" where
  "md4_fill d p =
    (if d_nx d > 0 then
       let n = (if length p > 64 - d_nx d then 64 - d_nx d else length p);
           d = d\<lparr>d_x := copy_at (d_x d) (d_nx d) (take n p), d_nx := d_nx d + n\<rparr>;
           d = (if d_nx d = 64 then (fst (md4_Block d (d_x d)))\<lparr>d_nx := 0\<rparr> else d)
       in (d, drop n p)
     else (d, p))"

definition md4_absorb :: "digest \<Rightarrow> bytes \<Rightarrow> digest" where
  "md4_absorb d p =
    (let (d, n) = md4_Block d p; p = drop n p
     in if length p > 0 then d\<lparr>d_x := copy_at (d_x d) 0 p, d_nx := length p\<rparr> else d)"

definition md4_Write :: "digest \<Rightarrow> bytes \<Rightarrow> digest" where
  "md4_Write d p =
    (let d = d\<lparr>d_len := d_len d + of_nat (length p)\<rparr>;
         (d, p) = md4_fill d p
     in md4_absorb d p)"

text \<open>\<open>Sum\<close> works on a copy of the digest; \<open>None\<close> is its panic \<open>d.nx != 0\<close>.\<close>

definition md4_out :: "chain \<Rightarrow> bytes" where
  "md4_out s = (case s of (a, b, c, d) \<Rightarrow> le32 a @ le32 b @ le32 c @ le32 d)"

definition md4_Sum :: "digest \<Rightarrow> bytes \<Rightarrow> bytes option" where
  "md4_Sum d0 inp =
    (let len = d_len d0;
         tmp = put8 (mk 64) 0 0x80;
         d = (if unat len mod 64 < 56
              then md4_Write d0 (take (56 - unat len mod 64) tmp)
              else md4_Write d0 (take (64 + 56 - unat len mod 64) tmp));
         d = md4_Write d (le64 (push_bit 3 len))
     in if d_nx d \<noteq> 0 then None else Some (inp @ md4_out (d_s d)))"

section \<open>What a digest stands for\<close>

definition md4_run :: "chain \<Rightarrow> bytes \<Rightarrow> chain" where
  "md4_run s p = fst (md4_blocks s p)"

definition md4_pad :: "nat \<Rightarrow> bytes" where
  "md4_pad n =
    0x80 # replicate (if n mod 64 < 56 then 55 - n mod 64 else 119 - n mod 64) 0
      @ le64 (of_nat (8 * n))"

text \<open>RFC 1320 on a whole message: pad it, run its chunks, emit the chain.\<close>

definition md4_spec :: "bytes \<Rightarrow> bytes" where
  "md4_spec m = md4_out (md4_run md4_Init (m @ md4_pad (length m)))"

definition md4_rep :: "digest \<Rightarrow> bytes \<Rightarrow> bool" where
  "md4_rep d m \<longleftrightarrow>
    length (d_x d) = 64 \<and> d_nx d = length m mod 64 \<and> d_s d = md4_run md4_Init m \<and>
    take (d_nx d) (d_x d) = drop (length m - length m mod 64) m \<and> d_len d = of_nat (length m)"

lemma md4_blocks_count: "snd (md4_blocks s p) = length p - length p mod 64"
proof (induction s p rule: md4_blocks.induct)
  case (1 s p)
  show ?case
  proof (cases "64 \<le> length p")
    case True
    obtain s' n where eq: "md4_blocks (md4_chunk s (take 64 p)) (drop 64 p) = (s', n)"
      by fastforce
    have "snd (md4_blocks s p) = 64 + n"
      using True by (simp add: md4_blocks.simps [of s p] eq)
    moreover have "n = length p - 64 - (length p - 64) mod 64"
      using 1 True eq by simp
    moreover have "length p mod 64 = (length p - 64) mod 64" using True by (simp add: le_mod_geq)
    ultimately show ?thesis using True mod_less_eq_dividend [of "length p - 64" 64] by linarith
  next
    case False
    then show ?thesis by (subst md4_blocks.simps) simp
  qed
qed

lemma md4_run_short: "length p < 64 \<Longrightarrow> md4_run s p = s"
  by (simp add: md4_run_def md4_blocks.simps [of s p])

lemma md4_run_step: "64 \<le> length p \<Longrightarrow> md4_run s p = md4_run (md4_chunk s (take 64 p)) (drop 64 p)"
  by (simp add: md4_run_def md4_blocks.simps [of s p] split_beta)

lemma md4_run_append:
  "64 dvd length p \<Longrightarrow> md4_run s (p @ q) = md4_run (md4_run s p) q"
proof (induction s p rule: md4_blocks.induct)
  case (1 s p)
  show ?case
  proof (cases "64 \<le> length p")
    case True
    with 1 have "md4_run (md4_chunk s (take 64 p)) (drop 64 p @ q)
        = md4_run (md4_run (md4_chunk s (take 64 p)) (drop 64 p)) q"
      by simp
    with True show ?thesis
      by (simp add: md4_run_step [of p] md4_run_step [of "p @ q"])
  next
    case False
    with 1 have "p = []" by (auto dest: dvd_imp_le)
    then show ?thesis by (simp add: md4_run_short)
  qed
qed

lemma md4_run_tail:
  assumes "64 dvd length m" and "length t < 64"
  shows "md4_run s (m @ t) = md4_run s m"
  using assms by (simp add: md4_run_append md4_run_short)

lemma mod64_add: "64 dvd a \<Longrightarrow> t < 64 \<Longrightarrow> (a + t) mod 64 = (t::nat)"
  by (auto elim!: dvdE)

lemma md4_split:
  obtains b t where "m = b @ t" "64 dvd length b" "length t = length m mod 64"
    "t = drop (length m - length m mod 64) m" "length t < 64"
proof
  let ?k = "length m - length m mod 64"
  show "m = take ?k m @ drop ?k m" by simp
  have "length (take ?k m) = ?k" by (simp only: length_take min_absorb2 diff_le_self)
  then show "64 dvd length (take ?k m)" by (simp only: dvd_minus_mod)
  show "length (drop ?k m) = length m mod 64" by simp
  then show "length (drop ?k m) < 64" by simp
qed simp

lemma md4_absorb_rep:
  assumes rep: "length (d_x d) = 64" "d_nx d = 0" "d_s d = md4_run md4_Init m" "64 dvd length m"
    and len: "d_len d = of_nat (length (m @ p))"
  shows "md4_rep (md4_absorb d p) (m @ p)"
proof -
  obtain b t where p: "p = b @ t" "64 dvd length b" "length t = length p mod 64" "length t < 64"
    using md4_split by metis
  have n: "snd (md4_blocks (d_s d) p) = length b"
    using p by (simp add: md4_blocks_count)
  have mod: "length (m @ p) mod 64 = length t"
    using mod64_add [of "length m + length b" "length t"] rep(4) p(2,4) by (simp add: p(1) add.assoc)
  have drop: "drop (length (m @ p) - length t) (m @ p) = t"
    by (simp add: p(1))
  have run: "md4_run md4_Init (m @ p) = md4_run (d_s d) p"
    using rep by (simp add: md4_run_append)
  have blk: "md4_Block d p = (d\<lparr>d_s := md4_run (d_s d) p\<rparr>, length b)"
    by (simp add: md4_Block_def md4_run_def split_beta n)
  have "drop (length b) p = t" "length p = length b + length t" by (simp_all add: p(1))
  then have W: "md4_absorb d p =
      (let e = d\<lparr>d_s := md4_run (d_s d) p\<rparr>
       in if t = [] then e else e\<lparr>d_x := copy_at (d_x d) 0 t, d_nx := length t\<rparr>)"
    by (simp add: md4_absorb_def blk Let_def)
  show ?thesis
    unfolding md4_rep_def mod drop run W Let_def
    using rep(1-3) len p(4) by (cases "t = []") simp_all
qed

lemma md4_Write_rep:
  assumes rep: "md4_rep d m"
  shows "md4_rep (md4_Write d p) (m @ p)"
proof -
  obtain b t where m: "m = b @ t" "64 dvd length b" "length t = length m mod 64"
      "t = drop (length m - length m mod 64) m" "length t < 64"
    using md4_split by metis
  have t: "drop (length m - length t) m = t" by (simp add: m(1))
  have "md4_run md4_Init m = md4_run md4_Init b"
    unfolding m(1) by (rule md4_run_tail [OF m(2,5)])
  then have d: "length (d_x d) = 64" "d_nx d = length t" "d_s d = md4_run md4_Init b"
      "take (length t) (d_x d) = t" "d_len d = of_nat (length m)"
    using rep t unfolding md4_rep_def m(3) [symmetric] by auto
  let ?d = "d\<lparr>d_len := d_len d + of_nat (length p)\<rparr>"
  have len: "d_len ?d = of_nat (length (m @ p))" using d by simp
  consider "t = []" | "t \<noteq> []" "length p < 64 - length t" | "t \<noteq> []" "64 - length t \<le> length p"
    by linarith
  then show ?thesis
  proof cases
    case 1
    then have "md4_Write d p = md4_absorb ?d p"
      using d by (simp add: md4_Write_def md4_fill_def Let_def)
    moreover have "md4_rep (md4_absorb ?d p) (m @ p)"
      using 1 d len m(1,2) by (intro md4_absorb_rep) auto
    ultimately show ?thesis by simp
  next
    case 2
    have noblk: "md4_Block e [] = (e, 0)" for e
      by (simp add: md4_Block_def md4_blocks.simps [of "d_s e" "[]"])
    have W: "md4_Write d p = ?d\<lparr>d_x := copy_at (d_x d) (length t) p, d_nx := length t + length p\<rparr>"
      using 2 d by (simp add: md4_Write_def md4_fill_def md4_absorb_def Let_def noblk)
    have mp: "length (m @ p) mod 64 = length t + length p"
      using mod64_add [of "length b" "length t + length p"] m(1,2) 2 by (simp add: add.assoc)
    have "take (length t + length p) (copy_at (d_x d) (length t) p) = t @ p"
      using 2 d by (simp add: copy_at_def)
    moreover have "drop (length (m @ p) - (length t + length p)) (m @ p) = t @ p"
      by (simp add: m(1))
    moreover have "md4_run md4_Init (m @ p) = md4_run md4_Init b"
      using m(1,2) 2 md4_run_tail [of b "t @ p"] by simp
    ultimately show ?thesis
      using d len unfolding md4_rep_def mp W by simp
  next
    case 3
    let ?n = "64 - length t"
    let ?x = "t @ take ?n p"
    have x: "copy_at (d_x d) (length t) (take ?n p) = ?x" "length ?x = 64"
      using 3 d m(5) by (simp_all add: copy_at_def)
    let ?e = "?d\<lparr>d_x := ?x, d_nx := 0, d_s := md4_run (d_s d) ?x\<rparr>"
    have n: "(if length p > 64 - length t then 64 - length t else length p) = ?n"
      using 3 by simp
    have nx: "d_nx ?d = length t" "d_x ?d = d_x d" "d_s ?d = d_s d" using d by simp_all
    have full: "length t + ?n = 64" "0 < length t" using 3 m(5) by simp_all
    have "md4_fill ?d p = (?e, drop ?n p)"
      unfolding md4_fill_def nx n Let_def
      using full by (simp add: x(1) md4_Block_def md4_run_def split_beta)
    then have W: "md4_Write d p = md4_absorb ?e (drop ?n p)"
      by (simp add: md4_Write_def Let_def)
    have "md4_rep (md4_absorb ?e (drop ?n p)) ((b @ ?x) @ drop ?n p)"
    proof (rule md4_absorb_rep)
      show "d_s ?e = md4_run md4_Init (b @ ?x)"
        using d m(2) by (simp add: md4_run_append)
      show "64 dvd length (b @ ?x)" using m(2) x(2) by simp
      show "d_len ?e = of_nat (length ((b @ ?x) @ drop ?n p))"
        using len m(1) by simp
    qed (use x(2) in simp_all)
    moreover have "(b @ ?x) @ drop ?n p = m @ p" by (simp add: m(1))
    ultimately show ?thesis by (simp only: W)
  qed
qed

lemma md4_New_rep: "md4_rep md4_New []"
  by (simp add: md4_rep_def md4_New_def md4_run_short)

lemma md4_pad_length: "64 dvd n + length (md4_pad n)"
proof -
  define k where "k = n mod 64"
  have "k < 64" by (simp add: k_def)
  have "n + length (md4_pad n) = (n - k) + (if k < 56 then 64 else 128)"
    using \<open>k < 64\<close> mod_less_eq_dividend [of n 64] by (auto simp: md4_pad_def simp flip: k_def)
  moreover have "64 dvd n - k" unfolding k_def by (rule dvd_minus_mod)
  ultimately show ?thesis by (simp add: dvd_add_right_iff)
qed

lemma unat_of_nat_mod_64: "unat (of_nat n :: u64) mod 64 = n mod 64"
  by (simp add: unat_of_nat take_bit_eq_mod mod_mod_cancel)

lemma md4_Sum_rep:
  assumes "md4_rep d m"
  shows "md4_Sum d inp = Some (inp @ md4_spec m)"
proof -
  let ?n = "length m"
  let ?z = "if ?n mod 64 < 56 then 55 - ?n mod 64 else 119 - ?n mod 64"
  have len: "d_len d = of_nat ?n" using assms by (simp add: md4_rep_def)
  have mod: "unat (d_len d) mod 64 = ?n mod 64" by (simp add: len unat_of_nat_mod_64)
  have tmp: "put8 (mk 64) 0 0x80 = 0x80 # replicate 63 0"
    by (simp add: copy_at_def mk_def replicate_numeral_Cons)
  have tk: "take (Suc i) (put8 (mk 64) 0 0x80) = 0x80 # replicate i 0" if "i \<le> 63" for i
    using that by (simp add: tmp)
  have "?n mod 64 < 64" by simp
  then have pad: "take (56 - ?n mod 64) (put8 (mk 64) 0 0x80) = 0x80 # replicate ?z 0" if "?n mod 64 < 56"
  proof -
    have "56 - ?n mod 64 = Suc (55 - ?n mod 64)" using that by linarith
    with that tk [of "55 - ?n mod 64"] show ?thesis by (simp only: if_True)
  qed
  have pad': "take (64 + 56 - ?n mod 64) (put8 (mk 64) 0 0x80) = 0x80 # replicate ?z 0" if "\<not> ?n mod 64 < 56"
  proof -
    have "64 + 56 - ?n mod 64 = Suc (119 - ?n mod 64)" "119 - ?n mod 64 \<le> 63"
      using that \<open>?n mod 64 < 64\<close> by linarith+
    with that tk [of "119 - ?n mod 64"] show ?thesis by (simp only: if_False)
  qed
  have bits: "push_bit 3 (d_len d) = of_nat (8 * ?n)"
    by (simp add: len push_bit_eq_mult)
  let ?d1 = "md4_Write d (0x80 # replicate ?z 0)"
  let ?d2 = "md4_Write ?d1 (le64 (of_nat (8 * ?n)))"
  have "md4_rep ?d2 ((m @ 0x80 # replicate ?z 0) @ le64 (of_nat (8 * ?n)))"
    using assms by (intro md4_Write_rep)
  then have r: "md4_rep ?d2 (m @ md4_pad ?n)" by (simp add: md4_pad_def)
  have "64 dvd length (m @ md4_pad ?n)" using md4_pad_length by simp
  then have "d_nx ?d2 = 0" using r unfolding md4_rep_def by (simp add: dvd_imp_mod_0)
  moreover have "d_s ?d2 = md4_run md4_Init (m @ md4_pad ?n)" using r by (simp add: md4_rep_def)
  moreover have "md4_Sum d inp = (if d_nx ?d2 \<noteq> 0 then None else Some (inp @ md4_out (d_s ?d2)))"
    using pad pad' by (simp add: md4_Sum_def Let_def mod bits)
  ultimately show ?thesis by (simp add: md4_spec_def)
qed

section \<open>A reference vector\<close>

text \<open>Evaluation of a rotation on a numeral, with the result reduced to 32 bits.\<close>

lemma RotateLeft32_eval:
  "RotateLeft32 x k =
     of_nat (take_bit 32 (push_bit (k mod 32) (unat x)) OR drop_bit (32 - k mod 32) (unat x))"
  unfolding RotateLeft32_def by (rule bit_word_eqI) (auto simp: bit_simps)

lemmas md4_eval = round1_def round2_def round3_def RotateLeft32_eval Let_def
  shift1_def shift2_def shift3_def xIndex2_def xIndex3_def

lemma upt_0_16: "[0::nat..<16] = [0, 1, 2, 3, 4, 5, 6, 7, 8, 9, 10, 11, 12, 13, 14, 15]"
  by (simp add: upt_rec_numeral upt_conv_Cons)

text \<open>The padded block of \<open>"abc"\<close> (RFC 1320, appendix A.5), round by round.\<close>

definition md4_abc_block :: bytes where
  "md4_abc_block = [0x61, 0x62, 0x63, 0x80] @ replicate 52 0 @ [0x18, 0, 0, 0, 0, 0, 0, 0]"

lemma md4_chunk_abc:
  "md4_chunk md4_Init md4_abc_block = (0x7a0148a4, 0x52d821af, 0xe80ac15f, 0x9d72a67a)"
proof -
  let ?X = "[0x80636261, 0, 0, 0, 0, 0, 0, 0, 0, 0, 0, 0, 0, 0, 0x18, 0] :: u32 list"
  have X: "map (\<lambda>i. get32 md4_abc_block (4 * i)) [0..<16] = ?X"
    by (simp add: md4_abc_block_def upt_0_16 un32_def replicate_numeral_Cons)
  have r1: "foldl (round1 ?X) md4_Init [0..<16] = (0xa299a540, 0xda717395, 0x24baadcb, 0x4e19293)"
    by (simp add: upt_0_16 md4_eval md4_Init_def)
  have r2: "foldl (round2 ?X) (0xa299a540, 0xda717395, 0x24baadcb, 0x4e19293) [0..<16] = (0x7296594c, 0x8e531b8f, 0x3dd42422, 0x4e7e1748)"
    by (simp add: upt_0_16 md4_eval)
  have r3: "foldl (round3 ?X) (0x7296594c, 0x8e531b8f, 0x3dd42422, 0x4e7e1748) [0..<16] = (0x12bc25a3, 0x630a7626, 0x4f4fe461, 0x8d405204)"
    by (simp add: upt_0_16 md4_eval)
  show ?thesis
    unfolding md4_chunk_def X Let_def r1 r2 r3 by (simp add: md4_Init_def)
qed

lemma md4_spec_abc:
  "md4_spec (ascii ''abc'') =
     [0xa4, 0x48, 0x01, 0x7a, 0xaf, 0x21, 0xd8, 0x52, 0x5f, 0xc1, 0x0a, 0xe8, 0x7a, 0xa6, 0x72, 0x9d]"
proof -
  have p: "ascii ''abc'' @ md4_pad (length (ascii ''abc'')) = md4_abc_block"
    by (simp add: md4_abc_block_def md4_pad_def le64_def le_bytes_numeral replicate_numeral_Cons)
  have len: "length md4_abc_block = 64" by (simp add: md4_abc_block_def)
  show ?thesis unfolding md4_spec_def p
    by (simp add: md4_run_step len md4_chunk_abc md4_run_short md4_out_def le_eval)
qed

lemma length_md4_spec [simp]: "length (md4_spec m) = 16"
  by (simp add: md4_spec_def md4_out_def split: prod.split)

section \<open>Properties\<close>

lemma md4_fold_rep: "md4_rep d m \<Longrightarrow> md4_rep (fold (\<lambda>p d. md4_Write d p) ps d) (m @ concat ps)"
proof (induction ps arbitrary: d m)
  case (Cons p ps)
  from Cons.IH [OF md4_Write_rep [OF Cons.prems]] show ?case by simp
qed simp

text \<open>
  C37. Streaming MD4: however a message is cut into writes, the digest never panics and its sum is
  the RFC 1320 digest of the whole message, appended to the caller's prefix.
\<close>

theorem md4_streaming:
  "md4_Sum (fold (\<lambda>p d. md4_Write d p) ps md4_New) inp = Some (inp @ md4_spec (concat ps))"
  using md4_Sum_rep [OF md4_fold_rep [OF md4_New_rep]] by simp

text \<open>
  The test vector of RFC 1320 for "abc", through the streaming interface.
\<close>

theorem md4_abc_vector:
  "md4_Sum (md4_Write (md4_Write md4_New (ascii ''a'')) (ascii ''bc'')) [] =
    Some [0xa4, 0x48, 0x01, 0x7a, 0xaf, 0x21, 0xd8, 0x52, 0x5f, 0xc1, 0x0a, 0xe8, 0x7a, 0xa6, 0x72, 0x9d]"
  using md4_Sum_rep [OF md4_Write_rep [OF md4_Write_rep [OF md4_New_rep]], of "ascii ''a''" "ascii ''bc''" "[]"]
    md4_spec_abc
  by simp

end
