(* ===== verification/Crypto.thy ===== *)
theory Crypto
  imports Packet MD4
begin

text \<open>
  \<open>internal/smb/crypto.go\<close>: the NTLMv2 computations, the SP 800-108 key derivation, message
  signing and verification, and the chunked AES-CMAC. The primitives of Go's \<open>crypto\<close>
  packages are parameters, typed by the size of their result. The lemmas show that the
  chunked CMAC is RFC 4493 over any block cipher, that a signed message verifies, and that
  verification leaves the message as it was.
\<close>

section \<open>Primitives of the standard library\<close>

record crypto =
  c_md5 :: "bytes \<Rightarrow> 128 word"
  c_hmac_md5 :: "bytes \<Rightarrow> bytes \<Rightarrow> 128 word"
  c_hmac_sha256 :: "bytes \<Rightarrow> bytes \<Rightarrow> 256 word"
  c_aes :: "bytes \<Rightarrow> 128 word \<Rightarrow> 128 word"
  c_rc4 :: "bytes \<Rightarrow> nat \<Rightarrow> byte"

definition md5_Sum :: "crypto \<Rightarrow> bytes \<Rightarrow> bytes" where
  "md5_Sum C m = be_bytes 16 (unat (c_md5 C m))"

definition hmac_md5 :: "crypto \<Rightarrow> bytes \<Rightarrow> bytes \<Rightarrow> bytes" where
  "hmac_md5 C k m = be_bytes 16 (unat (c_hmac_md5 C k m))"

definition hmac_sha256 :: "crypto \<Rightarrow> bytes \<Rightarrow> bytes \<Rightarrow> bytes" where
  "hmac_sha256 C k m = be_bytes 32 (unat (c_hmac_sha256 C k m))"

text \<open>\<open>cipher.Block.Encrypt\<close> on one 16-byte block.\<close>

definition aes_Encrypt :: "crypto \<Rightarrow> bytes \<Rightarrow> bytes \<Rightarrow> bytes" where
  "aes_Encrypt C k b = be_bytes 16 (unat (c_aes C k (of_nat (be_nat b))))"

text \<open>\<open>aes.NewCipher\<close> and \<open>rc4.NewCipher\<close> accept keys of these sizes.\<close>

definition aes_key_ok :: "bytes \<Rightarrow> bool" where
  "aes_key_ok k \<longleftrightarrow> length k = 16 \<or> length k = 24 \<or> length k = 32"

definition rc4_key_ok :: "bytes \<Rightarrow> bool" where
  "rc4_key_ok k \<longleftrightarrow> 1 \<le> length k \<and> length k \<le> 256"

definition rc4_XORKeyStream :: "crypto \<Rightarrow> bytes \<Rightarrow> bytes \<Rightarrow> bytes" where
  "rc4_XORKeyStream C k src = map (\<lambda>i. src ! i XOR c_rc4 C k i) [0..<length src]"

lemma length_primitives [simp]:
  "length (md5_Sum C m) = 16" "length (hmac_md5 C k m) = 16"
  "length (hmac_sha256 C k m) = 32" "length (aes_Encrypt C k b) = 16"
  "length (rc4_XORKeyStream C k b) = length b"
  by (simp_all add: md5_Sum_def hmac_md5_def hmac_sha256_def aes_Encrypt_def rc4_XORKeyStream_def)

section \<open>NTLMv2\<close>

abbreviation ntlmNegotiateKeyExch :: u32 where "ntlmNegotiateKeyExch \<equiv> 0x40000000"
abbreviation ntlmNegotiateVersion :: u32 where "ntlmNegotiateVersion \<equiv> 0x02000000"

text \<open>\<open>h.Sum(nil)\<close> cannot panic here: \<open>md4_Sum_rep\<close>.\<close>

definition ntHash :: "gostring \<Rightarrow> bytes" where
  "ntHash password =
    (case md4_Sum (md4_Write md4_New (stringToUTF16le password)) [] of Some h \<Rightarrow> h | None \<Rightarrow> [])"

lemma ntHash_spec: "ntHash password = md4_spec (stringToUTF16le password)"
  using md4_Sum_rep [OF md4_Write_rep [OF md4_New_rep]] by (simp add: ntHash_def)

definition ntowfv2 :: "crypto \<Rightarrow> unicode \<Rightarrow> gostring \<Rightarrow> gostring \<Rightarrow> gostring \<Rightarrow> bytes" where
  "ntowfv2 C U user password domain =
    hmac_md5 C (ntHash password) (stringToUTF16le (ToUpper U user @ domain))"

definition validateNTLMv2 :: "crypto \<Rightarrow> bytes \<Rightarrow> bytes \<Rightarrow> bytes \<Rightarrow> bool" where
  "validateNTLMv2 C responseKeyNT serverChallenge ntResponse =
    (if length ntResponse < 16 then False
     else
       let proof_str = take 16 ntResponse;
           blob = drop 16 ntResponse
       in proof_str = hmac_md5 C responseKeyNT (serverChallenge @ blob))"

definition exportedSessionKey :: "crypto \<Rightarrow> bytes \<Rightarrow> bytes \<Rightarrow> u32 \<Rightarrow> bytes \<Rightarrow> bytes" where
  "exportedSessionKey C responseKeyNT ntProofStr flags encRandomSessionKey =
    (let keyExchangeKey = hmac_md5 C responseKeyNT ntProofStr in
     if flags AND ntlmNegotiateKeyExch \<noteq> 0 \<and> length encRandomSessionKey = 16
        \<and> rc4_key_ok keyExchangeKey
     then rc4_XORKeyStream C keyExchangeKey encRandomSessionKey
     else keyExchangeKey)"

definition kdf :: "crypto \<Rightarrow> bytes \<Rightarrow> bytes \<Rightarrow> bytes \<Rightarrow> bytes" where
  "kdf C ki label context =
    take 16 (hmac_sha256 C ki
      ([0x00, 0x00, 0x00, 0x01] @ label @ [0x00] @ context @ [0x00, 0x00, 0x00, 0x80]))"

lemma length_exportedSessionKey [simp]: "length (exportedSessionKey C k p f e) = 16"
  by (simp add: exportedSessionKey_def Let_def)

lemma length_kdf [simp]: "length (kdf C k l c) = 16"
  by (simp add: kdf_def)

subsection \<open>The AUTHENTICATE message\<close>

definition ntlmSignature :: bytes where
  "ntlmSignature = ascii ''NTLMSSP'' @ [0]"

abbreviation ntlmTypeChallenge :: u32 where "ntlmTypeChallenge \<equiv> 2"
abbreviation ntlmTypeAuthenticate :: u32 where "ntlmTypeAuthenticate \<equiv> 3"

record ntlmAuthenticate =
  au_user :: gostring
  au_domain :: gostring
  au_ntResponse :: bytes
  au_flags :: u32
  au_encSessionKey :: bytes
  au_osMajor :: byte

text \<open>The closure \<open>field\<close>: a (length, max, offset) descriptor of the fixed part.\<close>

definition ntlm_field :: "bytes \<Rightarrow> nat \<Rightarrow> bytes" where
  "ntlm_field msg off =
    (let len = unat (get16 msg off);
         start = unat (get32 msg (off + 4))
     in if len = 0 \<or> start + len > length msg then [] else slice msg start (start + len))"

definition parseNTLMAuthenticate :: "bytes \<Rightarrow> ntlmAuthenticate option" where
  "parseNTLMAuthenticate msg =
    (if length msg < 64 \<or> slice msg 0 8 \<noteq> ntlmSignature \<or> get32 msg 8 \<noteq> ntlmTypeAuthenticate
     then None
     else
       let flags = get32 msg 60;
           osMajor = (if flags AND ntlmNegotiateVersion \<noteq> 0 \<and> length msg \<ge> 65 then msg ! 64 else 0)
       in Some
         \<lparr>au_user = utf16leToString (ntlm_field msg 36),
          au_domain = utf16leToString (ntlm_field msg 28),
          au_ntResponse = ntlm_field msg 20,
          au_flags = flags,
          au_encSessionKey = ntlm_field msg 52,
          au_osMajor = osMajor\<rparr>)"

section \<open>AES-CMAC\<close>

abbreviation cmacChunk :: nat where "cmacChunk \<equiv> 65536"

definition xor16 :: "bytes \<Rightarrow> bytes \<Rightarrow> bytes" where
  "xor16 dst src = map2 (XOR) dst src"

text \<open>The shift loop of \<open>gfMulX\<close>, from the last byte to the first, carrying the top bit.\<close>

definition gf_shift :: "bytes \<Rightarrow> bytes \<times> byte" where
  "gf_shift b = foldr (\<lambda>x (out, carry). ((push_bit 1 x OR carry) # out, drop_bit 7 x)) b ([], 0)"

definition gfMulX :: "bytes \<Rightarrow> bytes" where
  "gfMulX inp =
    (let (out, carry) = gf_shift inp
     in if carry \<noteq> 0 then out[15 := out ! 15 XOR 0x87] else out)"

text \<open>\<open>cipher.NewCBCEncrypter(block, iv).CryptBlocks\<close> over whole blocks.\<close>

function cbc_CryptBlocks :: "crypto \<Rightarrow> bytes \<Rightarrow> bytes \<Rightarrow> bytes \<Rightarrow> bytes" where
  "cbc_CryptBlocks C key iv p =
    (if length p < 16 then []
     else
       let c = aes_Encrypt C key (xor16 iv (take 16 p))
       in c @ cbc_CryptBlocks C key c (drop 16 p))"
  by pat_completeness auto
termination by (relation "measure (\<lambda>(C, key, iv, p). length p)") auto

declare cbc_CryptBlocks.simps [simp del]

text \<open>The chunk loop of \<open>aesCMAC\<close>: the chain state is the last ciphertext block of a chunk.\<close>

function cmac_chain :: "crypto \<Rightarrow> bytes \<Rightarrow> bytes \<Rightarrow> bytes \<Rightarrow> bytes" where
  "cmac_chain C key x p =
    (if p = [] then x
     else
       let n = (if length p > cmacChunk then cmacChunk else length p);
           scratch = cbc_CryptBlocks C key x (take n p)
       in cmac_chain C key (slice scratch (n - 16) n) (drop n p))"
  by pat_completeness auto
termination by (relation "measure (\<lambda>(C, key, x, p). length p)") auto

declare cmac_chain.simps [simp del]

definition aesCMAC :: "crypto \<Rightarrow> bytes \<Rightarrow> bytes \<Rightarrow> bytes" where
  "aesCMAC C key msg =
    (if \<not> aes_key_ok key then mk 16
     else
       let l = aes_Encrypt C key (mk 16);
           k1 = gfMulX l;
           k2 = gfMulX k1;
           full = length msg div 16;
           rem = length msg mod 16;
           (full, rem) = (if rem = 0 \<and> full > 0 then (full - 1, 16) else (full, rem));
           x = (if full > 0 then cmac_chain C key (mk 16) (take (full * 16) msg) else mk 16);
           last_blk = copy_at (mk 16) 0 (drop (full * 16) msg);
           last_blk = (if rem = 16 then xor16 last_blk k1
                       else xor16 (put8 last_blk rem 0x80) k2);
           x = xor16 x last_blk
       in aes_Encrypt C key x)"

lemma length_xor16 [simp]: "length (xor16 a b) = min (length a) (length b)"
  by (simp add: xor16_def)

lemma length_aesCMAC [simp]: "length (aesCMAC C key msg) = 16"
  by (simp add: aesCMAC_def Let_def split_beta)

subsection \<open>RFC 4493\<close>

text \<open>
  The reference: the message in 16-byte blocks, the last one completed and masked with a
  subkey, CBC-MAC over the lot; a subkey is doubling in \<open>GF(2^128)\<close>, on 128-bit words.
\<close>

definition gf_double :: "128 word \<Rightarrow> 128 word" where
  "gf_double w = (if bit w 127 then push_bit 1 w XOR 0x87 else push_bit 1 w)"

function blocks16 :: "bytes \<Rightarrow> bytes list" where
  "blocks16 m = (if length m \<le> 16 then [m] else take 16 m # blocks16 (drop 16 m))"
  by pat_completeness auto
termination by (relation "measure length") auto

declare blocks16.simps [simp del]

definition w128 :: "bytes \<Rightarrow> 128 word" where
  "w128 b = of_nat (be_nat b)"

definition cmac_rfc4493 :: "crypto \<Rightarrow> bytes \<Rightarrow> bytes \<Rightarrow> 128 word" where
  "cmac_rfc4493 C key msg =
    (let k1 = gf_double (c_aes C key 0);
         k2 = gf_double k1;
         bs = blocks16 msg;
         m_n = last bs;
         m_last = (if length m_n = 16 then w128 m_n XOR k1
                   else w128 (m_n @ 0x80 # replicate (15 - length m_n) 0) XOR k2)
     in foldl (\<lambda>x b. c_aes C key (x XOR b)) 0 (map w128 (butlast bs) @ [m_last]))"

subsection \<open>The chunked computation is the reference\<close>

lemma w128_xor: "length a = length b \<Longrightarrow> w128 (xor16 a b) = w128 a XOR w128 b"
  by (simp add: w128_def xor16_def be_nat_xor of_nat_xor_word)

lemma w128_aes: "w128 (aes_Encrypt C k b) = c_aes C k (w128 b)"
proof -
  have "unat (c_aes C k (w128 b)) < 256 ^ 16"
    using unsigned_less [where ?'a = nat, of "c_aes C k (w128 b)"] by simp
  then show ?thesis by (simp add: w128_def aes_Encrypt_def be_nat_be_bytes)
qed

lemma w128_inverse: "length b = 16 \<Longrightarrow> be_bytes 16 (unat (w128 b)) = b"
  using be_bytes_be_nat [of b] be_nat_bound [of b]
  by (simp add: w128_def unat_of_nat take_bit_nat_eq_self)

lemma byte_double_carry:
  assumes "unat c < 2"
  shows "unat (push_bit 1 x OR c :: byte) + 256 * unat (drop_bit 7 x) = 2 * unat x + unat c"
proof -
  have "unat (push_bit 1 x OR c) = (2 * unat x mod 256) OR unat c"
    by (simp only: unsigned_or_eq unsigned_push_bit_eq) (simp add: take_bit_eq_mod push_bit_eq_mult mult.commute)
  also have "\<dots> = 2 * unat x mod 256 + unat c"
    by (rule even_or_bit) (simp add: dvd_mod_iff, fact assms)
  finally have a: "unat (push_bit 1 x OR c) = 2 * unat x mod 256 + unat c" .
  have "unat (drop_bit 7 x) = unat x div 128"
    by (simp only: unsigned_drop_bit_eq) (simp add: drop_bit_eq_div take_bit_eq_mod)
  moreover have "2 * n mod 256 + 256 * (n div 128) = 2 * n" for n :: nat
  proof -
    have "2 * n mod 256 = 2 * (n mod 128)" using mult_mod_right [of 2 n 128] by simp
    moreover have "n div 128 * 128 + n mod 128 = n" by (rule div_mult_mod_eq)
    ultimately show ?thesis by linarith
  qed
  ultimately show ?thesis using a by simp
qed

lemma drop_bit_7_less: "unat (drop_bit 7 (x::byte)) < 2"
proof -
  have "unat (drop_bit 7 x) = unat x div 128"
    by (simp only: unsigned_drop_bit_eq) (simp add: drop_bit_eq_div take_bit_eq_mod)
  then show ?thesis using byte_less [of x] by linarith
qed

lemma gf_shift_Cons:
  "gf_shift (x # b) = (case gf_shift b of (out, c) \<Rightarrow> ((push_bit 1 x OR c) # out, drop_bit 7 x))"
  by (simp add: gf_shift_def)

lemma gf_shift_value:
  "gf_shift b = (out, c) \<Longrightarrow>
   length out = length b \<and> unat c < 2 \<and> be_nat out + 256 ^ length b * unat c = 2 * be_nat b"
proof (induction b arbitrary: out c)
  case Nil
  then show ?case by (simp add: gf_shift_def)
next
  case (Cons x b)
  obtain out' c' where g: "gf_shift b = (out', c')" by fastforce
  note IH = Cons.IH [OF g]
  have o: "out = (push_bit 1 x OR c') # out'" "c = drop_bit 7 x"
    using Cons.prems by (simp_all add: gf_shift_Cons g)
  have "be_nat out + 256 ^ length (x # b) * unat c
      = 256 ^ length b * (unat (push_bit 1 x OR c') + 256 * unat (drop_bit 7 x)) + be_nat out'"
    using IH by (simp add: o be_nat_Cons algebra_simps)
  also have "\<dots> = 256 ^ length b * (2 * unat x) + (be_nat out' + 256 ^ length b * unat c')"
    using IH by (simp only: byte_double_carry) (simp add: algebra_simps)
  also have "\<dots> = 2 * be_nat (x # b)"
    using IH by (simp add: be_nat_Cons)
  finally show ?case using IH o by (simp add: drop_bit_7_less)
qed

lemma w128_xor_last:
  assumes "length b = 16"
  shows "w128 (b[15 := b ! 15 XOR v]) = w128 b XOR ucast v"
proof -
  obtain xs x where b: "b = xs @ [x]" "length xs = 15"
    using assms by (cases b rule: rev_cases) auto
  have "unat (x XOR v) + 256 * be_nat xs = (unat x + 256 * be_nat xs) XOR unat v"
    using xor_nat_split [of "unat x" "unat v" "be_nat xs" 0] by (simp add: unsigned_xor_eq)
  moreover have "b[15 := b ! 15 XOR v] = xs @ [x XOR v]"
    using list_update_length [of xs x "[]"] b by (simp add: nth_append)
  ultimately have "w128 (b[15 := b ! 15 XOR v]) = of_nat ((unat x + 256 * be_nat xs) XOR unat v)"
    by (simp only: w128_def be_nat_snoc)
  then show ?thesis
    by (simp only: of_nat_xor_word) (simp add: b(1) w128_def be_nat_snoc)
qed

lemma w128_gfMulX:
  assumes "length b = 16"
  shows "w128 (gfMulX b) = gf_double (w128 b)" and "length (gfMulX b) = 16"
proof -
  obtain out c where g: "gf_shift b = (out, c)" by fastforce
  note v = gf_shift_value [OF g]
  have lt: "be_nat b < 2 ^ 128" "be_nat out < 2 ^ 128"
    using be_nat_bound [of b] be_nat_bound [of out] assms v by simp_all
  have two: "be_nat out + 2 ^ 128 * unat c = 2 * be_nat b" using v assms by simp
  have out: "w128 out = push_bit 1 (w128 b)"
  proof -
    have "(of_nat (2 ^ 128 * unat c) :: 128 word) = 0"
      by (subst word_of_nat_eq_0_iff) simp
    then have "w128 out = of_nat (be_nat out + 2 ^ 128 * unat c)"
      by (simp only: w128_def of_nat_add) simp
    then show ?thesis by (simp only: two w128_def) (simp add: push_bit_eq_mult)
  qed
  have "bit (w128 b) 127 \<longleftrightarrow> bit (be_nat b) 127"
    by (simp add: w128_def bit_simps)
  also have "\<dots> \<longleftrightarrow> 2 ^ 127 \<le> be_nat b"
  proof -
    have "be_nat b div 2 ^ 127 < 2" using lt by (simp add: div_less_iff_less_mult)
    then have "be_nat b div 2 ^ 127 = 0 \<or> be_nat b div 2 ^ 127 = 1" by linarith
    then show ?thesis by (auto simp: bit_iff_odd div_eq_0_iff not_less)
  qed
  also have "\<dots> \<longleftrightarrow> c \<noteq> 0"
  proof -
    have "c \<noteq> 0 \<longleftrightarrow> unat c = 1" using v by (auto simp: unat_eq_0 less_2_cases_iff)
    then show ?thesis using two lt v by (auto simp: less_2_cases_iff)
  qed
  finally have c: "bit (w128 b) 127 \<longleftrightarrow> c \<noteq> 0" .
  show "length (gfMulX b) = 16" using v assms by (simp add: gfMulX_def g)
  show "w128 (gfMulX b) = gf_double (w128 b)"
    using v assms by (simp add: gfMulX_def g gf_double_def c w128_xor_last out)
qed

definition cmac_step :: "crypto \<Rightarrow> bytes \<Rightarrow> bytes \<Rightarrow> bytes \<Rightarrow> bytes" where
  "cmac_step C key x b = aes_Encrypt C key (xor16 x b)"

lemma length_cmac_step [simp]: "length (cmac_step C key x b) = 16"
  by (simp add: cmac_step_def)

lemma cbc_Nil [simp]: "cbc_CryptBlocks C key x [] = []"
  by (simp add: cbc_CryptBlocks.simps)

lemma cbc_concat:
  "\<forall>b\<in>set bs. length b = 16 \<Longrightarrow>
   length (cbc_CryptBlocks C key x (concat bs)) = 16 * length bs \<and>
   (bs \<noteq> [] \<longrightarrow> drop (16 * (length bs - 1)) (cbc_CryptBlocks C key x (concat bs))
                 = foldl (cmac_step C key) x bs)"
proof (induction bs arbitrary: x)
  case Nil
  then show ?case by simp
next
  case (Cons b bs)
  have c: "cbc_CryptBlocks C key x (b @ concat bs)
      = cmac_step C key x b @ cbc_CryptBlocks C key (cmac_step C key x b) (concat bs)"
    using Cons.prems by (subst cbc_CryptBlocks.simps) (simp add: cmac_step_def Let_def)
  have IH: "length (cbc_CryptBlocks C key y (concat bs)) = 16 * length bs \<and>
      (bs \<noteq> [] \<longrightarrow> drop (16 * (length bs - 1)) (cbc_CryptBlocks C key y (concat bs))
                    = foldl (cmac_step C key) y bs)" for y
    using Cons.IH [of y] Cons.prems by simp
  show ?case
  proof (cases "bs = []")
    case True
    then show ?thesis using c by simp
  next
    case False
    then have "16 * length bs = 16 + 16 * (length bs - 1)" by (cases bs) simp_all
    then show ?thesis using IH [of "cmac_step C key x b"] False by (simp add: c)
  qed
qed

lemma length_concat16: "\<forall>b\<in>set bs. length b = 16 \<Longrightarrow> length (concat bs) = 16 * length bs"
  by (induction bs) simp_all

lemma take_concat16:
  "\<forall>b\<in>set bs. length b = 16 \<Longrightarrow>
   take (16 * n) (concat bs) = concat (take n bs) \<and> drop (16 * n) (concat bs) = concat (drop n bs)"
proof (induction n arbitrary: bs)
  case (Suc n)
  then show ?case by (cases bs) simp_all
qed simp

lemma cmac_chain_concat:
  "\<forall>b\<in>set bs. length b = 16 \<Longrightarrow> cmac_chain C key x (concat bs) = foldl (cmac_step C key) x bs"
proof (induction "length bs" arbitrary: bs x rule: less_induct)
  case less
  show ?case
  proof (cases "bs = []")
    case True
    then show ?thesis by (simp add: cmac_chain.simps)
  next
    case False
    define k where "k = min 4096 (length bs)"
    have k: "0 < k" "k \<le> length bs" using False by (simp_all add: k_def)
    have len: "length (concat bs) = 16 * length bs" using less.prems by (rule length_concat16)
    then have ne: "concat bs \<noteq> []" using False by (metis length_0_conv mult_eq_0_iff zero_neq_numeral)
    have n: "(if length (concat bs) > cmacChunk then cmacChunk else length (concat bs)) = 16 * k"
      by (simp add: len k_def)
    have t: "take (16 * k) (concat bs) = concat (take k bs)" "drop (16 * k) (concat bs) = concat (drop k bs)"
      using take_concat16 [OF less.prems] by auto
    have sub: "\<forall>b\<in>set (take k bs). length b = 16" "\<forall>b\<in>set (drop k bs). length b = 16"
      using less.prems by (auto dest: in_set_takeD in_set_dropD)
    have tk: "length (take k bs) = k" "take k bs \<noteq> []" using k by auto
    have kk: "16 * k - 16 = 16 * (k - 1)" by simp
    have d: "length (cbc_CryptBlocks C key x (concat (take k bs))) = 16 * k"
      "drop (16 * (k - 1)) (cbc_CryptBlocks C key x (concat (take k bs)))
        = foldl (cmac_step C key) x (take k bs)"
      using cbc_concat [OF sub(1), of C key x] tk by auto
    then have "length (foldl (cmac_step C key) x (take k bs)) = 16 * k - 16 * (k - 1)"
      by (metis length_drop)
    then have s: "slice (cbc_CryptBlocks C key x (concat (take k bs))) (16 * k - 16) (16 * k)
        = foldl (cmac_step C key) x (take k bs)"
      by (simp only: slice_def kk d) simp
    have "cmac_chain C key x (concat bs)
        = cmac_chain C key (foldl (cmac_step C key) x (take k bs)) (concat (drop k bs))"
      by (subst cmac_chain.simps) (simp only: ne n Let_def t s if_False)
    also have "\<dots> = foldl (cmac_step C key) (foldl (cmac_step C key) x (take k bs)) (drop k bs)"
      using k by (intro less.hyps sub) simp
    finally show ?thesis by (metis append_take_drop_id foldl_append)
  qed
qed

lemma blocks16_split:
  "\<exists>bs l. blocks16 m = bs @ [l] \<and> m = concat bs @ l \<and> (\<forall>b\<in>set bs. length b = 16) \<and>
          length l \<le> 16 \<and> (m \<noteq> [] \<longrightarrow> l \<noteq> [])"
proof (induction m rule: blocks16.induct)
  case (1 m)
  show ?case
  proof (cases "length m \<le> 16")
    case True
    then show ?thesis by (intro exI [of _ "[]"] exI [of _ m]) (simp add: blocks16.simps)
  next
    case False
    from 1 [OF False] obtain bs l where bs: "blocks16 (drop 16 m) = bs @ [l]"
      "drop 16 m = concat bs @ l" "\<forall>b\<in>set bs. length b = 16" "length l \<le> 16" "l \<noteq> []"
      using False by auto
    then have "m = concat (take 16 m # bs) @ l" by (metis append_assoc append_take_drop_id concat.simps(2))
    moreover have "blocks16 m = (take 16 m # bs) @ [l]" using False bs by (subst blocks16.simps) simp
    ultimately show ?thesis using bs False by (intro exI [of _ "take 16 m # bs"] exI [of _ l]) simp
  qed
qed

lemma foldl_cmac_step:
  "length x = 16 \<Longrightarrow> \<forall>b\<in>set bs. length b = 16 \<Longrightarrow>
   length (foldl (cmac_step C key) x bs) = 16 \<and>
   w128 (foldl (cmac_step C key) x bs) = foldl (\<lambda>x b. c_aes C key (x XOR b)) (w128 x) (map w128 bs)"
  by (induction bs arbitrary: x) (simp_all add: w128_xor w128_aes cmac_step_def)

lemma map2_pad: "length a = length b \<Longrightarrow> map2 f (a @ c) (b @ d) = map2 f a b @ map2 f c d"
  by simp

lemma cmac_last_partial:
  assumes "length l < 16"
  shows "put8 (copy_at (mk 16) 0 l) (length l) 0x80 = l @ 0x80 # replicate (15 - length l) 0"
  using assms by (intro nth_equalityI) (auto simp: nth_copy_at nth_append nth_list_update nth_Cons' mk_def)

lemma w128_mk [simp]: "w128 (mk 16) = 0"
  by (simp add: w128_def mk_def be_nat_def numeral_eq_Suc)

lemma xor16_comm: "xor16 a b = xor16 b a"
  by (induction a b rule: list_induct2') (simp_all add: xor16_def xor.commute)

section \<open>Message signatures\<close>

text \<open>
  Signing and verification do the same to the message whatever the tag function: the field
  \<open>msg[48:64]\<close> is cleared, the tag taken over the rest, and its first 16 bytes used.
  \<open>mac_sign\<close> also sets SMB2_FLAGS_SIGNED first; \<open>mac_verify\<close> returns the message too, whose
  field it clears and restores in place.
\<close>

definition mac_sign :: "(bytes \<Rightarrow> bytes) \<Rightarrow> bytes \<Rightarrow> bytes" where
  "mac_sign tag msg =
    (let msg = copy_at msg 48 (mk 16);
         msg = put32 msg 16 (get32 msg 16 OR flagsSigned);
         sig = tag msg
     in copy_at msg 48 (take 16 sig))"

definition mac_verify :: "(bytes \<Rightarrow> bytes) \<Rightarrow> bytes \<Rightarrow> bool \<times> bytes" where
  "mac_verify tag msg =
    (if length msg < 64 then (False, msg)
     else
       let received = slice msg 48 64;
           msg = copy_at msg 48 (mk 16);
           sig = tag msg;
           msg = copy_at msg 48 received
       in (received = take 16 sig, msg))"

definition message_mac :: "crypto \<Rightarrow> bytes \<Rightarrow> u16 \<Rightarrow> bytes \<Rightarrow> bytes" where
  "message_mac C signKey dialect msg =
    (if dialect = dialect300 \<or> dialect = dialect302 then aesCMAC C signKey msg
     else hmac_sha256 C signKey msg)"

definition signMessage :: "crypto \<Rightarrow> bytes \<Rightarrow> u16 \<Rightarrow> bytes \<Rightarrow> bytes" where
  "signMessage C signKey dialect = mac_sign (message_mac C signKey dialect)"

definition verifyMessage :: "crypto \<Rightarrow> bytes \<Rightarrow> u16 \<Rightarrow> bytes \<Rightarrow> bool \<times> bytes" where
  "verifyMessage C signKey dialect = mac_verify (message_mac C signKey dialect)"

locale mac =
  fixes tag :: "bytes \<Rightarrow> bytes"
  assumes tag_length: "16 \<le> length (tag m)"
begin

lemma length_sign [simp]: "length (mac_sign tag msg) = length msg"
  by (simp add: mac_sign_def Let_def)

lemma verify_unchanged: "snd (mac_verify tag msg) = msg"
  by (simp add: mac_verify_def Let_def split_at_slice)

lemma sign_field:
  assumes "64 \<le> length msg"
  shows "slice (mac_sign tag msg) 48 64
       = take 16 (tag (put32 (copy_at msg 48 (mk 16)) 16 (get32 msg 16 OR flagsSigned)))"
    and "copy_at (mac_sign tag msg) 48 (mk 16)
       = put32 (copy_at msg 48 (mk 16)) 16 (get32 msg 16 OR flagsSigned)"
  using assms tag_length by (simp_all add: mac_sign_def Let_def copy_at_commute [of 16])

lemma verify_sign:
  assumes "64 \<le> length msg"
  shows "mac_verify tag (mac_sign tag msg) = (True, mac_sign tag msg)"
proof -
  have "fst (mac_verify tag (mac_sign tag msg))"
    using assms by (simp add: mac_verify_def sign_field Let_def)
  then show ?thesis using verify_unchanged [of "mac_sign tag msg"] by (cases "mac_verify tag (mac_sign tag msg)") simp
qed

lemma sign_header:
  assumes "64 \<le> length msg"
  shows "take 16 (mac_sign tag msg) = take 16 msg"
    and "get32 (mac_sign tag msg) 16 = get32 msg 16 OR flagsSigned"
    and "slice (mac_sign tag msg) 20 48 = slice msg 20 48"
    and "drop 64 (mac_sign tag msg) = drop 64 msg"
  using assms tag_length by (simp_all add: mac_sign_def Let_def)

end

interpretation smac: mac "message_mac C key dialect" for C key dialect
  by unfold_locales (simp add: message_mac_def)

section \<open>Properties\<close>

text \<open>
  C33. A message signed for a dialect verifies under the same key and dialect, and signing changes
  nothing but the SIGNED flag and the signature field.
\<close>

theorem signature_roundtrip:
  assumes "64 \<le> length msg"
  shows "verifyMessage C key dialect (signMessage C key dialect msg) = (True, signMessage C key dialect msg)
    \<and> length (signMessage C key dialect msg) = length msg
    \<and> take 16 (signMessage C key dialect msg) = take 16 msg
    \<and> get32 (signMessage C key dialect msg) 16 = get32 msg 16 OR flagsSigned
    \<and> slice (signMessage C key dialect msg) 20 48 = slice msg 20 48
    \<and> drop 64 (signMessage C key dialect msg) = drop 64 msg"
  using smac.verify_sign [OF assms] smac.sign_header [OF assms]
  by (simp add: signMessage_def verifyMessage_def)

lemma signature_roundtrip_witness:
  "\<forall>C. fst (verifyMessage C [1] dialect302 (signMessage C [1] dialect302 (mk 64 @ [7])))"
  using signature_roundtrip [of "mk 64 @ [7]" _ "[1]" dialect302] by simp

text \<open>
  Verification accepts a message exactly when its signature field holds the first 16 bytes of
  the code computed over the message with that field cleared, and hands the message back
  as it came.
\<close>

theorem verifyMessage_exact:
  "verifyMessage C key dialect msg =
    (64 \<le> length msg \<and>
     slice msg 48 64 = take 16 (message_mac C key dialect (copy_at msg 48 (mk 16))), msg)"
  using smac.verify_unchanged [of C key dialect msg]
  by (auto simp: verifyMessage_def mac_verify_def Let_def)

text \<open>
  C38. The chunked CBC computation of AES-CMAC, over a message of any length, is the definition of
  RFC 4493 over any block cipher.
\<close>

theorem aesCMAC_rfc4493:
  assumes "aes_key_ok key"
  shows "aesCMAC C key msg = be_bytes 16 (unat (cmac_rfc4493 C key msg))"
proof -
  obtain bs l where b: "blocks16 msg = bs @ [l]" "msg = concat bs @ l" "\<forall>b\<in>set bs. length b = 16"
    "length l \<le> 16" "msg \<noteq> [] \<longrightarrow> l \<noteq> []"
    using blocks16_split [of msg] by blast
  have len: "length msg = 16 * length bs + length l"
    using b length_concat16 [OF b(3)] by simp
  define k1 where "k1 = gfMulX (aes_Encrypt C key (mk 16))"
  define k2 where "k2 = gfMulX k1"
  have k1: "length k1 = 16" "w128 k1 = gf_double (c_aes C key 0)"
    by (simp_all add: k1_def w128_gfMulX w128_aes)
  have k2: "length k2 = 16" "w128 k2 = gf_double (gf_double (c_aes C key 0))"
    using k1 by (simp_all add: k2_def w128_gfMulX)
  define x where "x = foldl (cmac_step C key) (mk 16) bs"
  have x: "length x = 16" "w128 x = foldl (\<lambda>x b. c_aes C key (x XOR b)) 0 (map w128 bs)"
    using foldl_cmac_step [of "mk 16" bs C key] b(3) by (simp_all add: x_def)
  have full: "(if length msg mod 16 = 0 \<and> length msg div 16 > 0 then (length msg div 16 - 1, 16)
      else (length msg div 16, length msg mod 16)) = (length bs, length l)"
  proof (cases "length l = 16")
    case False
    then have "length msg div 16 = length bs" "length msg mod 16 = length l" using b(4) len by auto
    moreover have "length l \<noteq> 0 \<or> length bs = 0" using b len by (cases bs) auto
    ultimately show ?thesis by auto
  qed (simp add: len)
  have chain: "(if length bs > 0 then cmac_chain C key (mk 16) (take (length bs * 16) msg) else mk 16) = x"
    using cmac_chain_concat [OF b(3), of C key "mk 16"] length_concat16 [OF b(3)] b(2)
    by (simp add: x_def mult.commute)
  have drop: "drop (length bs * 16) msg = l"
    using length_concat16 [OF b(3)] b(2) by (simp add: mult.commute)
  define m where "m = (if length l = 16 then xor16 l k1
    else xor16 (l @ 0x80 # replicate (15 - length l) 0) k2)"
  have m: "length m = 16" "w128 m = (if length l = 16 then w128 l XOR gf_double (c_aes C key 0)
      else w128 (l @ 0x80 # replicate (15 - length l) 0) XOR gf_double (gf_double (c_aes C key 0)))"
    using b(4) k1 k2 by (simp_all add: m_def w128_xor)
  have body: "aesCMAC C key msg = aes_Encrypt C key (xor16 x m)"
  proof -
    have "(if length l = 16 then xor16 (copy_at (mk 16) 0 l) k1
        else xor16 (put8 (copy_at (mk 16) 0 l) (length l) 0x80) k2) = m"
      using b(4) by (simp add: m_def copy_at_full cmac_last_partial)
    then show ?thesis
      using assms
      by (simp only: aesCMAC_def Let_def k1_def [symmetric] k2_def [symmetric] full prod.case
          chain drop if_True if_False simp_thms)
  qed
  have "w128 (aes_Encrypt C key (xor16 x m)) = cmac_rfc4493 C key msg"
    using x m by (simp add: w128_aes w128_xor cmac_rfc4493_def b(1) Let_def)
  then show ?thesis using w128_inverse [of "aes_Encrypt C key (xor16 x m)"] body by simp
qed

lemma aesCMAC_rfc4493_witness:
  "\<forall>C. aesCMAC C (mk 16) [1, 2, 3] = be_bytes 16 (unat (cmac_rfc4493 C (mk 16) [1, 2, 3]))"
  using aesCMAC_rfc4493 [of "mk 16"] by (simp add: aes_key_ok_def)

end
