(* ===== verification/Conn.thy ===== *)
theory Conn
  imports Fsx Crypto "HOL-Library.AList"
begin

text \<open>
  The state of a connection (\<open>conn\<close> and \<open>openFile\<close> of \<open>internal/smb/server.go\<close> and
  \<open>create.go\<close>), the server configuration it reads, and the handle table. Calls to a backend,
  to the clock and to the random source act on the component \<open>cn_world\<close>. The lemmas show that
  a FileId is fresh when it is issued, that the table returns what was added under an id until
  the id is removed, and never afterwards.
\<close>

section \<open>The server and its shares\<close>

record 'w share =
  sh_name :: gostring
  sh_fs :: "'w fs"
  sh_readOnly :: bool

text \<open>
  \<open>Options\<close> and the parts of \<open>Server\<close> that do not change once it runs. \<open>sv_now\<close> is
  \<open>time.Now\<close>, \<open>sv_rand n\<close> is \<open>rand.Read\<close> of \<open>n\<close> bytes; \<open>sv_U\<close> and \<open>sv_C\<close> are the tables of
  the \<open>unicode\<close> package and the primitives of \<open>crypto\<close>.
\<close>

record 'w server =
  opt_User :: gostring
  opt_Pass :: gostring
  sv_shares :: "'w share list"
  sv_serverGUID :: bytes
  sv_GOOS :: platform
  sv_U :: unicode
  sv_C :: crypto
  sv_now :: "'w \<Rightarrow> gotime \<times> 'w"
  sv_rand :: "nat \<Rightarrow> 'w \<Rightarrow> bytes \<times> 'w"

fun find_share :: "unicode \<Rightarrow> 'w share list \<Rightarrow> gostring \<Rightarrow> 'w share option" where
  "find_share U [] name = None"
| "find_share U (sh # shs) name =
    (if EqualFold U (sh_name sh) name then Some sh else find_share U shs name)"

definition findShare :: "'w server \<Rightarrow> gostring \<Rightarrow> 'w share option" where
  "findShare S name = find_share (sv_U S) (sv_shares S) name"

section \<open>Open files and the connection\<close>

record 'w openFile =
  of_fileID :: bytes
  of_share :: "'w share"
  of_path :: gostring
  of_handle :: "nat option"
  of_isDir :: bool
  of_deleteOnClose :: bool
  of_dirEntries :: "fileinfo list"
  of_dirPos :: nat
  of_dirLoaded :: bool

text \<open>
  The handle table is a map with pointers as values. A pointer is shared with nothing else
  across commands, so an update through it is an update of the table's entry; the map is an
  association list with distinct keys, whose order is not observed except by
  \<open>closeAllHandles\<close>. \<open>cn_sessionCtr\<close> and \<open>cn_treeCtr\<close> are the server's atomic counters.
\<close>

record 'w conn =
  cn_dialect :: u16
  cn_authChallenge :: bytes
  cn_signKey :: "bytes option"
  cn_warnedWindowsGuest :: bool
  cn_aapl :: bool
  cn_authedSessions :: "u64 set"
  cn_pipeTrees :: "u32 set"
  cn_diskTrees :: "u32 \<Rightarrow> 'w share option"
  cn_handles :: "(bytes \<times> 'w openFile) list"
  cn_handleCtr :: u64
  cn_sessionCtr :: u64
  cn_treeCtr :: u32
  cn_world :: 'w

definition newConn :: "u64 \<Rightarrow> u32 \<Rightarrow> 'w \<Rightarrow> 'w conn" where
  "newConn sessionCtr treeCtr w =
    \<lparr>cn_dialect = 0, cn_authChallenge = mk 8, cn_signKey = None, cn_warnedWindowsGuest = False,
     cn_aapl = False, cn_authedSessions = {}, cn_pipeTrees = {}, cn_diskTrees = (\<lambda>_. None),
     cn_handles = [], cn_handleCtr = 0, cn_sessionCtr = sessionCtr, cn_treeCtr = treeCtr,
     cn_world = w\<rparr>"

text \<open>A call that acts on the world only.\<close>

definition call :: "('w \<Rightarrow> 'a \<times> 'w) \<Rightarrow> 'w conn \<Rightarrow> 'a \<times> 'w conn" where
  "call f s = (let (r, w) = f (cn_world s) in (r, s\<lparr>cn_world := w\<rparr>))"

lemma call_cases:
  obtains r w where "f (cn_world s) = (r, w)" "call f s = (r, s\<lparr>cn_world := w\<rparr>)"
  by (cases "f (cn_world s)") (simp add: call_def)

lemma call_frame [simp]:
  "cn_dialect (snd (call f s)) = cn_dialect s"
  "cn_authChallenge (snd (call f s)) = cn_authChallenge s"
  "cn_signKey (snd (call f s)) = cn_signKey s"
  "cn_aapl (snd (call f s)) = cn_aapl s"
  "cn_authedSessions (snd (call f s)) = cn_authedSessions s"
  "cn_pipeTrees (snd (call f s)) = cn_pipeTrees s"
  "cn_diskTrees (snd (call f s)) = cn_diskTrees s"
  "cn_handles (snd (call f s)) = cn_handles s"
  "cn_handleCtr (snd (call f s)) = cn_handleCtr s"
  "cn_sessionCtr (snd (call f s)) = cn_sessionCtr s"
  "cn_treeCtr (snd (call f s)) = cn_treeCtr s"
  "cn_world (snd (call f s)) = snd (f (cn_world s))"
  "fst (call f s) = fst (f (cn_world s))"
  by (simp_all add: call_def split_beta)

definition nextSessionID :: "'w conn \<Rightarrow> u64 \<times> 'w conn" where
  "nextSessionID s = (let n = cn_sessionCtr s + 1 in (n, s\<lparr>cn_sessionCtr := n\<rparr>))"

definition nextTreeID :: "'w conn \<Rightarrow> u32 \<times> 'w conn" where
  "nextTreeID s = (let n = cn_treeCtr s + 1 in (n, s\<lparr>cn_treeCtr := n\<rparr>))"

section \<open>The handle table\<close>

abbreviation maxOpenFiles :: nat where "maxOpenFiles \<equiv> 16384"

definition fileIDKey :: "bytes \<Rightarrow> bytes" where
  "fileIDKey b = copy_at (mk 16) 0 b"

definition newFileID :: "'w conn \<Rightarrow> bytes \<times> 'w conn" where
  "newFileID s =
    (let i = cn_handleCtr s + 1;
         fid = put64 (put64 (mk 16) 0 i) 8 i
     in (fid, s\<lparr>cn_handleCtr := i\<rparr>))"

definition addHandle :: "'w openFile \<Rightarrow> 'w conn \<Rightarrow> 'w conn" where
  "addHandle f s = s\<lparr>cn_handles := AList.update (of_fileID f) f (cn_handles s)\<rparr>"

definition getHandle :: "bytes \<Rightarrow> 'w conn \<Rightarrow> 'w openFile option" where
  "getHandle fileID s = map_of (cn_handles s) (fileIDKey fileID)"

definition removeHandle :: "bytes \<Rightarrow> 'w conn \<Rightarrow> 'w openFile option \<times> 'w conn" where
  "removeHandle fileID s =
    (let k = fileIDKey fileID
     in (map_of (cn_handles s) k, s\<lparr>cn_handles := AList.delete k (cn_handles s)\<rparr>))"

text \<open>
  \<open>closeAllHandles\<close> visits a Go map in an order the runtime picks: \<open>order\<close> lists the keys in
  that order. A close error is logged only.
\<close>

fun close_entries :: "'w openFile list \<Rightarrow> 'w \<Rightarrow> 'w" where
  "close_entries [] w = w"
| "close_entries (f # fs) w =
    close_entries fs
      (case of_handle f of Some h \<Rightarrow> snd (f_Close (sh_fs (of_share f)) h w) | None \<Rightarrow> w)"

definition closeAllHandles :: "bytes list \<Rightarrow> 'w conn \<Rightarrow> 'w conn" where
  "closeAllHandles order s =
    (let handles = cn_handles s;
         s = s\<lparr>cn_handles := []\<rparr>
     in s\<lparr>cn_world := close_entries (List.map_filter (map_of handles) order) (cn_world s)\<rparr>)"

text \<open>The steps at the end of \<open>handleCreate\<close>: name the open and put it in the table.\<close>

definition openHandle :: "'w openFile \<Rightarrow> 'w conn \<Rightarrow> 'w openFile \<times> 'w conn" where
  "openHandle f s =
    (let (fid, s) = newFileID s; f = f\<lparr>of_fileID := fid\<rparr> in (f, addHandle f s))"

subsection \<open>The invariant of the table\<close>

definition file_id :: "u64 \<Rightarrow> bytes" where
  "file_id i = le64 i @ le64 i"

definition handles_ok :: "'w conn \<Rightarrow> bool" where
  "handles_ok s \<longleftrightarrow>
    distinct (map fst (cn_handles s)) \<and> length (cn_handles s) \<le> maxOpenFiles \<and>
    (\<forall>(k, f) \<in> set (cn_handles s).
       k = of_fileID f \<and> (\<exists>i. 0 < i \<and> i \<le> cn_handleCtr s \<and> k = file_id i))"

lemma newFileID_value: "newFileID s = (file_id (cn_handleCtr s + 1), s\<lparr>cn_handleCtr := cn_handleCtr s + 1\<rparr>)"
proof -
  have "put64 (put64 (mk 16) 0 i) 8 i = file_id i" for i
    by (simp add: file_id_def copy_at_def)
  then show ?thesis by (simp add: newFileID_def Let_def)
qed

lemma length_file_id [simp]: "length (file_id i) = 16"
  by (simp add: file_id_def)

lemma file_id_inject [simp]: "file_id i = file_id j \<longleftrightarrow> i = j"
  by (simp add: file_id_def)

lemma fileIDKey_id [simp]: "length b = 16 \<Longrightarrow> fileIDKey b = b"
  by (simp add: fileIDKey_def copy_at_full)

lemma length_fileIDKey [simp]: "length (fileIDKey b) = 16"
  by (simp add: fileIDKey_def)


subsection \<open>The contract of a handle table\<close>

text \<open>
  \<open>opn\<close> names and stores a value, \<open>get\<close> looks a key up, \<open>cls\<close> removes it, \<open>upd\<close> changes the
  value stored under a key; \<open>same\<close> relates states with the same table; \<open>issued k s\<close> says that \<open>k\<close> was handed out before \<open>s\<close>.
\<close>

locale handle_table =
  fixes ok :: "'s \<Rightarrow> bool" and full :: "'s \<Rightarrow> bool"
    and opn :: "'v \<Rightarrow> 's \<Rightarrow> 'k \<times> 's" and get :: "'k \<Rightarrow> 's \<Rightarrow> 'v option"
    and cls :: "'k \<Rightarrow> 's \<Rightarrow> 's" and stamp :: "'k \<Rightarrow> 'v \<Rightarrow> 'v"
    and upd :: "'k \<Rightarrow> 'v \<Rightarrow> 's \<Rightarrow> 's"
    and same :: "'s \<Rightarrow> 's \<Rightarrow> bool"
    and issued :: "'k \<Rightarrow> 's \<Rightarrow> bool"
  assumes get_issued: "ok s \<Longrightarrow> get k s = Some v \<Longrightarrow> issued k s"
    and opn_fresh: "ok s \<Longrightarrow> \<not> full s \<Longrightarrow> opn v s = (k, s') \<Longrightarrow> \<not> issued k s"
    and opn_ok: "ok s \<Longrightarrow> \<not> full s \<Longrightarrow> opn v s = (k, s') \<Longrightarrow> ok s'"
    and opn_get: "ok s \<Longrightarrow> \<not> full s \<Longrightarrow> opn v s = (k, s') \<Longrightarrow>
      get k' s' = (if k' = k then Some (stamp k v) else get k' s)"
    and opn_issued: "ok s \<Longrightarrow> \<not> full s \<Longrightarrow> opn v s = (k, s') \<Longrightarrow>
      issued k' s' \<longleftrightarrow> k' = k \<or> issued k' s"
    and cls_ok: "ok s \<Longrightarrow> ok (cls k s)"
    and cls_get: "ok s \<Longrightarrow> get k' (cls k s) = (if k' = k then None else get k' s)"
    and cls_issued: "ok s \<Longrightarrow> issued k' (cls k s) \<longleftrightarrow> issued k' s"
    and upd_ok: "ok s \<Longrightarrow> get k s = Some v \<Longrightarrow> ok (upd k w s)"
    and upd_get: "ok s \<Longrightarrow> get k s = Some v \<Longrightarrow>
      get k' (upd k w s) = (if k' = k then Some (stamp k w) else get k' s)"
    and upd_issued: "ok s \<Longrightarrow> get k s = Some v \<Longrightarrow> issued k' (upd k w s) \<longleftrightarrow> issued k' s"
    and same_ok: "same s s' \<Longrightarrow> ok s' \<longleftrightarrow> ok s"
    and same_get: "same s s' \<Longrightarrow> get k s' = get k s"
    and same_issued: "same s s' \<Longrightarrow> issued k s' \<longleftrightarrow> issued k s"
begin

inductive tstep :: "'s \<Rightarrow> 's \<Rightarrow> bool" where
  Open: "\<not> full s \<Longrightarrow> opn v s = (k, s') \<Longrightarrow> tstep s s'"
| Close: "tstep s (cls k s)"
| Update: "get k s = Some v \<Longrightarrow> tstep s (upd k w s)"
| Frame: "same s s' \<Longrightarrow> tstep s s'"

definition dead :: "'k \<Rightarrow> 's \<Rightarrow> bool" where
  "dead k s \<longleftrightarrow> issued k s \<and> get k s = None"

lemma tstep_ok: "tstep s s' \<Longrightarrow> ok s \<Longrightarrow> ok s'"
  by (induction rule: tstep.induct) (auto intro: opn_ok cls_ok upd_ok simp: same_ok)

lemma tsteps_ok: "tstep\<^sup>*\<^sup>* s s' \<Longrightarrow> ok s \<Longrightarrow> ok s'"
  by (induction rule: rtranclp_induct) (auto intro: tstep_ok)

lemma tstep_dead: "tstep s s' \<Longrightarrow> ok s \<Longrightarrow> dead k s \<Longrightarrow> dead k s'"
proof (induction rule: tstep.induct)
  case (Open s v k' s')
  then have "\<not> issued k' s" by (blast dest: opn_fresh)
  with Open show ?case by (auto simp: dead_def opn_get opn_issued)
qed (auto simp: dead_def cls_get cls_issued upd_get upd_issued same_get same_issued)

lemma dead_forever:
  assumes "tstep\<^sup>*\<^sup>* s s'" and "ok s" and "dead k s"
  shows "ok s' \<and> dead k s'"
  using assms by (induction rule: rtranclp_induct) (auto intro: tstep_ok tstep_dead)

lemma closed_dead: "ok s \<Longrightarrow> get k s = Some v \<Longrightarrow> dead k (cls k s)"
  by (auto simp: dead_def cls_get cls_issued dest: get_issued)

lemma no_reuse:
  assumes "ok s" and "dead k s" and "\<not> full s" and "opn v s = (k', s')"
  shows "k' \<noteq> k"
  using assms opn_fresh by (auto simp: dead_def)

end

text \<open>The model's table: a key is the FileId, \<open>full\<close> that CREATE refuses or the counter would wrap.\<close>

definition table_full :: "'w conn \<Rightarrow> bool" where
  "table_full s \<longleftrightarrow> maxOpenFiles \<le> length (cn_handles s) \<or> cn_handleCtr s = - 1"

definition fid_issued :: "bytes \<Rightarrow> 'w conn \<Rightarrow> bool" where
  "fid_issued k s \<longleftrightarrow> (\<exists>i. 0 < i \<and> i \<le> cn_handleCtr s \<and> k = file_id i)"

definition stampHandle :: "bytes \<Rightarrow> 'w openFile \<Rightarrow> 'w openFile" where
  "stampHandle k f = f\<lparr>of_fileID := k\<rparr>"

definition opn_handle :: "'w openFile \<Rightarrow> 'w conn \<Rightarrow> bytes \<times> 'w conn" where
  "opn_handle f s = (let (f, s) = openHandle f s in (of_fileID f, s))"

definition upd_handle :: "bytes \<Rightarrow> 'w openFile \<Rightarrow> 'w conn \<Rightarrow> 'w conn" where
  "upd_handle k f s = addHandle (stampHandle k f) s"

definition get_key :: "bytes \<Rightarrow> 'w conn \<Rightarrow> 'w openFile option" where
  "get_key k s = map_of (cn_handles s) k"

definition cls_key :: "bytes \<Rightarrow> 'w conn \<Rightarrow> 'w conn" where
  "cls_key k s = s\<lparr>cn_handles := AList.delete k (cn_handles s)\<rparr>"

lemma openHandle_value:
  "openHandle f s =
    (stampHandle (file_id (cn_handleCtr s + 1)) f,
     addHandle (stampHandle (file_id (cn_handleCtr s + 1)) f) (s\<lparr>cn_handleCtr := cn_handleCtr s + 1\<rparr>))"
  by (simp add: openHandle_def newFileID_value stampHandle_def Let_def)

lemma stampHandle_simps [simp]:
  "of_fileID (stampHandle k f) = k" "of_share (stampHandle k f) = of_share f"
  "of_path (stampHandle k f) = of_path f" "of_handle (stampHandle k f) = of_handle f"
  "of_isDir (stampHandle k f) = of_isDir f" "of_deleteOnClose (stampHandle k f) = of_deleteOnClose f"
  "stampHandle k (stampHandle k f) = stampHandle k f"
  by (simp_all add: stampHandle_def)

lemma stampHandle_id: "of_fileID f = k \<Longrightarrow> stampHandle k f = f"
  by (cases f) (simp add: stampHandle_def)

lemma length_update_key:
  "map_of xs k \<noteq> None \<Longrightarrow> length (AList.update k v xs) = length xs"
  by (induction xs) auto

lemma length_update_le: "length (AList.update k v xs) \<le> Suc (length xs)"
  by (induction xs) auto

lemma set_update: "set (AList.update k v xs) \<subseteq> insert (k, v) (set xs)"
  by (induction xs) auto

lemma word_plus_one:
  assumes "(c :: 'a::len word) \<noteq> - 1"
  shows "i \<le> c + 1 \<longleftrightarrow> i \<le> c \<or> i = c + 1" and "c < c + 1"
proof -
  have "unat (c + 1) = Suc (unat c)"
    using assms unatSuc [of c] by (simp add: eq_neg_iff_add_eq_0 add.commute)
  then show "i \<le> c + 1 \<longleftrightarrow> i \<le> c \<or> i = c + 1" "c < c + 1"
    by (auto simp: word_le_nat_alt word_less_nat_alt word_unat_eq_iff)
qed

lemma handles_ok_get:
  "handles_ok s \<Longrightarrow> get_key k s = Some f \<Longrightarrow> of_fileID f = k \<and> fid_issued k s"
  by (auto simp: handles_ok_def get_key_def fid_issued_def dest!: map_of_SomeD)

lemma handles_ok_add:
  assumes "handles_ok s" and "fid_issued (of_fileID f) s"
    and "get_key (of_fileID f) s \<noteq> None \<or> length (cn_handles s) < maxOpenFiles"
  shows "handles_ok (addHandle f s)"
proof -
  have "length (AList.update (of_fileID f) f (cn_handles s)) \<le> maxOpenFiles"
    using assms(3)
  proof
    assume "get_key (of_fileID f) s \<noteq> None"
    then show ?thesis
      using assms(1) length_update_key [of "cn_handles s" "of_fileID f" f]
      by (simp add: handles_ok_def get_key_def)
  qed (use length_update_le [of "of_fileID f" f "cn_handles s"] in simp)
  moreover have "distinct (map fst (AList.update (of_fileID f) f (cn_handles s)))"
    using assms(1) by (simp add: handles_ok_def distinct_update)
  moreover have "k = of_fileID g \<and> (\<exists>i. 0 < i \<and> i \<le> cn_handleCtr s \<and> k = file_id i)"
    if "(k, g) \<in> set (AList.update (of_fileID f) f (cn_handles s))" for k g
  proof -
    have "(k, g) = (of_fileID f, f) \<or> (k, g) \<in> set (cn_handles s)"
      using that set_update [of "of_fileID f" f "cn_handles s"] by blast
    then show ?thesis using assms(1,2) unfolding handles_ok_def fid_issued_def by blast
  qed
  ultimately show ?thesis
    by (auto simp: handles_ok_def addHandle_def)
qed

lemma fid_issued_ctr:
  "cn_handleCtr s \<noteq> - 1 \<Longrightarrow>
   fid_issued k (s\<lparr>cn_handleCtr := cn_handleCtr s + 1\<rparr>) \<longleftrightarrow>
   k = file_id (cn_handleCtr s + 1) \<or> fid_issued k s"
  using word_plus_one [of "cn_handleCtr s"] by (auto simp: fid_issued_def word_neq_0_conv [symmetric])

lemma fid_issued_addHandle [simp]: "fid_issued k (addHandle f s) = fid_issued k s"
  by (simp add: fid_issued_def addHandle_def)

lemma not_issued_next: "cn_handleCtr s \<noteq> - 1 \<Longrightarrow> \<not> fid_issued (file_id (cn_handleCtr s + 1)) s"
  using word_plus_one(2) [of "cn_handleCtr s"] by (auto simp: fid_issued_def)

lemma get_key_addHandle: "get_key k (addHandle f s) = (if k = of_fileID f then Some f else get_key k s)"
  by (simp add: get_key_def addHandle_def update_conv')

lemma handles_ok_ctr:
  "handles_ok s \<Longrightarrow> cn_handleCtr s \<noteq> - 1 \<Longrightarrow> handles_ok (s\<lparr>cn_handleCtr := cn_handleCtr s + 1\<rparr>)"
  using word_plus_one [of "cn_handleCtr s"] by (fastforce simp: handles_ok_def)

lemma handles_ok_cls:
  assumes "handles_ok s"
  shows "handles_ok (cls_key k s)"
proof -
  have "set (AList.delete k (cn_handles s)) \<subseteq> set (cn_handles s)"
    by (auto simp: AList.delete_eq)
  then show ?thesis
    using assms length_delete_le [of k "cn_handles s"] distinct_delete [of "cn_handles s" k]
    unfolding handles_ok_def cls_key_def by simp (meson subsetD)
qed

lemma opn_handle_value:
  "opn_handle f s = (k, s') \<Longrightarrow> k = file_id (cn_handleCtr s + 1) \<and>
   s' = addHandle (stampHandle k f) (s\<lparr>cn_handleCtr := cn_handleCtr s + 1\<rparr>)"
  by (auto simp: opn_handle_def openHandle_value)

definition same_table :: "'w conn \<Rightarrow> 'w conn \<Rightarrow> bool" where
  "same_table s s' \<longleftrightarrow> cn_handles s' = cn_handles s \<and> cn_handleCtr s' = cn_handleCtr s"

interpretation ht: handle_table
  handles_ok table_full opn_handle get_key cls_key stampHandle upd_handle same_table fid_issued
proof (unfold_locales, goal_cases)
  case (1 s k v)
  then show ?case by (blast dest: handles_ok_get)
next
  case (2 s v k s')
  then show ?case by (auto dest!: opn_handle_value simp: not_issued_next table_full_def)
next
  case (3 s v k s')
  then show ?case
    by (auto dest!: opn_handle_value intro!: handles_ok_add handles_ok_ctr
        simp: table_full_def fid_issued_ctr)
next
  case (4 s v k s' k')
  then show ?case by (auto dest!: opn_handle_value simp: get_key_addHandle) (simp add: get_key_def)
next
  case (5 s v k s' k')
  then show ?case by (auto dest!: opn_handle_value simp: table_full_def fid_issued_ctr)
next
  case (9 s k v w)
  then show ?case
    by (auto simp: upd_handle_def dest: handles_ok_get intro!: handles_ok_add)
next
  case (6 s k)
  then show ?case by (rule handles_ok_cls)
qed (auto simp: same_table_def handles_ok_def cls_key_def get_key_def delete_conv' fid_issued_def
    upd_handle_def addHandle_def update_conv')


text \<open>The handlers' table operations are steps of the contract.\<close>

lemmas tstep_rtrancl = r_into_rtranclp [of ht.tstep]

lemma tsteps_frame: "same_table s s' \<Longrightarrow> ht.tstep\<^sup>*\<^sup>* s s'"
  by (rule tstep_rtrancl) (rule ht.Frame)

lemma tsteps_update:
  assumes "handles_ok s" and "getHandle fid s = Some f" and "same_table s s1"
    and "of_fileID f' = of_fileID f"
  shows "ht.tstep\<^sup>*\<^sup>* s (addHandle f' s1)"
proof -
  let ?k = "fileIDKey fid"
  have g: "get_key ?k s1 = Some f"
    using assms(2,3) by (simp add: getHandle_def get_key_def same_table_def)
  moreover have "of_fileID f = ?k"
    using handles_ok_get [OF assms(1), of ?k f] assms(2) by (simp add: getHandle_def get_key_def)
  ultimately have "upd_handle ?k f' s1 = addHandle f' s1"
    using assms(4) by (simp add: upd_handle_def stampHandle_id)
  with ht.Update [OF g, of f'] have "ht.tstep s1 (addHandle f' s1)" by simp
  with assms(3) show ?thesis by (meson ht.Frame r_into_rtranclp rtranclp.rtrancl_into_rtrancl)
qed

lemma tsteps_open:
  assumes "\<not> table_full s1" and "same_table s s1" and "openHandle f s1 = (f', s2)" and "same_table s2 s3"
  shows "ht.tstep\<^sup>*\<^sup>* s s3"
proof -
  have "opn_handle f s1 = (of_fileID f', s2)" using assms(3) by (simp add: opn_handle_def)
  with assms(1) have "ht.tstep s1 s2" by (rule ht.Open)
  with assms(2,4) show ?thesis
    by (meson ht.Frame r_into_rtranclp rtranclp.rtrancl_into_rtrancl)
qed

lemma tsteps_remove:
  assumes "removeHandle fid s = (r, s1)" and "same_table s1 s2"
  shows "ht.tstep\<^sup>*\<^sup>* s s2"
proof -
  have "s1 = cls_key (fileIDKey fid) s" using assms(1) by (auto simp: removeHandle_def cls_key_def Let_def)
  then have "ht.tstep s s1" using ht.Close by blast
  with assms(2) show ?thesis
    by (meson ht.Frame r_into_rtranclp rtranclp.rtrancl_into_rtrancl)
qed

section \<open>Effects of a command\<close>

text \<open>
  \<open>world_step I s s'\<close>: only the world changed, and a property \<open>I\<close> of it was kept.
  \<open>share_keeps I sh\<close>: the backend of \<open>sh\<close> keeps \<open>I\<close> in every operation, or, when the share is
  read-only, at least in those that only look. \<open>shares_from\<close>: the trees and opens of the
  connection are on the server's shares, and none on a read-only share is delete-on-close.
\<close>

definition world_step :: "('w \<Rightarrow> bool) \<Rightarrow> 'w conn \<Rightarrow> 'w conn \<Rightarrow> bool" where
  "world_step I s s' \<longleftrightarrow> (\<exists>w. s' = s\<lparr>cn_world := w\<rparr> \<and> (I (cn_world s) \<longrightarrow> I w))"

definition share_keeps :: "('w \<Rightarrow> bool) \<Rightarrow> 'w share \<Rightarrow> bool" where
  "share_keeps I sh \<longleftrightarrow>
    query_backend (sh_fs sh) I \<and> (\<not> sh_readOnly sh \<longrightarrow> any_backend (sh_fs sh) I)"

definition shares_from :: "'w server \<Rightarrow> 'w conn \<Rightarrow> bool" where
  "shares_from S s \<longleftrightarrow>
    (\<forall>t sh. cn_diskTrees s t = Some sh \<longrightarrow> sh \<in> set (sv_shares S)) \<and>
    (\<forall>(k, f) \<in> set (cn_handles s). of_share f \<in> set (sv_shares S) \<and>
       (sh_readOnly (of_share f) \<longrightarrow> \<not> of_deleteOnClose f))"

definition server_keeps :: "('w \<Rightarrow> bool) \<Rightarrow> 'w server \<Rightarrow> bool" where
  "server_keeps I S \<longleftrightarrow>
    (\<forall>sh \<in> set (sv_shares S). share_keeps I sh) \<and>
    (\<forall>w. I w \<longrightarrow> I (snd (sv_now S w))) \<and> (\<forall>n w. I w \<longrightarrow> I (snd (sv_rand S n w)))"

lemma world_step_refl [simp, intro]: "world_step I s s"
  unfolding world_step_def by (rule exI [of _ "cn_world s"]) simp

lemma world_step_trans [trans]: "world_step I s s1 \<Longrightarrow> world_step I s1 s2 \<Longrightarrow> world_step I s s2"
  unfolding world_step_def by (elim exE conjE) (rename_tac w w', rule_tac x = w' in exI, simp)

lemma world_step_call: "(\<And>w. I w \<Longrightarrow> I (snd (f w))) \<Longrightarrow> world_step I s (snd (call f s))"
  by (auto simp: world_step_def call_def split_beta)

lemma world_step_call_eq:
  "call f s = (r, s') \<Longrightarrow> (\<And>w. I w \<Longrightarrow> I (snd (f w))) \<Longrightarrow> world_step I s s'"
  using world_step_call [of I f s] by simp

lemma world_step_same_table: "world_step I s s' \<Longrightarrow> same_table s s'"
  by (auto simp: world_step_def same_table_def)

lemma share_keeps_query: "share_keeps I sh \<Longrightarrow> query_backend (sh_fs sh) I"
  by (simp add: share_keeps_def)

lemma share_keeps_any: "share_keeps I sh \<Longrightarrow> \<not> sh_readOnly sh \<Longrightarrow> any_backend (sh_fs sh) I"
  by (simp add: share_keeps_def)

lemma share_keeps_True [simp]: "share_keeps (\<lambda>_. True) sh"
  by (simp add: share_keeps_def query_backend_def any_backend_def any_backend_axioms_def)

lemma server_keeps_True [simp]: "server_keeps (\<lambda>_. True) S"
  by (simp add: server_keeps_def)

text \<open>
  What every command other than the four that change the session, dialect or trees does to a
  connection, given the promise \<open>server_keeps I\<close>.
\<close>

definition effect :: "'w server \<Rightarrow> ('w \<Rightarrow> bool) \<Rightarrow> 'w conn \<Rightarrow> 'w conn \<Rightarrow> bool" where
  "effect S I s s' \<longleftrightarrow>
    (I (cn_world s) \<longrightarrow> I (cn_world s')) \<and>
    shares_from S s' \<and>
    (handles_ok s \<longrightarrow> cn_handleCtr s \<noteq> - 1 \<longrightarrow> ht.tstep\<^sup>*\<^sup>* s s') \<and>
    cn_dialect s' = cn_dialect s \<and> cn_authChallenge s' = cn_authChallenge s \<and>
    cn_signKey s' = cn_signKey s \<and> cn_authedSessions s' = cn_authedSessions s \<and>
    cn_pipeTrees s' = cn_pipeTrees s \<and> cn_diskTrees s' = cn_diskTrees s \<and>
    cn_handleCtr s' \<in> {cn_handleCtr s, cn_handleCtr s + 1}"

lemma effect_world: "shares_from S s \<Longrightarrow> world_step I s s' \<Longrightarrow> effect S I s s'"
  unfolding effect_def
  by (intro conjI impI tsteps_frame) (auto simp: world_step_def shares_from_def same_table_def)

lemma effect_refl: "shares_from S s \<Longrightarrow> effect S I s s"
  by (simp add: effect_world)

lemma shares_from_get:
  "shares_from S s \<Longrightarrow> getHandle fid s = Some f \<Longrightarrow>
   of_share f \<in> set (sv_shares S) \<and> (sh_readOnly (of_share f) \<longrightarrow> \<not> of_deleteOnClose f)"
  by (auto simp: shares_from_def getHandle_def dest!: map_of_SomeD)

lemma shares_from_add:
  "shares_from S s \<Longrightarrow> of_share f \<in> set (sv_shares S) \<Longrightarrow>
   (sh_readOnly (of_share f) \<Longrightarrow> \<not> of_deleteOnClose f) \<Longrightarrow> shares_from S (addHandle f s)"
  using set_update [of "of_fileID f" f "cn_handles s"]
  by (fastforce simp: shares_from_def addHandle_def)

lemma shares_from_world: "shares_from S s \<Longrightarrow> world_step I s s' \<Longrightarrow> shares_from S s'"
  by (auto simp: world_step_def shares_from_def)

lemma effect_update:
  assumes "shares_from S s" and "getHandle fid s = Some f" and "world_step I s s1"
    and "of_fileID f' = of_fileID f" and "of_share f' = of_share f"
    and "sh_readOnly (of_share f) \<Longrightarrow> of_deleteOnClose f' = of_deleteOnClose f"
  shows "effect S I s (addHandle f' s1)"
proof -
  have "shares_from S (addHandle f' s1)"
    using assms shares_from_get [OF assms(1,2)]
    by (intro shares_from_add shares_from_world [OF assms(1,3)]) simp_all
  moreover have "handles_ok s \<Longrightarrow> ht.tstep\<^sup>*\<^sup>* s (addHandle f' s1)"
    by (rule tsteps_update [OF _ assms(2) world_step_same_table [OF assms(3)] assms(4)])
  ultimately show ?thesis
    using assms(3) by (auto simp: effect_def world_step_def addHandle_def)
qed

section \<open>A server to try the theorems on\<close>

text \<open>
  Constant primitives, the identity beyond ASCII, a clock that stands still and a random source
  that returns sevens: enough to evaluate the model on concrete requests.
\<close>

definition demo_crypto :: crypto where
  "demo_crypto = \<lparr>c_md5 = (\<lambda>m. of_nat (length m)), c_hmac_md5 = (\<lambda>k m. of_nat (length k + length m)),
    c_hmac_sha256 = (\<lambda>k m. of_nat (length m)), c_aes = (\<lambda>k b. b + 1), c_rc4 = (\<lambda>k n. 0)\<rparr>"

definition demo_unicode :: unicode where
  "demo_unicode = \<lparr>u_fold = id, u_lower = id, u_upper = id\<rparr>"

definition demo_server :: "gostring \<Rightarrow> 'w share list \<Rightarrow> 'w server" where
  "demo_server user shares =
    \<lparr>opt_User = user, opt_Pass = ascii ''pw'', sv_shares = shares, sv_serverGUID = replicate 16 0xAB,
     sv_GOOS = Linux, sv_U = demo_unicode, sv_C = demo_crypto, sv_now = (\<lambda>w. (ZeroTime, w)),
     sv_rand = (\<lambda>n w. (replicate n 7, w))\<rparr>"

lemma demo_server_simps [simp]:
  "opt_User (demo_server u shs) = u" "opt_Pass (demo_server u shs) = ascii ''pw''"
  "sv_shares (demo_server u shs) = shs" "sv_serverGUID (demo_server u shs) = replicate 16 0xAB"
  "sv_GOOS (demo_server u shs) = Linux" "sv_U (demo_server u shs) = demo_unicode"
  "sv_C (demo_server u shs) = demo_crypto" "sv_now (demo_server u shs) = (\<lambda>w. (ZeroTime, w))"
  "sv_rand (demo_server u shs) = (\<lambda>n w. (replicate n 7, w))"
  by (simp_all add: demo_server_def)

end
