(* ===== verification/Spnego.thy ===== *)
theory Spnego
  imports Crypto
begin

text \<open>
  \<open>internal/smb/spnego.go\<close>: the DER reader and writer, the extraction of the NTLMSSP token
  from a SPNEGO token, and the server's CHALLENGE message. The lemmas show that the reader
  inverts the writer, that a token wrapped as a client or as the server wraps it is extracted
  again, and what a reader finds in the CHALLENGE.
\<close>

section \<open>DER\<close>

definition derLen :: "nat \<Rightarrow> bytes" where
  "derLen n =
    (if n < 0x80 then [of_nat n]
     else if n < 0x100 then [0x81, of_nat n]
     else [0x82, of_nat (n div 256), of_nat n])"

definition derTLV :: "byte \<Rightarrow> bytes \<Rightarrow> bytes" where
  "derTLV tag content = tag # derLen (length content) @ content"

text \<open>
  The result is the tag, the contents and the rest; at most four length bytes, so the length
  fits Go's 64-bit \<open>int\<close> and is never negative.
\<close>

definition derReadTLV :: "bytes \<Rightarrow> (byte \<times> bytes \<times> bytes) option" where
  "derReadTLV b =
    (if length b < 2 then None
     else
       let tag = b ! 0;
           n0 = unat (b ! 1)
       in if b ! 1 AND 0x80 \<noteq> 0 then
            let nbytes = unat (b ! 1 AND 0x7F)
            in if nbytes = 0 \<or> nbytes > 4 \<or> length b < 2 + nbytes then None
               else
                 let n = be_nat (slice b 2 (2 + nbytes));
                     i = 2 + nbytes
                 in if length b < i + n then None
                    else Some (tag, slice b i (i + n), drop (i + n) b)
          else if length b < 2 + n0 then None
          else Some (tag, slice b 2 (2 + n0), drop (2 + n0) b))"

lemma derReadTLV_rest:
  "derReadTLV b = Some (t, c, r) \<Longrightarrow> length r < length b"
  by (auto simp: derReadTLV_def Let_def split: if_splits)

lemma byte_high_bit: "(of_nat n :: byte) AND 0x80 = 0" if "n < 0x80"
proof (rule bit_word_eqI)
  fix i assume "i < LENGTH(8)"
  have "\<not> bit n 7" using that by (simp add: bit_iff_odd)
  moreover have "bit (0x80 :: byte) i \<longleftrightarrow> i = 7"
  proof -
    have "(0x80 :: byte) = push_bit 7 1" by simp
    then show ?thesis using \<open>i < LENGTH(8)\<close> by (auto simp only: bit_push_bit_iff bit_1_iff) (auto simp: bit_simps)
  qed
  ultimately show "bit ((of_nat n :: byte) AND 0x80) i = bit 0 i"
    by (auto simp: bit_and_iff bit_of_nat_iff)
qed

lemma unat_of_nat_byte: "unat (of_nat n :: byte) = n mod 256"
  by (simp add: unat_of_nat take_bit_eq_mod)

lemma derReadTLV_derTLV:
  assumes "length c < 65536"
  shows "derReadTLV (derTLV t c @ r) = Some (t, c, r)"
proof -
  consider "length c < 0x80" | "0x80 \<le> length c" "length c < 0x100" | "0x100 \<le> length c"
    by linarith
  then show ?thesis
  proof cases
    case 1
    then show ?thesis
      by (simp add: derReadTLV_def derTLV_def derLen_def byte_high_bit unat_of_nat_byte slice_def)
  next
    case 2
    then show ?thesis
      by (simp add: derReadTLV_def derTLV_def derLen_def unat_of_nat_byte slice_def be_nat_Cons
          Let_def drop_Cons')
  next
    case 3
    have "length c div 256 mod 256 = length c div 256" using assms by simp
    moreover have "256 * (length c div 256) + length c mod 256 = length c" by simp
    ultimately show ?thesis using 3
      by (simp add: derReadTLV_def derTLV_def derLen_def unat_of_nat_byte slice_def be_nat_Cons
          Let_def drop_Cons')
  qed
qed

lemmas derReadTLV_derTLV_end = derReadTLV_derTLV [where r = "[]", simplified]

lemma length_derTLV: "length (derTLV t c) \<le> 4 + length c"
  by (simp add: derTLV_def derLen_def)

section \<open>SPNEGO\<close>

definition oidNLMP :: bytes where
  "oidNLMP = [0x06, 0x0A, 0x2B, 0x06, 0x01, 0x04, 0x01, 0x82, 0x37, 0x02, 0x02, 0x0A]"

abbreviation negStateAcceptCompleted :: byte where "negStateAcceptCompleted \<equiv> 0"
abbreviation negStateAcceptIncomplete :: byte where "negStateAcceptIncomplete \<equiv> 1"
abbreviation ntlmTypeNegotiate :: u32 where "ntlmTypeNegotiate \<equiv> 1"
abbreviation ntlmDefaultFlags :: u32 where "ntlmDefaultFlags \<equiv> 0xE2898215"
abbreviation ntlmNegotiateTargetTypeServer :: u32 where "ntlmNegotiateTargetTypeServer \<equiv> 0x00020000"

text \<open>The loop of \<open>spnegoExtractNTLM\<close> over the SEQUENCE, looking for \<open>[2]\<close>.\<close>

function spnego_walk :: "bytes \<Rightarrow> bytes option" where
  "spnego_walk seq =
    (if seq = [] then None
     else
       (case derReadTLV seq of
          None \<Rightarrow> None
        | Some (t, c, next) \<Rightarrow>
            if t = 0xA2 then
              (case derReadTLV c of
                 None \<Rightarrow> None
               | Some (t2, c2, _) \<Rightarrow> if t2 \<noteq> 0x04 then None else Some c2)
            else spnego_walk next))"
  by pat_completeness auto
termination by (relation "measure length") (auto dest: derReadTLV_rest)

declare spnego_walk.simps [simp del]

definition spnegoExtractNTLM :: "bytes \<Rightarrow> bytes option" where
  "spnegoExtractNTLM buf =
    (case derReadTLV buf of
       None \<Rightarrow> None
     | Some (tag, content, _) \<Rightarrow>
         if tag = 0x60 then
           (case derReadTLV content of
              None \<Rightarrow> None
            | Some (_, _, afterOID) \<Rightarrow>
                (case derReadTLV afterOID of
                   None \<Rightarrow> None
                 | Some (t, c, _) \<Rightarrow>
                     if t \<noteq> 0xA0 then None
                     else
                       (case derReadTLV c of
                          None \<Rightarrow> None
                        | Some (t, c, _) \<Rightarrow> if t \<noteq> 0x30 then None else spnego_walk c)))
         else if tag = 0xA1 then
           (case derReadTLV content of
              None \<Rightarrow> None
            | Some (t, c, _) \<Rightarrow> if t \<noteq> 0x30 then None else spnego_walk c)
         else None)"

definition ntlmMessageType :: "bytes \<Rightarrow> u32" where
  "ntlmMessageType token =
    (if length token < 12 \<or> slice token 0 8 \<noteq> ntlmSignature then 0 else get32 token 8)"

definition buildNegTokenResp :: "byte \<Rightarrow> bool \<Rightarrow> bytes option \<Rightarrow> bytes" where
  "buildNegTokenResp st supportedMech token =
    (let seq = derTLV 0xA0 (derTLV 0x0A [st]);
         seq = seq @ (if supportedMech then derTLV 0xA1 oidNLMP else []);
         seq = seq @ (case token of None \<Rightarrow> [] | Some t \<Rightarrow> derTLV 0xA2 (derTLV 0x04 t))
     in derTLV 0xA1 (derTLV 0x30 seq))"

lemma spnego_walk_skip:
  "t \<noteq> 0xA2 \<Longrightarrow> length c < 65536 \<Longrightarrow> spnego_walk (derTLV t c @ r) = spnego_walk r"
  by (subst spnego_walk.simps) (simp add: derReadTLV_derTLV, simp add: derTLV_def)

lemma spnego_walk_token:
  "length c < 65532 \<Longrightarrow> spnego_walk (derTLV 0xA2 (derTLV 0x04 c) @ r) = Some c"
  using length_derTLV [of 4 c]
  by (subst spnego_walk.simps)
    (simp add: derReadTLV_derTLV derReadTLV_derTLV_end, simp add: derTLV_def)

lemma spnego_walk_Nil [simp]: "spnego_walk [] = None"
  by (subst spnego_walk.simps) simp

text \<open>The token a client sends first: a GSS-API NegTokenInit with its mechanism list.\<close>

definition negTokenInit :: "bytes \<Rightarrow> bytes \<Rightarrow> bytes \<Rightarrow> bytes" where
  "negTokenInit oid mechs token =
    derTLV 0x60 (derTLV 0x06 oid @
      derTLV 0xA0 (derTLV 0x30 (derTLV 0xA0 mechs @ derTLV 0xA2 (derTLV 0x04 token))))"

lemma extract_negTokenInit:
  assumes "length oid + length mechs + length token < 65000"
  shows "spnegoExtractNTLM (negTokenInit oid mechs token @ r) = Some token"
proof -
  let ?seq = "derTLV 0xA0 mechs @ derTLV 0xA2 (derTLV 0x04 token)"
  have l: "length (derTLV 0xA0 mechs) \<le> 4 + length mechs" "length (derTLV 0x04 token) \<le> 4 + length token"
    "length (derTLV 0xA2 (derTLV 0x04 token)) \<le> 4 + length (derTLV 0x04 token)"
    "length (derTLV 0x06 oid) \<le> 4 + length oid"
    "length (derTLV 0x30 ?seq) \<le> 4 + length ?seq"
    "length (derTLV 0xA0 (derTLV 0x30 ?seq)) \<le> 4 + length (derTLV 0x30 ?seq)"
    by (rule length_derTLV)+
  have w: "spnego_walk ?seq = Some token"
    using assms spnego_walk_token [of token "[]"] by (simp add: spnego_walk_skip)
  show ?thesis
    using assms l by (simp add: spnegoExtractNTLM_def negTokenInit_def derReadTLV_derTLV derReadTLV_derTLV_end w)
qed

lemma extract_buildNegTokenResp:
  assumes "length token < 65000"
  shows "spnegoExtractNTLM (buildNegTokenResp st mech (Some token) @ r) = Some token"
    and "spnegoExtractNTLM (buildNegTokenResp st mech None @ r) = None"
proof -
  let ?s = "derTLV 0xA0 (derTLV 0x0A [st])"
  let ?m = "if mech then derTLV 0xA1 oidNLMP else []"
  let ?t = "derTLV 0xA2 (derTLV 0x04 token)"
  have l: "length (derTLV 0x04 token) \<le> 4 + length token" "length ?t \<le> 4 + length (derTLV 0x04 token)"
    "length (derTLV 0x30 (?s @ ?m @ ?t)) \<le> 4 + length (?s @ ?m @ ?t)"
    by (rule length_derTLV)+
  have s: "length ?s = 5" "length ?m \<le> 14" "length (derTLV 0x0A [st]) = 3" "length oidNLMP = 12"
    by (simp_all add: derTLV_def derLen_def oidNLMP_def)
  have w: "spnego_walk (?s @ ?m @ ?t) = Some token" "spnego_walk (?s @ ?m) = None"
    using assms s spnego_walk_token [of token "[]"] spnego_walk_skip [of "0xA1" oidNLMP "[]"]
    by (simp_all add: spnego_walk_skip)
  have l2: "length (derTLV 0x30 (?s @ ?m)) \<le> 4 + length (?s @ ?m)"
    by (rule length_derTLV)
  show "spnegoExtractNTLM (buildNegTokenResp st mech (Some token) @ r) = Some token"
  proof -
    have "length (?s @ ?m @ ?t) < 65536" "length (derTLV 0x30 (?s @ ?m @ ?t)) < 65536"
      using assms l s by auto
    then show ?thesis unfolding buildNegTokenResp_def Let_def append_assoc
      by (simp only: spnegoExtractNTLM_def derReadTLV_derTLV derReadTLV_derTLV_end w option.case
          prod.case) simp
  qed
  show "spnegoExtractNTLM (buildNegTokenResp st mech None @ r) = None"
  proof -
    have "length (?s @ ?m) < 65536" "length (derTLV 0x30 (?s @ ?m)) < 65536"
      using l2 s by auto
    then show ?thesis unfolding buildNegTokenResp_def Let_def append_assoc
      by (simp only: spnegoExtractNTLM_def derReadTLV_derTLV derReadTLV_derTLV_end w option.case
          prod.case append_Nil2) simp
  qed
qed


section \<open>The CHALLENGE message\<close>

definition avPair :: "u16 \<Rightarrow> bytes \<Rightarrow> bytes" where
  "avPair avId val =
    (let b = mk (4 + length val);
         b = put16 b 0 avId;
         b = put16 b 2 (of_nat (length val))
     in copy_at b 4 val)"

text \<open>\<open>now\<close> is the reading of the clock, a parameter.\<close>

definition buildNTLMChallenge :: "gotime \<Rightarrow> bytes \<Rightarrow> bytes" where
  "buildNTLMChallenge now serverChallenge =
    (let nbComputer = stringToUTF16le (ascii ''SMBSERVER'');
         nbDomain = stringToUTF16le (ascii ''WORKGROUP'');
         targetName = nbDomain;
         timestamp = put64 (mk 8) 0 (timeToFiletime now);
         targetInfo = avPair 2 nbDomain @ avPair 1 nbComputer @ avPair 4 nbDomain
           @ avPair 3 nbComputer @ avPair 7 timestamp @ avPair 0 [];
         fixedLen = 56;
         targetNameOff = fixedLen;
         targetInfoOff = targetNameOff + length targetName;
         b = mk (fixedLen + length targetName + length targetInfo);
         b = copy_at b 0 ntlmSignature;
         b = put32 b 8 ntlmTypeChallenge;
         b = put16 b 12 (of_nat (length targetName));
         b = put16 b 14 (of_nat (length targetName));
         b = put32 b 16 (of_nat targetNameOff);
         b = put32 b 20 (ntlmDefaultFlags OR ntlmNegotiateTargetTypeServer);
         b = copy_at b 24 serverChallenge;
         b = put16 b 40 (of_nat (length targetInfo));
         b = put16 b 42 (of_nat (length targetInfo));
         b = put32 b 44 (of_nat targetInfoOff);
         b = put8 b 48 10;
         b = put8 b 55 0x0F;
         b = copy_at b targetNameOff targetName
     in copy_at b targetInfoOff targetInfo)"

text \<open>
  How a client reads the target information: identifiers and values up to the pair with
  identifier 0 ([MS-NLMP] 2.2.2.1).
\<close>

function av_parse :: "bytes \<Rightarrow> (u16 \<times> bytes) list option" where
  "av_parse b =
    (if length b < 4 then None
     else if get16 b 0 = 0 then Some []
     else
       let n = unat (get16 b 2)
       in if length b < 4 + n then None
          else map_option ((#) (get16 b 0, slice b 4 (4 + n))) (av_parse (drop (4 + n) b)))"
  by pat_completeness auto
termination by (relation "measure length") auto

declare av_parse.simps [simp del]

lemma length_avPair [simp]: "length (avPair i v) = 4 + length v"
  by (simp add: avPair_def Let_def)

lemma avPair_append:
  assumes "length v < 65536"
  shows "get16 (avPair i v @ r) 0 = i" "get16 (avPair i v @ r) 2 = of_nat (length v)"
    "slice (avPair i v @ r) 4 (4 + length v) = v" "drop (4 + length v) (avPair i v @ r) = r"
proof -
  have "slice (avPair i v) 4 (4 + length v) = v" by (simp add: avPair_def Let_def)
  then show "slice (avPair i v @ r) 4 (4 + length v) = v" by (simp add: slice_def)
  show "drop (4 + length v) (avPair i v @ r) = r" by simp
  show "get16 (avPair i v @ r) 0 = i" "get16 (avPair i v @ r) 2 = of_nat (length v)"
  proof -
    have "get16 (avPair i v) 0 = i" "get16 (avPair i v) 2 = of_nat (length v)"
      unfolding avPair_def Let_def by simp_all
    then show "get16 (avPair i v @ r) 0 = i" "get16 (avPair i v @ r) 2 = of_nat (length v)"
      using c16.field_append [of 0 "avPair i v" r] c16.field_append [of 2 "avPair i v" r]
      by simp_all
  qed
qed

lemma av_parse_avPair:
  assumes "length v < 65536"
  shows "i \<noteq> 0 \<Longrightarrow> av_parse (avPair i v @ r) = map_option ((#) (i, v)) (av_parse r)"
    and "i = 0 \<Longrightarrow> av_parse (avPair i v @ r) = Some []"
proof -
  have n: "unat (of_nat (length v) :: u16) = length v"
    using assms by (simp add: unat_of_nat take_bit_nat_eq_self)
  show "i \<noteq> 0 \<Longrightarrow> av_parse (avPair i v @ r) = map_option ((#) (i, v)) (av_parse r)"
    by (subst av_parse.simps) (simp only: avPair_append [OF assms] Let_def n, simp)
  show "i = 0 \<Longrightarrow> av_parse (avPair i v @ r) = Some []"
    by (subst av_parse.simps) (simp only: avPair_append [OF assms], simp)
qed


definition target_info :: "gotime \<Rightarrow> (u16 \<times> bytes) list" where
  "target_info now =
    (let nbComputer = stringToUTF16le (ascii ''SMBSERVER'');
         nbDomain = stringToUTF16le (ascii ''WORKGROUP'')
     in [(2, nbDomain), (1, nbComputer), (4, nbDomain), (3, nbComputer),
         (7, le64 (timeToFiletime now))])"

lemma length_names:
  "length (stringToUTF16le (ascii ''SMBSERVER'')) = 18"
  "length (stringToUTF16le (ascii ''WORKGROUP'')) = 18"
  by (simp_all add: length_stringToUTF16le_ascii)

lemma buildNTLMChallenge_fields:
  assumes "length ch = 8"
  shows "ntlmMessageType (buildNTLMChallenge now ch) = ntlmTypeChallenge"
    and "slice (buildNTLMChallenge now ch) 24 32 = ch"
    and "get32 (buildNTLMChallenge now ch) 20 = ntlmDefaultFlags OR ntlmNegotiateTargetTypeServer"
    and "ntlm_field (buildNTLMChallenge now ch) 12 = stringToUTF16le (ascii ''WORKGROUP'')"
    and "av_parse (ntlm_field (buildNTLMChallenge now ch) 40) = Some (target_info now)"
proof -
  define d where "d = stringToUTF16le (ascii ''WORKGROUP'')"
  define c where "c = stringToUTF16le (ascii ''SMBSERVER'')"
  have l: "length d = 18" "length c = 18" by (simp_all only: d_def c_def length_names)
  have sig: "length ntlmSignature = 8" by (simp add: ntlmSignature_def)
  define ti where "ti = avPair 2 d @ avPair 1 c @ avPair 4 d @ avPair 3 c
      @ avPair 7 (put64 (mk 8) 0 (timeToFiletime now)) @ avPair 0 []"
  have ts: "put64 (mk 8) 0 v = le64 v" for v
    using copy_at_full [of "le64 v" 8] by simp
  have lti: "length ti = 104" by (simp add: ti_def l)
  have parse: "av_parse ti = Some (target_info now)"
    using av_parse_avPair(2) [of "[]" 0 "[]"]
    unfolding ti_def target_info_def Let_def d_def [symmetric] c_def [symmetric]
    by (simp add: av_parse_avPair(1) l ts)
  have m: "buildNTLMChallenge now ch = (let
      b = mk (56 + 18 + 104);
      b = copy_at b 0 ntlmSignature; b = put32 b 8 ntlmTypeChallenge;
      b = put16 b 12 18; b = put16 b 14 18; b = put32 b 16 56;
      b = put32 b 20 (ntlmDefaultFlags OR ntlmNegotiateTargetTypeServer);
      b = copy_at b 24 ch; b = put16 b 40 104; b = put16 b 42 104; b = put32 b 44 74;
      b = put8 b 48 10; b = put8 b 55 0x0F; b = copy_at b 56 d
      in copy_at b 74 ti)"
    unfolding buildNTLMChallenge_def Let_def d_def [symmetric] c_def [symmetric] ti_def [symmetric] l lti
    by simp
  note S = ntlmMessageType_def ntlm_field_def sig assms l lti Let_def
  show "ntlmMessageType (buildNTLMChallenge now ch) = ntlmTypeChallenge"
    unfolding m by (simp add: S)
  show "slice (buildNTLMChallenge now ch) 24 32 = ch"
    unfolding m by (simp add: S)
  show "get32 (buildNTLMChallenge now ch) 20 = ntlmDefaultFlags OR ntlmNegotiateTargetTypeServer"
    unfolding m by (simp add: S)
  show "ntlm_field (buildNTLMChallenge now ch) 12 = stringToUTF16le (ascii ''WORKGROUP'')"
    unfolding m d_def [symmetric] by (simp add: S)
  have "ntlm_field (buildNTLMChallenge now ch) 40 = ti"
    unfolding m by (simp add: S)
  then show "av_parse (ntlm_field (buildNTLMChallenge now ch) 40) = Some (target_info now)"
    using parse by simp
qed

section \<open>Properties\<close>

text \<open>
  C39. The DER reader inverts the DER writer: it returns the tag and content of an element of fewer
  than 65536 bytes and exactly the bytes that follow it.
\<close>

theorem der_roundtrip:
  assumes "length c < 65536"
  shows "derReadTLV (derTLV t c @ r) = Some (t, c, r)"
  by (rule derReadTLV_derTLV [OF assms])

lemma der_roundtrip_witness:
  "derReadTLV (derTLV 0xA2 (mk 300) @ [1, 2]) = Some (0xA2, mk 300, [1, 2])"
  by (rule der_roundtrip) simp

text \<open>
  C40. The NTLMSSP token of a SESSION_SETUP is found in both of its SPNEGO wrappings, the client's
  NegTokenInit and a NegTokenResp as the server builds it, whatever follows; and a NegTokenResp
  without a token yields none.
\<close>

theorem spnego_extracts:
  assumes "length oid + length mechs + length token < 65000"
  shows "spnegoExtractNTLM (negTokenInit oid mechs token @ r) = Some token \<and>
    spnegoExtractNTLM (buildNegTokenResp st mech (Some token) @ r) = Some token \<and>
    spnegoExtractNTLM (buildNegTokenResp st mech None @ r) = None"
proof -
  have "length token < 65000" using assms by simp
  then show ?thesis using extract_negTokenInit [OF assms] extract_buildNegTokenResp by blast
qed

lemma spnego_extracts_witness:
  "spnegoExtractNTLM (negTokenInit [0x2B, 6, 1, 5, 5, 2] (derTLV 0x30 oidNLMP) (ntlmSignature @ le32 1) @ [0])
    = Some (ntlmSignature @ le32 1)"
  using spnego_extracts [of "[0x2B, 6, 1, 5, 5, 2]" "derTLV 0x30 oidNLMP" "ntlmSignature @ le32 1" "[0]"]
  by (simp add: ntlmSignature_def oidNLMP_def derTLV_def derLen_def)

text \<open>
  The CHALLENGE message carries the server's challenge, its type and flags, the target name, and
  a target information block that parses to the five pairs a Windows client needs.
\<close>

theorem challenge_layout:
  assumes "length ch = 8"
  shows "ntlmMessageType (buildNTLMChallenge now ch) = ntlmTypeChallenge \<and>
    slice (buildNTLMChallenge now ch) 24 32 = ch \<and>
    get32 (buildNTLMChallenge now ch) 20 = ntlmDefaultFlags OR ntlmNegotiateTargetTypeServer \<and>
    ntlm_field (buildNTLMChallenge now ch) 12 = stringToUTF16le (ascii ''WORKGROUP'') \<and>
    av_parse (ntlm_field (buildNTLMChallenge now ch) 40) = Some (target_info now)"
  using buildNTLMChallenge_fields [OF assms] by blast

lemma challenge_layout_witness:
  "slice (buildNTLMChallenge ZeroTime [1, 2, 3, 4, 5, 6, 7, 8]) 24 32 = [1, 2, 3, 4, 5, 6, 7, 8]"
  using challenge_layout [of "[1, 2, 3, 4, 5, 6, 7, 8]" ZeroTime] by simp

end
