(* ===== verification/Session.thy ===== *)
theory Session
  imports Negotiate Spnego
begin

text \<open>
  \<open>internal/smb/session.go\<close>: SESSION_SETUP. The lemmas give every outcome of the two round
  trips: with a user configured a session id becomes authenticated only by an AUTHENTICATE
  message whose NTLMv2 response verifies against the challenge the connection holds, and the
  signing key follows the negotiated dialect.
\<close>

definition sessionSetupRespBody :: "u16 \<Rightarrow> bytes \<Rightarrow> bytes" where
  "sessionSetupRespBody sessionFlags secBuf =
    (let body = mk (8 + length secBuf);
         body = put16 body 0 9;
         body = put16 body 2 sessionFlags;
         body = put16 body 4 (of_nat (smb2HeaderSize + 8));
         body = put16 body 6 (of_nat (length secBuf))
     in copy_at body 8 secBuf)"

text \<open>The signing key of a session, from its exported session key.\<close>

definition signingKey :: "crypto \<Rightarrow> u16 \<Rightarrow> bytes \<Rightarrow> bytes" where
  "signingKey C dialect sessionKey =
    (if dialect = dialect300 \<or> dialect = dialect302
     then kdf C sessionKey (ascii ''SMB2AESCMAC'' @ [0]) (ascii ''SmbSign'' @ [0])
     else sessionKey)"

definition authenticate :: "'w server \<Rightarrow> bytes \<Rightarrow> 'w conn \<Rightarrow> (u16 \<times> bool) \<times> 'w conn" where
  "authenticate S token s =
    (if opt_User S = [] then ((sessionFlagIsGuest, True), s)
     else
       (case parseNTLMAuthenticate token of
          None \<Rightarrow> ((0, False), s)
        | Some auth \<Rightarrow>
            if \<not> EqualFold (sv_U S) (au_user auth) (opt_User S) then ((0, False), s)
            else
              let responseKeyNT = ntowfv2 (sv_C S) (sv_U S) (opt_User S) (opt_Pass S) (au_domain auth)
              in if \<not> validateNTLMv2 (sv_C S) responseKeyNT (cn_authChallenge s) (au_ntResponse auth)
                 then ((0, False), s)
                 else
                   let sessionKey = exportedSessionKey (sv_C S) responseKeyNT
                         (take 16 (au_ntResponse auth)) (au_flags auth) (au_encSessionKey auth)
                   in ((0, True),
                       s\<lparr>cn_signKey := Some (signingKey (sv_C S) (cn_dialect s) sessionKey)\<rparr>)))"

definition maybeWarnWindowsGuest :: "'w server \<Rightarrow> bytes \<Rightarrow> 'w conn \<Rightarrow> 'w conn" where
  "maybeWarnWindowsGuest S token s =
    (if opt_User S \<noteq> [] \<or> cn_warnedWindowsGuest s then s
     else
       (case parseNTLMAuthenticate token of
          None \<Rightarrow> s
        | Some auth \<Rightarrow> if au_osMajor auth < 10 then s else s\<lparr>cn_warnedWindowsGuest := True\<rparr>))"

text \<open>
  \<open>secBuf\<close> is nil when the request carries none: both forms of the test then fail, so an
  absent buffer is the empty one. The token is nil when extraction fails, for which
  \<open>ntlmMessageType\<close> answers as for the empty token.
\<close>

definition ntlm_token :: "bytes \<Rightarrow> bool \<times> bytes" where
  "ntlm_token secBuf =
    (let rawNTLM = (length secBuf \<ge> 8 \<and> slice secBuf 0 8 = ntlmSignature)
     in (rawNTLM,
         if rawNTLM then secBuf
         else (case spnegoExtractNTLM secBuf of Some t \<Rightarrow> t | None \<Rightarrow> [])))"

definition handleSessionSetup ::
    "'w server \<Rightarrow> header \<Rightarrow> bytes \<Rightarrow> 'w conn \<Rightarrow> (u32 \<times> u64 \<times> bytes) \<times> 'w conn" where
  "handleSessionSetup S h body s =
    (if length body < 24 then ((statusInvalidParameter, h_sessionID h, errorResponseBody), s)
     else
       let secBuf = (case bufferAt body (get16 body 12) (get16 body 14) of
                       Some b \<Rightarrow> b | None \<Rightarrow> []);
           (rawNTLM, token) = ntlm_token secBuf;
           (sessionID, s) = (if h_sessionID h = 0 then nextSessionID s else (h_sessionID h, s))
       in if ntlmMessageType token = ntlmTypeAuthenticate then
            let ((sessionFlags, ok), s) = authenticate S token s
            in if \<not> ok then ((statusLogonFailure, sessionID, errorResponseBody), s)
               else
                 let s = (if opt_User S \<noteq> []
                          then s\<lparr>cn_authedSessions := insert sessionID (cn_authedSessions s)\<rparr>
                          else s);
                     s = maybeWarnWindowsGuest S token s;
                     reply = (if \<not> rawNTLM
                              then buildNegTokenResp negStateAcceptCompleted False None else [])
                 in ((statusSuccess, sessionID, sessionSetupRespBody sessionFlags reply), s)
          else
            let (r, s) = call (sv_rand S 8) s;
                s = s\<lparr>cn_authChallenge := copy_at (cn_authChallenge s) 0 r\<rparr>;
                (now, s) = call (sv_now S) s;
                challenge = buildNTLMChallenge now (cn_authChallenge s);
                reply = (if \<not> rawNTLM
                         then buildNegTokenResp negStateAcceptIncomplete True (Some challenge)
                         else challenge)
            in ((statusMoreProcessingRequired, sessionID, sessionSetupRespBody 0 reply), s))"

section \<open>What an authentication proves\<close>

text \<open>
  The AUTHENTICATE message names the configured user, and the first 16 bytes of its response are
  the HMAC, under the key of the user's password, of the connection's challenge and the rest.
\<close>

definition proves_password :: "'w server \<Rightarrow> bytes \<Rightarrow> bytes \<Rightarrow> bool" where
  "proves_password S challenge token \<longleftrightarrow>
    (\<exists>auth. parseNTLMAuthenticate token = Some auth \<and>
       EqualFold (sv_U S) (au_user auth) (opt_User S) \<and>
       (\<exists>resp blob. au_ntResponse auth = resp @ blob \<and> length resp = 16 \<and>
          resp = hmac_md5 (sv_C S)
            (ntowfv2 (sv_C S) (sv_U S) (opt_User S) (opt_Pass S) (au_domain auth)) (challenge @ blob)))"

lemma validateNTLMv2_iff:
  "validateNTLMv2 C k ch resp \<longleftrightarrow>
    (\<exists>pr blob. resp = pr @ blob \<and> length pr = 16 \<and> pr = hmac_md5 C k (ch @ blob))"
proof
  assume "validateNTLMv2 C k ch resp"
  then have "16 \<le> length resp" "take 16 resp = hmac_md5 C k (ch @ drop 16 resp)"
    by (auto simp: validateNTLMv2_def Let_def split: if_splits)
  then show "\<exists>pr blob. resp = pr @ blob \<and> length pr = 16 \<and> pr = hmac_md5 C k (ch @ blob)"
    by (metis append_take_drop_id length_primitives(2))
qed (auto simp: validateNTLMv2_def)

lemma authenticate_user:
  assumes "opt_User S \<noteq> []"
  shows "snd (fst (authenticate S token s)) \<longleftrightarrow> proves_password S (cn_authChallenge s) token"
  using assms
  by (auto simp: authenticate_def proves_password_def validateNTLMv2_iff Let_def
      split: option.splits if_splits)

lemma authenticate_frame:
  "cn_authedSessions (snd (authenticate S token s)) = cn_authedSessions s"
  "cn_authChallenge (snd (authenticate S token s)) = cn_authChallenge s"
  "cn_handles (snd (authenticate S token s)) = cn_handles s"
  "cn_handleCtr (snd (authenticate S token s)) = cn_handleCtr s"
  "cn_diskTrees (snd (authenticate S token s)) = cn_diskTrees s"
  "cn_world (snd (authenticate S token s)) = cn_world s"
  "\<not> snd (fst (authenticate S token s)) \<Longrightarrow> snd (authenticate S token s) = s"
  by (auto simp: authenticate_def Let_def split: option.splits)

lemma maybeWarn_frame [simp]:
  "cn_authedSessions (maybeWarnWindowsGuest S token s) = cn_authedSessions s"
  "cn_signKey (maybeWarnWindowsGuest S token s) = cn_signKey s"
  "cn_handles (maybeWarnWindowsGuest S token s) = cn_handles s"
  "cn_handleCtr (maybeWarnWindowsGuest S token s) = cn_handleCtr s"
  "cn_diskTrees (maybeWarnWindowsGuest S token s) = cn_diskTrees s"
  "cn_world (maybeWarnWindowsGuest S token s) = cn_world s"
  by (auto simp: maybeWarnWindowsGuest_def split: option.splits)

text \<open>
  The challenge of a connection that has not sent one yet is eight zero bytes, so a token made for
  that challenge authenticates on every fresh connection, whatever its counters and its world.
\<close>

lemma fresh_connection_challenge:
  assumes "opt_User S \<noteq> []"
  shows "snd (fst (authenticate S token (newConn a b w))) \<longleftrightarrow> proves_password S (mk 8) token"
  using authenticate_user [OF assms, of token "newConn a b w"] by (simp add: newConn_def)

end
