(* ===== verification/Create.thy ===== *)
theory Create
  imports Session Aapl
begin

text \<open>
  \<open>internal/smb/create.go\<close>: CREATE, the translation of names and access masks, and what the
  server observes of an open file. The lemmas show that a name never leaves the share, which
  flags an open passes to the backend, the status of every refusal, and what a successful open
  adds to the handle table.
\<close>

section \<open>Constants\<close>

abbreviation dispSupersede :: u32 where "dispSupersede \<equiv> 0"
abbreviation dispOpen :: u32 where "dispOpen \<equiv> 1"
abbreviation dispCreate :: u32 where "dispCreate \<equiv> 2"
abbreviation dispOpenIf :: u32 where "dispOpenIf \<equiv> 3"
abbreviation dispOverwrite :: u32 where "dispOverwrite \<equiv> 4"
abbreviation dispOverwriteIf :: u32 where "dispOverwriteIf \<equiv> 5"
abbreviation optDirectoryFile :: u32 where "optDirectoryFile \<equiv> 0x1"
abbreviation optNonDirectoryFile :: u32 where "optNonDirectoryFile \<equiv> 0x40"
abbreviation optDeleteOnClose :: u32 where "optDeleteOnClose \<equiv> 0x1000"
abbreviation actionOpened :: u32 where "actionOpened \<equiv> 1"
abbreviation actionCreated :: u32 where "actionCreated \<equiv> 2"
abbreviation actionOverwritten :: u32 where "actionOverwritten \<equiv> 3"
abbreviation fileAttrReadonly :: u32 where "fileAttrReadonly \<equiv> 0x1"
abbreviation fileAttrDirectory :: u32 where "fileAttrDirectory \<equiv> 0x10"
abbreviation fileAttrNormal :: u32 where "fileAttrNormal \<equiv> 0x80"
abbreviation accFileWriteData :: u32 where "accFileWriteData \<equiv> 0x2"
abbreviation accFileAppendData :: u32 where "accFileAppendData \<equiv> 0x4"
abbreviation accGenericAll :: u32 where "accGenericAll \<equiv> 0x10000000"
abbreviation accGenericWrite :: u32 where "accGenericWrite \<equiv> 0x40000000"

section \<open>Observations of an open file\<close>

definition of_stat :: "'w openFile \<Rightarrow> 'w conn \<Rightarrow> (goerror + fileinfo) \<times> 'w conn" where
  "of_stat f s =
    (case of_handle f of
       Some h \<Rightarrow> call (f_Stat (sh_fs (of_share f)) h) s
     | None \<Rightarrow> call (fs_Stat (sh_fs (of_share f)) (of_path f)) s)"

text \<open>\<open>fi.Mode().Perm()&0o222 == 0\<close> on anything but a directory.\<close>

definition fileIsReadOnly :: "fileinfo \<Rightarrow> bool" where
  "fileIsReadOnly fi \<longleftrightarrow> \<not> fi_isDir fi \<and> fi_perm fi AND 0x92 = 0"

definition fileInfoAttrs :: "fileinfo \<Rightarrow> u32" where
  "fileInfoAttrs fi =
    (if fi_isDir fi then fileAttrDirectory
     else if fileIsReadOnly fi then fileAttrReadonly
     else fileAttrNormal)"

definition of_attrs :: "'w openFile \<Rightarrow> 'w conn \<Rightarrow> (u32 \<times> i64 \<times> gotime) \<times> 'w conn" where
  "of_attrs f s =
    (let (r, s) = of_stat f s
     in case r of
          Inl _ \<Rightarrow>
            ((if of_isDir f then (fileAttrDirectory, 0, ZeroTime) else (fileAttrNormal, 0, ZeroTime)), s)
        | Inr fi \<Rightarrow> ((fileInfoAttrs fi, fi_size fi, fi_mtime fi), s))"

definition readOnlyFile :: "'w openFile \<Rightarrow> 'w conn \<Rightarrow> bool \<times> 'w conn" where
  "readOnlyFile f s =
    (let (r, s) = of_stat f s
     in (case r of Inl _ \<Rightarrow> False | Inr fi \<Rightarrow> fileIsReadOnly fi, s))"

definition of_name :: "'w openFile \<Rightarrow> gostring" where
  "of_name f = (if of_path f = [] then [] else path_Base (of_path f))"

section \<open>Names and access\<close>

definition accessToFlags :: "u32 \<Rightarrow> u32 \<Rightarrow> u32" where
  "accessToFlags access disposition =
    (let wr = (access AND (accGenericWrite OR accGenericAll OR accFileWriteData OR accFileAppendData) \<noteq> 0);
         flags = (if wr then O_RDWR else O_RDONLY);
         flags = (if access AND accFileAppendData \<noteq> 0 \<and> access AND accFileWriteData = 0
                  then flags OR O_APPEND else flags)
     in if disposition = dispCreate then flags OR (O_CREATE OR O_EXCL)
        else if disposition = dispOpenIf then flags OR O_CREATE
        else if disposition = dispOverwrite then flags OR O_TRUNC
        else if disposition = dispOverwriteIf \<or> disposition = dispSupersede
             then flags OR (O_CREATE OR O_TRUNC)
        else flags)"

definition nameToPath :: "gostring \<Rightarrow> gostring" where
  "nameToPath name =
    (let p = map (\<lambda>b. if b = 0x5C then 0x2F else b) name;
         p = path_Clean (0x2F # p)
     in trim_slashes p)"

definition joinPath :: "gostring \<Rightarrow> gostring \<Rightarrow> gostring" where
  "joinPath dir name = (if dir = [] then name else dir @ [0x2F] @ name)"

definition mutating_flags :: "u32 \<Rightarrow> bool" where
  "mutating_flags flags \<longleftrightarrow> flags AND (O_RDWR OR O_WRONLY OR O_APPEND OR O_TRUNC) \<noteq> 0"

section \<open>CREATE\<close>

definition buildCreateResp :: "u32 \<Rightarrow> 'w openFile \<Rightarrow> 'w conn \<Rightarrow> bytes \<times> 'w conn" where
  "buildCreateResp action f s =
    (let ((attrs, sz, mtime), s) = of_attrs f s;
         ft = timeToFiletime mtime;
         body = mk 89;
         body = put16 body 0 89;
         body = put32 body 4 action;
         body = put64 body 8 ft;
         body = put64 body 16 ft;
         body = put64 body 24 ft;
         body = put64 body 32 ft;
         body = put64 body 40 sz;
         body = put64 body 48 sz;
         body = put32 body 56 attrs;
         body = copy_at body 64 (of_fileID f)
     in (body, s))"

text \<open>
  The three checks of \<open>handleCreate\<close> that refuse an open: the disposition's preconditions, the
  read-only share, the read-only file. \<open>st\<close> is the result of \<open>Stat\<close>.
\<close>

definition create_refused ::
    "platform \<Rightarrow> 'w share \<Rightarrow> u32 \<Rightarrow> u32 \<Rightarrow> u32 \<Rightarrow> (goerror + fileinfo) \<Rightarrow> u32 option" where
  "create_refused P sh desiredAccess createDisposition createOptions st =
    (let ex = (case st of Inr _ \<Rightarrow> True | Inl _ \<Rightarrow> False);
         flags = accessToFlags desiredAccess createDisposition
     in if (createDisposition = dispOpen \<or> createDisposition = dispOverwrite) \<and> \<not> ex then
          Some (mapOSError P (case st of Inl e \<Rightarrow> Some e | Inr _ \<Rightarrow> None))
        else if createDisposition = dispCreate \<and> ex then Some statusObjectNameCollision
        else if sh_readOnly sh \<and>
          (mutating_flags flags
           \<or> \<not> ex \<and> (flags AND O_CREATE \<noteq> 0 \<or> createOptions AND optDirectoryFile \<noteq> 0)
           \<or> createOptions AND optDeleteOnClose \<noteq> 0)
        then Some statusMediaWriteProtected
        else if (case st of Inr fi \<Rightarrow> fileIsReadOnly fi | Inl _ \<Rightarrow> False) \<and>
          (mutating_flags flags \<or> createOptions AND optDeleteOnClose \<noteq> 0)
        then Some statusAccessDenied
        else None)"

definition new_open :: "'w share \<Rightarrow> gostring \<Rightarrow> nat option \<Rightarrow> bool \<Rightarrow> 'w openFile" where
  "new_open sh path h isDir =
    \<lparr>of_fileID = mk 16, of_share = sh, of_path = path, of_handle = h, of_isDir = isDir,
     of_deleteOnClose = False, of_dirEntries = [], of_dirPos = 0, of_dirLoaded = False\<rparr>"

text \<open>The final switch of \<open>handleCreate\<close>: the open and its action, or the status of the failure.\<close>

definition create_open ::
    "platform \<Rightarrow> 'w share \<Rightarrow> gostring \<Rightarrow> u32 \<Rightarrow> u32 \<Rightarrow> u32 \<Rightarrow> (goerror + fileinfo) \<Rightarrow> 'w conn
      \<Rightarrow> (u32 + 'w openFile \<times> u32) \<times> 'w conn" where
  "create_open P sh path desiredAccess createDisposition createOptions st s =
    (let ex = (case st of Inr _ \<Rightarrow> True | Inl _ \<Rightarrow> False);
         isdir = (case st of Inr fi \<Rightarrow> fi_isDir fi | Inl _ \<Rightarrow> False)
     in if ex \<and> isdir then
          if createOptions AND optNonDirectoryFile \<noteq> 0 then (Inl statusFileIsADirectory, s)
          else (Inr (new_open sh path None True, actionOpened), s)
        else if \<not> ex \<and> createOptions AND optDirectoryFile \<noteq> 0 then
          let (err, s) = call (fs_Mkdir (sh_fs sh) path 0x1FF) s
          in (case err of
                Some e \<Rightarrow> (Inl (mapOSError P (Some e)), s)
              | None \<Rightarrow>
                  let (r, s) = call (fs_Stat (sh_fs sh) path) s
                  in (case r of
                        Inl e \<Rightarrow> (Inl (mapOSError P (Some e)), s)
                      | Inr _ \<Rightarrow> (Inr (new_open sh path None True, actionCreated), s)))
        else if ex \<and> \<not> isdir \<and> createOptions AND optDirectoryFile \<noteq> 0 then
          (Inl statusNotADirectory, s)
        else
          let flags = (if sh_readOnly sh then O_RDONLY
                       else accessToFlags desiredAccess createDisposition);
              (r, s) = call (fs_OpenFile (sh_fs sh) path flags 0x1B6) s
          in (case r of
                Inl e \<Rightarrow> (Inl (mapOSError P (Some e)), s)
              | Inr h \<Rightarrow>
                  (Inr (new_open sh path (Some h) False,
                        if \<not> ex then actionCreated
                        else if flags AND O_TRUNC \<noteq> 0 then actionOverwritten
                        else actionOpened), s)))"

definition create_name :: "bytes \<Rightarrow> gostring" where
  "create_name body =
    (case bufferAt body (get16 body 44) (get16 body 46) of
       None \<Rightarrow> []
     | Some buf \<Rightarrow> utf16leToString buf)"

definition handleCreate :: "'w server \<Rightarrow> bytes \<Rightarrow> u32 \<Rightarrow> 'w conn \<Rightarrow> 'w reply" where
  "handleCreate S body treeID s =
    (if length body < 56 then failure statusInvalidParameter s
     else if length (cn_handles s) \<ge> maxOpenFiles then failure statusInsufficientResources s
     else
       (case cn_diskTrees s treeID of
          None \<Rightarrow> failure statusNetworkNameDeleted s
        | Some sh \<Rightarrow>
            let desiredAccess = get32 body 24;
                createDisposition = get32 body 36;
                createOptions = get32 body 40;
                path = nameToPath (create_name body);
                (st, s) = call (fs_Stat (sh_fs sh) path) s
            in (case create_refused (sv_GOOS S) sh desiredAccess createDisposition createOptions st of
                  Some status \<Rightarrow> failure status s
                | None \<Rightarrow>
                    let (r, s) = create_open (sv_GOOS S) sh path desiredAccess createDisposition
                          createOptions st s
                    in (case r of
                          Inl status \<Rightarrow> failure status s
                        | Inr (f, action) \<Rightarrow>
                            let f = (if createOptions AND optDeleteOnClose \<noteq> 0
                                     then f\<lparr>of_deleteOnClose := True\<rparr> else f);
                                (f, s) = openHandle f s;
                                (resp, s) = buildCreateResp action f s;
                                (resp, s) = withAppleContext body sh resp s
                            in ((statusSuccess, resp), s)))))"


section \<open>The effect of CREATE\<close>

lemmas query_facts = share_keeps_query [THEN query_backend.q_Stat]
  share_keeps_query [THEN query_backend.q_FStat] share_keeps_query [THEN query_backend.q_OpenFile]
  share_keeps_query [THEN query_backend.q_ReadDir] share_keeps_query [THEN query_backend.q_Statfs]
  share_keeps_query [THEN query_backend.q_ReadAt] share_keeps_query [THEN query_backend.q_Close]
  share_keeps_query [THEN query_backend.q_Sync]

lemmas mutator_facts = share_keeps_any [THEN any_backend.a_OpenFile]
  share_keeps_any [THEN any_backend.a_Mkdir] share_keeps_any [THEN any_backend.a_Rename]
  share_keeps_any [THEN any_backend.a_Remove] share_keeps_any [THEN any_backend.a_Truncate]
  share_keeps_any [THEN any_backend.a_Chtimes] share_keeps_any [THEN any_backend.a_WriteAt]
  share_keeps_any [THEN any_backend.a_FTruncate]

lemma of_stat_step:
  assumes "of_stat f s = (r, s')" and "share_keeps I (of_share f)"
  shows "world_step I s s'"
  using assms(1)
  by (auto simp: of_stat_def intro!: query_facts [OF assms(2)] elim!: world_step_call_eq
      split: option.splits)

lemma of_attrs_state: "snd (of_attrs f s) = snd (of_stat f s)"
  by (cases "of_stat f s") (simp add: of_attrs_def split: sum.split)

lemma readOnlyFile_state: "snd (readOnlyFile f s) = snd (of_stat f s)"
  by (cases "of_stat f s") (simp add: readOnlyFile_def)

lemma buildCreateResp_state: "snd (buildCreateResp a f s) = snd (of_stat f s)"
  by (simp add: buildCreateResp_def Let_def split_beta of_attrs_state)

lemma of_stat_world: "share_keeps I (of_share f) \<Longrightarrow> world_step I s (snd (of_stat f s))"
  using of_stat_step [of f s "fst (of_stat f s)" "snd (of_stat f s)"] by simp

lemma observe_step:
  assumes "share_keeps I (of_share f)"
  shows "of_attrs f s = (r, s') \<Longrightarrow> world_step I s s'"
    and "readOnlyFile f s = (b, s') \<Longrightarrow> world_step I s s'"
    and "buildCreateResp a f s = (resp, s') \<Longrightarrow> world_step I s s'"
  using of_stat_world [OF assms, of s]
  by (metis of_attrs_state readOnlyFile_state buildCreateResp_state snd_conv)+

lemma length_buildCreateResp [simp]: "length (fst (buildCreateResp a f s)) = 89"
  by (simp add: buildCreateResp_def Let_def split: prod.splits)

lemma create_open_step:
  assumes "create_open P sh path da cd co st s = (r, s')"
    and "create_refused P sh da cd co st = None" and "share_keeps I sh"
  shows "world_step I s s'"
proof (cases "sh_readOnly sh")
  case True
  then have "(case st of Inr _ \<Rightarrow> True | Inl _ \<Rightarrow> False) \<or> co AND optDirectoryFile = 0"
    using assms(2) by (auto simp: create_refused_def Let_def split: if_splits)
  then show ?thesis
    using assms(1) True
    by (auto simp: create_open_def Let_def intro!: query_facts [OF assms(3)] elim!: world_step_call_eq
        split: if_splits prod.splits sum.splits)
next
  case False
  then show ?thesis
    using assms(1)
    by (auto simp: create_open_def Let_def intro!: mutator_facts [OF assms(3)] query_facts [OF assms(3)]
        intro: world_step_trans elim!: world_step_call_eq
        split: if_splits prod.splits sum.splits option.splits)
qed


lemma create_open_share:
  assumes "create_open P sh path da cd co st s = (Inr (f, a), s')"
  shows "of_share f = sh \<and> of_path f = path \<and> (of_isDir f \<longleftrightarrow> of_handle f = None) \<and>
    \<not> of_deleteOnClose f"
  using assms
  by (auto simp: create_open_def Let_def new_open_def split: if_splits prod.splits sum.splits option.splits)

text \<open>How a successful CREATE goes: the steps, with the connection after each.\<close>

definition create_succeeds ::
    "'w server \<Rightarrow> bytes \<Rightarrow> u32 \<Rightarrow> 'w conn \<Rightarrow> bytes \<Rightarrow> 'w openFile \<Rightarrow> 'w conn \<Rightarrow> bool" where
  "create_succeeds S body treeID s resp f s' \<longleftrightarrow>
    (\<exists>sh st s1 f0 action s2 s3 resp0 s4.
       cn_diskTrees s treeID = Some sh \<and> length (cn_handles s) < maxOpenFiles \<and>
       call (fs_Stat (sh_fs sh) (nameToPath (create_name body))) s = (st, s1) \<and>
       create_refused (sv_GOOS S) sh (get32 body 24) (get32 body 36) (get32 body 40) st = None \<and>
       create_open (sv_GOOS S) sh (nameToPath (create_name body)) (get32 body 24) (get32 body 36)
         (get32 body 40) st s1 = (Inr (f0, action), s2) \<and>
       openHandle (if get32 body 40 AND optDeleteOnClose \<noteq> 0 then f0\<lparr>of_deleteOnClose := True\<rparr> else f0) s2
         = (f, s3) \<and>
       buildCreateResp action f s3 = (resp0, s4) \<and>
       withAppleContext body sh resp0 s4 = (resp, s'))"

lemma create_refused_status: "create_refused P sh da cd co st = Some status \<Longrightarrow> status \<noteq> statusSuccess"
  by (auto simp: create_refused_def Let_def mapOSError_error split: if_splits sum.splits)

lemma create_open_status: "create_open P sh path da cd co st s = (Inl status, s') \<Longrightarrow> status \<noteq> statusSuccess"
  by (auto simp: create_open_def Let_def mapOSError_error
      split: if_splits sum.splits option.splits prod.splits)

lemma shares_from_tree:
  "shares_from S s \<Longrightarrow> cn_diskTrees s t = Some sh \<Longrightarrow> server_keeps I S \<Longrightarrow> share_keeps I sh"
  by (auto simp: shares_from_def server_keeps_def)

lemma stat_step: "share_keeps I sh \<Longrightarrow> call (fs_Stat (sh_fs sh) p) s = (r, s') \<Longrightarrow> world_step I s s'"
  by (erule world_step_call_eq) (rule query_facts(1))

lemma handleCreate_cases:
  assumes "handleCreate S body treeID s = ((status, resp), s')"
  obtains (refused) "status \<noteq> statusSuccess" "resp = errorResponseBody"
      "\<And>I. server_keeps I S \<Longrightarrow> shares_from S s \<Longrightarrow> world_step I s s'"
    | (success) f where "status = statusSuccess" "create_succeeds S body treeID s resp f s'"
proof (cases "length body < 56 \<or> maxOpenFiles \<le> length (cn_handles s) \<or> cn_diskTrees s treeID = None")
  case True
  then have "\<exists>x. x \<noteq> statusSuccess \<and> handleCreate S body treeID s = failure x s"
    by (auto simp: handleCreate_def)
  then have "status \<noteq> statusSuccess" "resp = errorResponseBody" "s' = s" using assms by auto
  then show thesis by (intro refused) auto
next
  case False
  then obtain sh where sh: "cn_diskTrees s treeID = Some sh" by auto
  let ?path = "nameToPath (create_name body)"
  let ?da = "get32 body 24" and ?cd = "get32 body 36" and ?co = "get32 body 40"
  obtain st s1 where st: "call (fs_Stat (sh_fs sh) ?path) s = (st, s1)" by fastforce
  have st_step: "server_keeps I S \<Longrightarrow> shares_from S s \<Longrightarrow> world_step I s s1" for I
    using stat_step [OF shares_from_tree st] sh by blast
  show thesis
  proof (cases "create_refused (sv_GOOS S) sh ?da ?cd ?co st")
    case (Some x)
    then have "status = x" "resp = errorResponseBody" "s' = s1"
      using assms False sh st by (simp_all add: handleCreate_def)
    then show thesis using create_refused_status [OF Some] st_step by (intro refused) auto
  next
    case None
    obtain r s2 where r: "create_open (sv_GOOS S) sh ?path ?da ?cd ?co st s1 = (r, s2)" by fastforce
    have r_step: "server_keeps I S \<Longrightarrow> shares_from S s \<Longrightarrow> world_step I s s2" for I
      using create_open_step [OF r None shares_from_tree] sh st_step world_step_trans by blast
    show thesis
    proof (cases r)
      case (Inl x)
      then have "status = x" "resp = errorResponseBody" "s' = s2"
        using assms False sh st None r by (simp_all add: handleCreate_def)
      then show thesis using create_open_status [OF r [unfolded Inl]] r_step by (intro refused) auto
    next
      case (Inr fa)
      obtain f0 action where fa: "fa = (f0, action)" by (cases fa)
      let ?f1 = "if ?co AND optDeleteOnClose \<noteq> 0 then f0\<lparr>of_deleteOnClose := True\<rparr> else f0"
      obtain f s3 where f: "openHandle ?f1 s2 = (f, s3)" by fastforce
      obtain resp0 s4 where b: "buildCreateResp action f s3 = (resp0, s4)" by fastforce
      obtain resp1 s5 where w: "withAppleContext body sh resp0 s4 = (resp1, s5)" by fastforce
      have "status = statusSuccess \<and> resp = resp1 \<and> s' = s5"
        using assms False sh st None r Inr fa f b w by (simp add: handleCreate_def)
      moreover from this have "create_succeeds S body treeID s resp f s'"
        using False sh st None r Inr fa f b w by (auto simp: create_succeeds_def)
      ultimately show thesis by (intro success) auto
    qed
  qed
qed

lemma withAppleContext_step:
  "withAppleContext body sh resp s = (resp', s') \<Longrightarrow> \<exists>a. s' = s\<lparr>cn_aapl := a\<rparr>"
  by (auto simp: withAppleContext_def appleServerQueryResponse_def Let_def
      split: option.splits prod.splits if_splits intro: exI [of _ "cn_aapl s"])

lemma shares_from_fields:
  "cn_handles s' = cn_handles s \<Longrightarrow> cn_diskTrees s' = cn_diskTrees s \<Longrightarrow>
   shares_from S s \<Longrightarrow> shares_from S s'"
  by (simp add: shares_from_def)

text \<open>What a successful CREATE leaves: a changed world, and an open under the next FileId.\<close>

lemma create_succeeds_open:
  assumes "create_succeeds S body t s resp f s'"
  obtains sh f1 s2 s4 b where "cn_diskTrees s t = Some sh" "length (cn_handles s) < maxOpenFiles"
    "of_share f1 = sh" "of_path f1 = nameToPath (create_name body)" "sh_readOnly sh \<Longrightarrow> \<not> of_deleteOnClose f1"
    "f = stampHandle (file_id (cn_handleCtr s + 1)) f1"
    "openHandle f1 s2 = (f, addHandle f (s2\<lparr>cn_handleCtr := cn_handleCtr s + 1\<rparr>))"
    "s' = s4\<lparr>cn_aapl := b\<rparr>"
    "\<And>I. share_keeps I sh \<Longrightarrow>
      world_step I s s2 \<and> world_step I (addHandle f (s2\<lparr>cn_handleCtr := cn_handleCtr s + 1\<rparr>)) s4"
proof -
  obtain sh st s1 f0 action s2 s3 resp0 s4 where *:
    "cn_diskTrees s t = Some sh" "length (cn_handles s) < maxOpenFiles"
    "call (fs_Stat (sh_fs sh) (nameToPath (create_name body))) s = (st, s1)"
    "create_refused (sv_GOOS S) sh (get32 body 24) (get32 body 36) (get32 body 40) st = None"
    "create_open (sv_GOOS S) sh (nameToPath (create_name body)) (get32 body 24) (get32 body 36)
       (get32 body 40) st s1 = (Inr (f0, action), s2)"
    "openHandle (if get32 body 40 AND optDeleteOnClose \<noteq> 0 then f0\<lparr>of_deleteOnClose := True\<rparr> else f0) s2
       = (f, s3)"
    "buildCreateResp action f s3 = (resp0, s4)" "withAppleContext body sh resp0 s4 = (resp, s')"
    using assms unfolding create_succeeds_def by blast
  define f1 where "f1 = (if get32 body 40 AND optDeleteOnClose \<noteq> 0
    then f0\<lparr>of_deleteOnClose := True\<rparr> else f0)"
  note op = *(6) [folded f1_def]
  have s2: "world_step I s s2" if k: "share_keeps I sh" for I
    using stat_step [OF k *(3)] create_open_step [OF *(5,4) k] by (rule world_step_trans)
  have c2: "cn_handleCtr s2 = cn_handleCtr s" using s2 [of "\<lambda>_. True"] by (auto simp: world_step_def)
  have f: "f = stampHandle (file_id (cn_handleCtr s + 1)) f1" "s3 = addHandle f (s2\<lparr>cn_handleCtr := cn_handleCtr s + 1\<rparr>)"
    using op by (auto simp: openHandle_value c2)
  have f1: "of_share f1 = sh" "of_path f1 = nameToPath (create_name body)" "sh_readOnly sh \<Longrightarrow> \<not> of_deleteOnClose f1"
    using create_open_share [OF *(5)] *(4) by (auto simp: f1_def create_refused_def Let_def split: if_splits)
  have s4: "world_step I s3 s4" if "share_keeps I sh" for I
    using observe_step(3) [OF _ *(7)] that f1(1) f(1) by simp
  obtain b where "s' = s4\<lparr>cn_aapl := b\<rparr>" using withAppleContext_step [OF *(8)] by blast
  with that [OF *(1,2) f1 f(1) op [unfolded f(2)]] s2 s4 show thesis by (simp add: f(2))
qed

lemma handleCreate_effect:
  assumes "handleCreate S body treeID s = ((status, resp), s')"
    and I: "server_keeps I S" and sf: "shares_from S s"
  shows "effect S I s s'"
  using assms(1)
proof (cases rule: handleCreate_cases)
  case refused
  then show ?thesis using effect_world [OF sf] I sf by blast
next
  case (success f)
  from success(2) show ?thesis
  proof (cases rule: create_succeeds_open)
    case (1 sh f1 s2 s4 b)
    let ?s3 = "addHandle f (s2\<lparr>cn_handleCtr := cn_handleCtr s + 1\<rparr>)"
    have k: "share_keeps I sh" using shares_from_tree [OF sf 1(1) I] .
    note w = 1(9) [OF k, THEN conjunct1] 1(9) [OF k, THEN conjunct2]
    have "sh \<in> set (sv_shares S)" using sf 1(1) by (auto simp: shares_from_def)
    moreover have "shares_from S (s2\<lparr>cn_handleCtr := cn_handleCtr s + 1\<rparr>)"
      using shares_from_world [OF sf w(1)] by (simp add: shares_from_def)
    ultimately have "shares_from S ?s3" using 1(3,5,6) by (intro shares_from_add) simp_all
    from shares_from_world [OF this w(2)] have "shares_from S s'" by (simp add: 1(8) shares_from_def)
    moreover have "ht.tstep\<^sup>*\<^sup>* s s'" if "cn_handleCtr s \<noteq> - 1"
    proof (rule tsteps_open [OF _ world_step_same_table [OF w(1)] 1(7)])
      show "\<not> table_full s2" using that 1(2) w(1) by (auto simp: table_full_def world_step_def)
      show "same_table ?s3 s'" using world_step_same_table [OF w(2)] 1(8) by (simp add: same_table_def)
    qed
    ultimately show ?thesis
      using w 1(8) by (auto simp: effect_def world_step_def addHandle_def)
  qed
qed

section \<open>Properties of names\<close>

definition from_wire :: "gostring \<Rightarrow> gostring" where
  "from_wire name = map (\<lambda>b. if b = backslash then slash else b) name"

lemma nameToPath_components: "nameToPath name = join_with slash (path_components (from_wire name))"
  unfolding nameToPath_def Let_def from_wire_def [symmetric] path_Clean_abs
  by (rule trim_slashes_join(1) [OF path_components_plain])

lemma path_components_no_backslash:
  "c \<in> set (path_components (from_wire name)) \<Longrightarrow> backslash \<notin> set c"
proof -
  assume c: "c \<in> set (path_components (from_wire name))"
  then have "c \<in> set (split_on slash (slash # from_wire name)) \<or> c = dotdot"
    unfolding path_components_def by (rule set_clean_components)
  moreover have "backslash \<notin> set (slash # from_wire name)" by (auto simp: from_wire_def)
  moreover have "backslash \<notin> set dotdot" by simp
  ultimately show ?thesis using set_split_on [of c slash "slash # from_wire name"] by blast
qed

text \<open>
  C29. A client's name never leaves the share: whatever the name, the path is a list of components
  joined by slashes, none of them empty, "." or "..", or containing a slash or backslash; so
  there is no leading or trailing slash, and translating it again changes nothing.
\<close>

theorem nameToPath_confined:
  "\<exists>cs. nameToPath name = join_with slash cs \<and>
     list_all (\<lambda>c. c \<noteq> [] \<and> c \<noteq> dot \<and> c \<noteq> dotdot \<and> slash \<notin> set c \<and> backslash \<notin> set c) cs \<and>
     nameToPath (nameToPath name) = nameToPath name"
proof -
  let ?cs = "path_components (from_wire name)"
  have plain: "\<forall>c \<in> set ?cs. plain_component c" by (rule path_components_plain)
  have nb: "\<forall>c \<in> set ?cs. backslash \<notin> set c" using path_components_no_backslash by blast
  have "backslash \<notin> set (join_with slash ?cs)" using set_join_with [of slash ?cs] nb by auto
  then have "from_wire (join_with slash ?cs) = join_with slash ?cs"
    by (auto simp: from_wire_def intro: map_idI)
  then have "nameToPath (join_with slash ?cs) = join_with slash ?cs"
    by (simp add: nameToPath_components path_components_join [OF plain])
  then show ?thesis using plain nb unfolding nameToPath_components [of name] plain_component_def list_all_iff by blast
qed

end
