(* ===== verification/FileIO.thy ===== *)
theory FileIO
  imports Create
begin

text \<open>
  \<open>internal/smb/io.go\<close>: READ, WRITE, FLUSH and CLOSE. The lemmas bound what READ returns,
  show that WRITE hands the backend exactly the bytes of the request, and give every outcome
  of CLOSE.
\<close>

abbreviation readRespFixed :: nat where "readRespFixed \<equiv> 16"

definition readResponseBody :: "bytes \<Rightarrow> bytes" where
  "readResponseBody body =
    (let n = length body - readRespFixed;
         body = put16 body 0 17;
         body = put8 body 2 (of_nat (smb2HeaderSize + readRespFixed))
     in put32 body 4 (of_nat n))"

definition writeResponseBody :: "u32 \<Rightarrow> bytes" where
  "writeResponseBody count =
    (let body = mk 17; body = put16 body 0 17 in put32 body 4 count)"

definition flushResponseBody :: bytes where
  "flushResponseBody = put16 (mk 4) 0 4"

text \<open>
  \<open>resp[:readRespFixed+n]\<close> after \<open>ReadAt\<close> into \<open>resp[readRespFixed:]\<close> is the zeroed fixed part
  and the bytes read.
\<close>

definition handleRead :: "'w server \<Rightarrow> bytes \<Rightarrow> 'w conn \<Rightarrow> 'w reply" where
  "handleRead S body s =
    (if length body < 48 then failure statusInvalidParameter s
     else
       let len = get32 body 4;
           offset = get64 body 8
       in (case getHandle (slice body 16 32) s of
             None \<Rightarrow> failure statusInvalidParameter s
           | Some f \<Rightarrow>
               (case of_handle f of
                  None \<Rightarrow> failure statusInvalidParameter s
                | Some h \<Rightarrow>
                    if len > of_nat maxIOSize then failure statusInvalidParameter s
                    else if len = 0 then ((statusSuccess, readResponseBody (mk readRespFixed)), s)
                    else
                      let ((data, err), s) =
                            call (f_ReadAt (sh_fs (of_share f)) h (unat len) offset) s
                      in if data = [] then
                           (if (case err of None \<Rightarrow> True | Some e \<Rightarrow> errors_Is (sv_GOOS S) e EOF)
                            then failure statusEndOfFile s
                            else failure (mapOSError (sv_GOOS S) err) s)
                         else ((statusSuccess, readResponseBody (mk readRespFixed @ data)), s))))"

definition handleWrite :: "'w server \<Rightarrow> bytes \<Rightarrow> 'w conn \<Rightarrow> 'w reply" where
  "handleWrite S body s =
    (if length body < 48 then failure statusInvalidParameter s
     else
       let dataOffset = int (unat (get16 body 2)) - int smb2HeaderSize;
           len = get32 body 4;
           offset = get64 body 8
       in (case getHandle (slice body 16 32) s of
             None \<Rightarrow> failure statusInvalidParameter s
           | Some f \<Rightarrow>
               (case of_handle f of
                  None \<Rightarrow> failure statusInvalidParameter s
                | Some h \<Rightarrow>
                    if sh_readOnly (of_share f) then failure statusMediaWriteProtected s
                    else if len > of_nat maxIOSize \<or> dataOffset < 0
                      \<or> dataOffset + int (unat len) > int (length body)
                    then failure statusInvalidParameter s
                    else
                      let p = slice body (nat dataOffset) (nat dataOffset + unat len);
                          ((n, err), s) = call (f_WriteAt (sh_fs (of_share f)) h p offset) s
                      in (case err of
                            Some e \<Rightarrow> failure (mapOSError (sv_GOOS S) (Some e)) s
                          | None \<Rightarrow> ((statusSuccess, writeResponseBody (of_nat n)), s)))))"

definition handleFlush :: "'w server \<Rightarrow> bytes \<Rightarrow> 'w conn \<Rightarrow> 'w reply" where
  "handleFlush S body s =
    (if length body < 24 then failure statusInvalidParameter s
     else
       let ok = ((statusSuccess, flushResponseBody), s)
       in (case getHandle (slice body 8 24) s of
             None \<Rightarrow> ok
           | Some f \<Rightarrow>
               (case of_handle f of
                  None \<Rightarrow> ok
                | Some h \<Rightarrow>
                    let (err, s) = call (f_Sync (sh_fs (of_share f)) h) s
                    in (case err of
                          Some e \<Rightarrow> failure (mapOSError (sv_GOOS S) (Some e)) s
                        | None \<Rightarrow> ((statusSuccess, flushResponseBody), s)))))"

text \<open>
  The two steps of \<open>handleClose\<close> on the open it removed: its post-query attributes, when they
  are asked for; then closing, and removing the file of a delete-on-close.
\<close>

definition close_postAttrs :: "bytes \<Rightarrow> 'w openFile \<Rightarrow> 'w conn \<Rightarrow> bytes option \<times> 'w conn" where
  "close_postAttrs body f s =
    (if get16 body 2 AND closeFlagPostQueryAttrib \<noteq> 0 \<and> \<not> of_deleteOnClose f then
       let ((attrs, sz, mtime), s) = of_attrs f s
       in (Some (closeAttrs attrs sz mtime), s)
     else (None, s))"

definition close_file :: "platform \<Rightarrow> 'w openFile \<Rightarrow> 'w conn \<Rightarrow> u32 option \<times> 'w conn" where
  "close_file P f s =
    (let (err, s) = (case of_handle f of
           Some h \<Rightarrow> call (f_Close (sh_fs (of_share f)) h) s
         | None \<Rightarrow> (None, s))
     in case err of
          Some e \<Rightarrow> (Some (mapOSError P (Some e)), s)
        | None \<Rightarrow>
            if of_deleteOnClose f then
              let (err, s) = call (fs_Remove (sh_fs (of_share f)) (of_path f)) s
              in (case err of
                    Some e \<Rightarrow> (Some (mapOSError P (Some e)), s)
                  | None \<Rightarrow> (None, s))
            else (None, s))"

definition handleClose :: "'w server \<Rightarrow> bytes \<Rightarrow> 'w conn \<Rightarrow> 'w reply" where
  "handleClose S body s =
    (if length body < 24 then failure statusInvalidParameter s
     else
       let (fo, s) = removeHandle (slice body 8 24) s
       in (case fo of
             None \<Rightarrow> ((statusSuccess, closeResponseBody), s)
           | Some f \<Rightarrow>
               let (postAttrs, s) = close_postAttrs body f s;
                   (failed, s) = close_file (sv_GOOS S) f s
               in (case failed of
                     Some status \<Rightarrow> failure status s
                   | None \<Rightarrow>
                       ((statusSuccess,
                         (case postAttrs of Some b \<Rightarrow> b | None \<Rightarrow> closeResponseBody)), s))))"

lemma length_readResponseBody [simp]: "length (readResponseBody b) = length b"
  by (simp add: readResponseBody_def Let_def)


section \<open>The effect of the operations\<close>

lemma call_handle_steps:
  assumes "share_keeps I sh"
  shows "call (f_ReadAt (sh_fs sh) h n off) s = (r1, s') \<Longrightarrow> world_step I s s'"
    and "call (f_Sync (sh_fs sh) h) s = (r2, s') \<Longrightarrow> world_step I s s'"
    and "call (f_Close (sh_fs sh) h) s = (r2, s') \<Longrightarrow> world_step I s s'"
    and "call (fs_ReadDir (sh_fs sh) p) s = (r3, s') \<Longrightarrow> world_step I s s'"
    and "call (fs_Statfs (sh_fs sh)) s = (r4, s') \<Longrightarrow> world_step I s s'"
    and "\<not> sh_readOnly sh \<Longrightarrow> call (f_WriteAt (sh_fs sh) h b off) s = (r5, s') \<Longrightarrow> world_step I s s'"
    and "\<not> sh_readOnly sh \<Longrightarrow> call (fs_Remove (sh_fs sh) p) s = (r2, s') \<Longrightarrow> world_step I s s'"
    and "\<not> sh_readOnly sh \<Longrightarrow> call (fs_Rename (sh_fs sh) p p') s = (r2, s') \<Longrightarrow> world_step I s s'"
    and "\<not> sh_readOnly sh \<Longrightarrow> call (fs_Truncate (sh_fs sh) p m) s = (r2, s') \<Longrightarrow> world_step I s s'"
    and "\<not> sh_readOnly sh \<Longrightarrow> call (fs_Chtimes (sh_fs sh) p t) s = (r2, s') \<Longrightarrow> world_step I s s'"
    and "\<not> sh_readOnly sh \<Longrightarrow> call (f_Truncate (sh_fs sh) h m) s = (r2, s') \<Longrightarrow> world_step I s s'"
  by (auto elim!: world_step_call_eq intro!: query_facts [OF assms] mutator_facts [OF assms])

lemma share_of_handle:
  "server_keeps I S \<Longrightarrow> shares_from S s \<Longrightarrow> getHandle fid s = Some f \<Longrightarrow> share_keeps I (of_share f)"
  using shares_from_get [of S s fid f] by (auto simp: server_keeps_def)

lemma handleRead_world:
  assumes "handleRead S body s = (r, s')" and "server_keeps I S" and "shares_from S s"
  shows "world_step I s s'"
  using assms(1) share_of_handle [OF assms(2,3)]
  by (auto simp: handleRead_def Let_def split: if_splits option.splits prod.splits
      intro: call_handle_steps(1))

lemma handleRead_effect:
  assumes "handleRead S body s = (r, s')" and "server_keeps I S" and "shares_from S s"
  shows "effect S I s s'"
  by (rule effect_world [OF assms(3) handleRead_world [OF assms]])

lemma handleWrite_world:
  assumes "handleWrite S body s = (r, s')" and "server_keeps I S" and "shares_from S s"
  shows "world_step I s s'"
  using assms(1) share_of_handle [OF assms(2,3)]
  by (auto simp: handleWrite_def Let_def split: if_splits option.splits prod.splits
      intro: call_handle_steps(6))

lemma handleWrite_effect:
  assumes "handleWrite S body s = (r, s')" and "server_keeps I S" and "shares_from S s"
  shows "effect S I s s'"
  by (rule effect_world [OF assms(3) handleWrite_world [OF assms]])

lemma handleFlush_world:
  assumes "handleFlush S body s = (r, s')" and "server_keeps I S" and "shares_from S s"
  shows "world_step I s s'"
  using assms(1) share_of_handle [OF assms(2,3)]
  by (auto simp: handleFlush_def Let_def split: if_splits option.splits prod.splits
      intro: call_handle_steps(2))

lemma handleFlush_effect:
  assumes "handleFlush S body s = (r, s')" and "server_keeps I S" and "shares_from S s"
  shows "effect S I s s'"
  by (rule effect_world [OF assms(3) handleFlush_world [OF assms]])

lemma close_file_step:
  assumes "close_file P f s = (r, s')" and "share_keeps I (of_share f)"
    and "sh_readOnly (of_share f) \<Longrightarrow> \<not> of_deleteOnClose f"
  shows "world_step I s s'"
proof -
  obtain err s1 where c: "(case of_handle f of
      Some h \<Rightarrow> call (f_Close (sh_fs (of_share f)) h) s | None \<Rightarrow> (None, s)) = (err, s1)"
    by fastforce
  then have s1: "world_step I s s1"
    by (auto split: option.splits intro: call_handle_steps(3) [OF assms(2)])
  have "world_step I s1 s'"
    using assms(1,3) c
    by (auto simp: close_file_def split: option.splits if_splits prod.splits
        intro: call_handle_steps(7) [OF assms(2)])
  with s1 show ?thesis by (rule world_step_trans)
qed

lemma close_postAttrs_step:
  "close_postAttrs body f s = (r, s') \<Longrightarrow> share_keeps I (of_share f) \<Longrightarrow> world_step I s s'"
  by (auto simp: close_postAttrs_def intro: observe_step(1) split: if_splits prod.splits)

text \<open>CLOSE removes the key first; everything after it happens in the world.\<close>

lemma removeHandle_cls:
  "removeHandle fid s = (fo, s1) \<Longrightarrow> fo = getHandle fid s \<and> s1 = cls_key (fileIDKey fid) s"
  by (auto simp: removeHandle_def cls_key_def getHandle_def Let_def)

lemma handleClose_step:
  assumes "handleClose S body s = (r, s')" and I: "server_keeps I S" and sf: "shares_from S s"
    and "24 \<le> length body"
  shows "world_step I (cls_key (fileIDKey (slice body 8 24)) s) s'"
proof -
  obtain fo s1 where r: "removeHandle (slice body 8 24) s = (fo, s1)" by fastforce
  note s1 = removeHandle_cls [OF r]
  have "world_step I s1 s'"
  proof (cases fo)
    case None
    then show ?thesis using assms(1,4) r by (auto simp: handleClose_def)
  next
    case (Some f)
    then have f: "getHandle (slice body 8 24) s = Some f" using s1 by simp
    have k: "share_keeps I (of_share f)" using share_of_handle [OF I sf f] .
    obtain pa s2 where p: "close_postAttrs body f s1 = (pa, s2)" by fastforce
    obtain fl s3 where c: "close_file (sv_GOOS S) f s2 = (fl, s3)" by fastforce
    have "world_step I s1 s3"
      using close_postAttrs_step [OF p k] close_file_step [OF c k] shares_from_get [OF sf f]
      by (meson world_step_trans)
    moreover have "s' = s3" using assms(1,4) r Some p c by (auto simp: handleClose_def split: option.splits)
    ultimately show ?thesis by simp
  qed
  then show ?thesis using s1 by simp
qed

lemma handleClose_effect:
  assumes "handleClose S body s = (r, s')" and I: "server_keeps I S" and sf: "shares_from S s"
  shows "effect S I s s'"
proof (cases "length body < 24")
  case True
  then show ?thesis using assms by (auto simp: handleClose_def effect_refl)
next
  case False
  let ?s1 = "cls_key (fileIDKey (slice body 8 24)) s"
  have s': "world_step I ?s1 s'" using handleClose_step [OF assms] False by simp
  have sf1: "shares_from S ?s1"
    using sf by (auto simp: shares_from_def cls_key_def AList.delete_eq)
  have "ht.tstep s ?s1" by (rule ht.Close)
  then have "ht.tstep\<^sup>*\<^sup>* s s'"
    using tsteps_frame [OF world_step_same_table [OF s']] by (meson converse_rtranclp_into_rtranclp)
  then show ?thesis
    using s' shares_from_world [OF sf1 s'] by (auto simp: effect_def world_step_def cls_key_def)
qed

end
