(* ===== verification/Info.thy ===== *)
theory Info
  imports FileIO
begin

text \<open>
  The information classes of \<open>internal/smb/info.go\<close>: QUERY_INFO and SET_INFO with their
  encoders. The lemmas bound a QUERY_INFO answer by the client's buffer, give the layout of the
  structures, and the effect of each SET_INFO class on the backend and the open.
\<close>

abbreviation infoTypeFile :: byte where "infoTypeFile \<equiv> 0x01"
abbreviation infoTypeFilesystem :: byte where "infoTypeFilesystem \<equiv> 0x02"
abbreviation classFileBasic :: byte where "classFileBasic \<equiv> 0x04"
abbreviation classFileStandard :: byte where "classFileStandard \<equiv> 0x05"
abbreviation classFileInternal :: byte where "classFileInternal \<equiv> 0x06"
abbreviation classFileEa :: byte where "classFileEa \<equiv> 0x07"
abbreviation classFileRename :: byte where "classFileRename \<equiv> 0x0A"
abbreviation classFileDisposition :: byte where "classFileDisposition \<equiv> 0x0D"
abbreviation classFileAll :: byte where "classFileAll \<equiv> 0x12"
abbreviation classFileAllocation :: byte where "classFileAllocation \<equiv> 0x13"
abbreviation classFileEndOfFile :: byte where "classFileEndOfFile \<equiv> 0x14"
abbreviation classFileNetworkOpen :: byte where "classFileNetworkOpen \<equiv> 0x22"
abbreviation classFileAttributeTag :: byte where "classFileAttributeTag \<equiv> 0x23"
abbreviation classFsVolume :: byte where "classFsVolume \<equiv> 0x01"
abbreviation classFsSize :: byte where "classFsSize \<equiv> 0x03"
abbreviation classFsDevice :: byte where "classFsDevice \<equiv> 0x04"
abbreviation classFsAttribute :: byte where "classFsAttribute \<equiv> 0x05"
abbreviation classFsFullSize :: byte where "classFsFullSize \<equiv> 0x07"

section \<open>Encoders\<close>

definition infoResponseBody :: "bytes \<Rightarrow> bytes" where
  "infoResponseBody info =
    (let body = mk (8 + length info);
         body = put16 body 0 9;
         body = put16 body 2 (of_nat (smb2HeaderSize + 8));
         body = put32 body 4 (of_nat (length info))
     in copy_at body 8 info)"

definition setInfoResponseBody :: bytes where
  "setInfoResponseBody = put16 (mk 2) 0 2"

definition fileBasicInfo :: "u32 \<Rightarrow> gotime \<Rightarrow> bytes" where
  "fileBasicInfo attrs t =
    (let b = mk 40;
         ft = timeToFiletime t;
         b = put64 b 0 ft;
         b = put64 b 8 ft;
         b = put64 b 16 ft;
         b = put64 b 24 ft
     in put32 b 32 attrs)"

definition pathFileID :: "crypto \<Rightarrow> gostring \<Rightarrow> gostring \<Rightarrow> u64" where
  "pathFileID C shareName path = un64 (md5_Sum C (shareName @ [0] @ path))"

definition fileInternalInfo :: "u64 \<Rightarrow> bytes" where
  "fileInternalInfo inode = put64 (mk 8) 0 inode"

definition fileNetworkOpenInfo :: "u32 \<Rightarrow> i64 \<Rightarrow> gotime \<Rightarrow> bytes" where
  "fileNetworkOpenInfo attrs sz t =
    (let b = mk 56;
         ft = timeToFiletime t;
         b = put64 b 0 ft;
         b = put64 b 8 ft;
         b = put64 b 16 ft;
         b = put64 b 24 ft;
         b = put64 b 32 sz;
         b = put64 b 40 sz
     in put32 b 48 attrs)"

definition fileAttributeTagInfo :: "u32 \<Rightarrow> bytes" where
  "fileAttributeTagInfo attrs = put32 (mk 8) 0 attrs"

definition fileStandardInfo :: "i64 \<Rightarrow> bool \<Rightarrow> bytes" where
  "fileStandardInfo sz isDir =
    (let b = mk 24;
         b = put64 b 0 sz;
         b = put64 b 8 sz;
         b = put32 b 16 1
     in if isDir then put8 b 21 1 else b)"

definition fileAllInfo :: "u32 \<Rightarrow> i64 \<Rightarrow> gotime \<Rightarrow> gostring \<Rightarrow> bool \<Rightarrow> u64 \<Rightarrow> bytes" where
  "fileAllInfo attrs sz t name isDir fileID =
    (let nameBytes = stringToUTF16le name;
         nameBytes = (if length nameBytes = 0 then [0, 0] else nameBytes);
         b = mk (96 + 4 + length nameBytes);
         b = copy_at b 0 (fileBasicInfo attrs t);
         b = copy_at b 40 (fileStandardInfo sz isDir);
         b = put64 b 64 fileID;
         b = put32 b 96 (of_nat (length nameBytes))
     in copy_at b 100 nameBytes)"

text \<open>\<open>n\<close> is a signed count of bytes; the division is of a positive number.\<close>

definition allocUnits :: "i64 \<Rightarrow> nat \<Rightarrow> u64" where
  "allocUnits n unit = (if sint n \<le> 0 then 0 else of_nat (unat n div unit))"

definition fsFullSizeInfo :: "'w share \<Rightarrow> 'w conn \<Rightarrow> bytes \<times> 'w conn" where
  "fsFullSizeInfo sh s =
    (let ((total, free, _), s) = call (fs_Statfs (sh_fs sh)) s;
         unit = 512 * 8;
         b = mk 32;
         b = put64 b 0 (allocUnits total unit);
         b = put64 b 8 (allocUnits free unit);
         b = put64 b 16 (allocUnits free unit);
         b = put32 b 24 8
     in (put32 b 28 512, s))"

definition fsSizeInfo :: "'w share \<Rightarrow> 'w conn \<Rightarrow> bytes \<times> 'w conn" where
  "fsSizeInfo sh s =
    (let ((total, free, _), s) = call (fs_Statfs (sh_fs sh)) s;
         unit = 512 * 8;
         b = mk 24;
         b = put64 b 0 (allocUnits total unit);
         b = put64 b 8 (allocUnits free unit);
         b = put32 b 16 8
     in (put32 b 20 512, s))"

definition fsAttributeInfo :: "bool \<Rightarrow> bytes" where
  "fsAttributeInfo readOnly =
    (let name = stringToUTF16le (ascii ''psmb'');
         b = mk (12 + length name);
         attrs = (0x00000002 :: u32);
         attrs = (if readOnly then attrs OR 0x00080000 else attrs);
         b = put32 b 0 attrs;
         b = put32 b 4 255;
         b = put32 b 8 (of_nat (length name))
     in copy_at b 12 name)"

definition fsVolumeInfo :: "bytes \<Rightarrow> gostring \<Rightarrow> bytes" where
  "fsVolumeInfo guid label =
    (let labelBytes = stringToUTF16le label;
         b = mk (18 + length labelBytes);
         b = put32 b 8 (get32 guid 0);
         b = put32 b 12 (of_nat (length labelBytes))
     in copy_at b 18 labelBytes)"

definition fsDeviceInfo :: bytes where
  "fsDeviceInfo = put32 (mk 8) 0 0x00000007"

section \<open>QUERY_INFO\<close>

text \<open>The switch over the classes: \<open>None\<close> is the early return with STATUS_NOT_SUPPORTED.\<close>

definition query_info_buffer ::
    "'w server \<Rightarrow> byte \<Rightarrow> byte \<Rightarrow> 'w openFile \<Rightarrow> 'w conn \<Rightarrow> bytes option \<times> 'w conn" where
  "query_info_buffer S infoType infoClass f s =
    (if infoType = infoTypeFile then
       let ((attrs, sz, mtime), s) = of_attrs f s;
           isDir = (attrs AND fileAttrDirectory \<noteq> 0);
           fileID = pathFileID (sv_C S) (sh_name (of_share f)) (of_path f)
       in (if infoClass = classFileAll then
             Some (fileAllInfo attrs sz mtime (of_name f) isDir fileID)
           else if infoClass = classFileStandard then Some (fileStandardInfo sz isDir)
           else if infoClass = classFileBasic then Some (fileBasicInfo attrs mtime)
           else if infoClass = classFileInternal then Some (fileInternalInfo fileID)
           else if infoClass = classFileEa then Some (mk 4)
           else if infoClass = classFileNetworkOpen then Some (fileNetworkOpenInfo attrs sz mtime)
           else if infoClass = classFileAttributeTag then Some (fileAttributeTagInfo attrs)
           else None, s)
     else if infoType = infoTypeFilesystem then
       if infoClass = classFsFullSize then map_prod Some id (fsFullSizeInfo (of_share f) s)
       else if infoClass = classFsSize then map_prod Some id (fsSizeInfo (of_share f) s)
       else if infoClass = classFsAttribute then
         (Some (fsAttributeInfo (sh_readOnly (of_share f))), s)
       else if infoClass = classFsVolume then
         (Some (fsVolumeInfo (sv_serverGUID S) (sh_name (of_share f))), s)
       else if infoClass = classFsDevice then (Some fsDeviceInfo, s)
       else (None, s)
     else (None, s))"

definition handleQueryInfo :: "'w server \<Rightarrow> bytes \<Rightarrow> 'w conn \<Rightarrow> 'w reply" where
  "handleQueryInfo S body s =
    (if length body < 40 then failure statusInvalidParameter s
     else
       let infoType = body ! 2;
           infoClass = body ! 3
       in (case getHandle (slice body 24 40) s of
             None \<Rightarrow> failure statusInvalidParameter s
           | Some f \<Rightarrow>
               let (info, s) = query_info_buffer S infoType infoClass f s
               in (case info of
                     None \<Rightarrow> failure statusNotSupported s
                   | Some info \<Rightarrow>
                       let outLen = unat (get32 body 4)
                       in if length info > outLen
                          then ((statusBufferOverflow, infoResponseBody (take outLen info)), s)
                          else ((statusSuccess, infoResponseBody info), s))))"

section \<open>SET_INFO\<close>

definition truncate :: "'w openFile \<Rightarrow> i64 \<Rightarrow> 'w conn \<Rightarrow> goerror option \<times> 'w conn" where
  "truncate f sz s =
    (case of_handle f of
       Some h \<Rightarrow> call (f_Truncate (sh_fs (of_share f)) h sz) s
     | None \<Rightarrow> call (fs_Truncate (sh_fs (of_share f)) (of_path f) sz) s)"

abbreviation set_ok :: "'w conn \<Rightarrow> 'w reply" where
  "set_ok s \<equiv> ((statusSuccess, setInfoResponseBody), s)"

text \<open>
  The cases of the switch in \<open>handleSetInfo\<close>. An assignment to a field of the open is an
  update of the table's entry. The guard \<open>readOnlyFile\<close> stats the file, so it comes after the
  checks that return before it.
\<close>

definition set_disposition :: "'w server \<Rightarrow> 'w openFile \<Rightarrow> bytes \<Rightarrow> 'w conn \<Rightarrow> 'w reply" where
  "set_disposition S f buf s =
    (if length buf < 1 then set_ok s
     else
       let del = (buf ! 0 \<noteq> 0)
       in if del \<and> sh_readOnly (of_share f) then failure statusMediaWriteProtected s
          else
            let (ro, s) = (if del then readOnlyFile f s else (False, s))
            in if ro then failure statusAccessDenied s
               else
                 let (nonempty, s) =
                   (if del \<and> of_isDir f then
                      let (r, s) = call (fs_ReadDir (sh_fs (of_share f)) (of_path f)) s
                      in (case r of Inr entries \<Rightarrow> length entries > 0 | Inl _ \<Rightarrow> False, s)
                    else (False, s))
                 in if nonempty then failure statusDirectoryNotEmpty s
                    else set_ok (addHandle (f\<lparr>of_deleteOnClose := del\<rparr>) s))"

definition set_eof :: "'w server \<Rightarrow> 'w openFile \<Rightarrow> bytes \<Rightarrow> 'w conn \<Rightarrow> 'w reply" where
  "set_eof S f buf s =
    (if length buf < 8 then set_ok s
     else if sh_readOnly (of_share f) then failure statusMediaWriteProtected s
     else
       let (ro, s) = readOnlyFile f s
       in if ro then failure statusAccessDenied s
          else
            let (err, s) = truncate f (get64 buf 0) s
            in (case err of
                  Some e \<Rightarrow> failure (mapOSError (sv_GOOS S) (Some e)) s
                | None \<Rightarrow> set_ok s))"

definition set_allocation :: "'w openFile \<Rightarrow> 'w conn \<Rightarrow> 'w reply" where
  "set_allocation f s =
    (if sh_readOnly (of_share f) then failure statusMediaWriteProtected s
     else
       let (ro, s) = readOnlyFile f s
       in if ro then failure statusAccessDenied s else set_ok s)"

definition set_rename :: "'w server \<Rightarrow> 'w openFile \<Rightarrow> bytes \<Rightarrow> 'w conn \<Rightarrow> 'w reply" where
  "set_rename S f buf s =
    (if sh_readOnly (of_share f) then failure statusMediaWriteProtected s
     else
       let (ro, s) = readOnlyFile f s
       in if ro then failure statusAccessDenied s
          else if length buf < 20 then set_ok s
          else
            let replaceIfExists = (buf ! 0 \<noteq> 0);
                nameLen = unat (get32 buf 16)
            in if 20 + nameLen > length buf then set_ok s
               else
                 let newPath = nameToPath (utf16leToString (slice buf 20 (20 + nameLen)));
                     (collision, s) =
                       (if \<not> replaceIfExists \<and> \<not> EqualFold (sv_U S) newPath (of_path f) then
                          let (r, s) = call (fs_Stat (sh_fs (of_share f)) newPath) s
                          in (case r of Inr _ \<Rightarrow> True | Inl _ \<Rightarrow> False, s)
                        else (False, s))
                 in if collision then failure statusObjectNameCollision s
                    else
                      let (err, s) = call (fs_Rename (sh_fs (of_share f)) (of_path f) newPath) s
                      in (case err of
                            Some e \<Rightarrow> failure (mapOSError (sv_GOOS S) (Some e)) s
                          | None \<Rightarrow> set_ok (addHandle (f\<lparr>of_path := newPath\<rparr>) s)))"

definition set_basic :: "'w openFile \<Rightarrow> bytes \<Rightarrow> 'w conn \<Rightarrow> 'w reply" where
  "set_basic f buf s =
    (if length buf < 32 then set_ok s
     else
       let lastWrite = get64 buf 16
       in if lastWrite = 0 then set_ok s
          else if sh_readOnly (of_share f) then set_ok s
          else
            let (ro, s) = readOnlyFile f s
            in if ro then set_ok s
               else set_ok (snd (call (fs_Chtimes (sh_fs (of_share f)) (of_path f)
                                        (filetimeToTime lastWrite)) s)))"

definition handleSetInfo :: "'w server \<Rightarrow> bytes \<Rightarrow> 'w conn \<Rightarrow> 'w reply" where
  "handleSetInfo S body s =
    (if length body < 32 then failure statusInvalidParameter s
     else
       let infoType = body ! 2;
           infoClass = body ! 3;
           bufLen = unat (get32 body 4);
           bufOff = int (unat (get16 body 8)) - int smb2HeaderSize
       in (case getHandle (slice body 16 32) s of
             None \<Rightarrow> failure statusInvalidParameter s
           | Some f \<Rightarrow>
               if bufOff < 0 \<or> bufOff + int bufLen > int (length body)
               then failure statusInvalidParameter s
               else
                 let buf = slice body (nat bufOff) (nat bufOff + bufLen)
                 in if infoType \<noteq> infoTypeFile then failure statusNotSupported s
                    else if infoClass = classFileDisposition then set_disposition S f buf s
                    else if infoClass = classFileEndOfFile then set_eof S f buf s
                    else if infoClass = classFileAllocation then set_allocation f s
                    else if infoClass = classFileRename then set_rename S f buf s
                    else if infoClass = classFileBasic then set_basic f buf s
                    else failure statusInvalidInfoClass s))"


section \<open>The effect of the operations\<close>

lemma query_info_buffer_step:
  assumes "query_info_buffer S ty cl f s = (r, s')" and "share_keeps I (of_share f)"
  shows "world_step I s s'"
  using assms(1)
  by (auto simp: query_info_buffer_def fsFullSizeInfo_def fsSizeInfo_def Let_def
      intro: observe_step(1) [OF assms(2)] call_handle_steps(5) [OF assms(2)]
      split: if_splits prod.splits)

lemma handleQueryInfo_world:
  assumes "handleQueryInfo S body s = (r, s')" and "server_keeps I S" and "shares_from S s"
  shows "world_step I s s'"
  using assms(1) share_of_handle [OF assms(2,3)]
  by (auto simp: handleQueryInfo_def Let_def split: if_splits option.splits prod.splits
      intro: query_info_buffer_step)

lemma handleQueryInfo_effect:
  assumes "handleQueryInfo S body s = (r, s')" and "server_keeps I S" and "shares_from S s"
  shows "effect S I s s'"
  by (rule effect_world [OF assms(3) handleQueryInfo_world [OF assms]])

lemma truncate_step:
  "truncate f n s = (r, s') \<Longrightarrow> share_keeps I (of_share f) \<Longrightarrow> \<not> sh_readOnly (of_share f) \<Longrightarrow>
   world_step I s s'"
  by (auto simp: truncate_def intro: call_handle_steps(9,11) split: option.splits)

lemma set_eof_step:
  assumes "set_eof S f buf s = (r, s')" and k: "share_keeps I (of_share f)"
  shows "world_step I s s'"
proof -
  obtain ro s1 where ro: "readOnlyFile f s = (ro, s1)" by fastforce
  obtain er s2 where er: "truncate f (get64 buf 0) s1 = (er, s2)" by fastforce
  note s1 = observe_step(2) [OF k ro]
  show ?thesis
  proof (cases "length buf < 8 \<or> sh_readOnly (of_share f) \<or> ro")
    case True
    then show ?thesis using assms(1) ro s1 by (auto simp: set_eof_def split: if_splits)
  next
    case False
    then have "s' = s2" using assms(1) ro er by (auto simp: set_eof_def split: option.splits)
    then show ?thesis using world_step_trans [OF s1 truncate_step [OF er k]] False by simp
  qed
qed

lemma set_allocation_step:
  "set_allocation f s = (r, s') \<Longrightarrow> share_keeps I (of_share f) \<Longrightarrow> world_step I s s'"
  by (auto simp: set_allocation_def intro: observe_step(2) split: if_splits prod.splits)

lemma set_basic_step:
  assumes "set_basic f buf s = (r, s')" and k: "share_keeps I (of_share f)"
  shows "world_step I s s'"
proof -
  obtain ro s1 where ro: "readOnlyFile f s = (ro, s1)" by fastforce
  note s1 = observe_step(2) [OF k ro]
  obtain er s2 where er: "call (fs_Chtimes (sh_fs (of_share f)) (of_path f)
      (filetimeToTime (get64 buf 16))) s1 = (er, s2)" by fastforce
  show ?thesis
  proof (cases "length buf < 32 \<or> get64 buf 16 = 0 \<or> sh_readOnly (of_share f) \<or> ro")
    case True
    then show ?thesis using assms(1) ro s1 by (auto simp: set_basic_def Let_def split: if_splits)
  next
    case False
    then have "s' = s2" using assms(1) ro er by (auto simp: set_basic_def Let_def)
    then show ?thesis using world_step_trans [OF s1 call_handle_steps(10) [OF k _ er]] False by simp
  qed
qed

text \<open>Disposition and rename: nothing but the world changes, or the mark or the path of the open does.\<close>

lemma set_disposition_cases:
  assumes "set_disposition S f buf s = (r, s')"
  obtains (kept) "\<And>I. share_keeps I (of_share f) \<Longrightarrow> world_step I s s'"
    | (marked) s1 del where "s' = addHandle (f\<lparr>of_deleteOnClose := del\<rparr>) s1" "\<not> (del \<and> sh_readOnly (of_share f))"
      "\<And>I. share_keeps I (of_share f) \<Longrightarrow> world_step I s s1"
proof -
  define del where "del = (buf ! 0 \<noteq> 0)"
  obtain ro s1 where ro: "(if del then readOnlyFile f s else (False, s)) = (ro, s1)" by fastforce
  have s1: "world_step I s s1" if "share_keeps I (of_share f)" for I
    using ro observe_step(2) [OF that, of s ro s1] by (auto split: if_splits)
  obtain ne s2 where ne: "(if del \<and> of_isDir f then
      let (r, s) = call (fs_ReadDir (sh_fs (of_share f)) (of_path f)) s1
      in (case r of Inr entries \<Rightarrow> length entries > 0 | Inl _ \<Rightarrow> False, s)
    else (False, s1)) = (ne, s2)" by fastforce
  have s2: "world_step I s s2" if k: "share_keeps I (of_share f)" for I
  proof -
    have "world_step I s1 s2"
      using ne by (auto split: if_splits prod.splits intro: call_handle_steps(4) [OF k])
    with s1 [OF k] show ?thesis by (rule world_step_trans)
  qed
  have "s' \<in> {s, s1, s2} \<or> s' = addHandle (f\<lparr>of_deleteOnClose := del\<rparr>) s2 \<and> \<not> (del \<and> sh_readOnly (of_share f))"
    using assms ro ne unfolding set_disposition_def Let_def del_def [symmetric] by (auto split: if_splits)
  then show thesis
  proof
    assume "s' \<in> {s, s1, s2}"
    then have "world_step I s s'" if "share_keeps I (of_share f)" for I using s1 [OF that] s2 [OF that] by auto
    then show thesis by (rule kept)
  next
    assume "s' = addHandle (f\<lparr>of_deleteOnClose := del\<rparr>) s2 \<and> \<not> (del \<and> sh_readOnly (of_share f))"
    then show thesis using s2 by (intro marked) auto
  qed
qed

lemma set_disposition_effect:
  assumes "set_disposition S f buf s = (r, s')" and k: "share_keeps I (of_share f)"
    and sf: "shares_from S s" and g: "getHandle fid s = Some f"
  shows "effect S I s s'"
  using assms(1)
proof (cases rule: set_disposition_cases)
  case kept
  then show ?thesis using k by (auto intro: effect_world [OF sf])
next
  case (marked s1 del)
  then show ?thesis
    using shares_from_get [OF sf g] by (auto intro!: effect_update [OF sf g marked(3) [OF k]])
qed

lemma set_rename_cases:
  assumes "set_rename S f buf s = (r, s')"
  obtains (kept) "\<And>I. share_keeps I (of_share f) \<Longrightarrow> world_step I s s'"
    | (renamed) s1 name where "s' = addHandle (f\<lparr>of_path := nameToPath name\<rparr>) s1" "\<not> sh_readOnly (of_share f)"
      "\<And>I. share_keeps I (of_share f) \<Longrightarrow> world_step I s s1"
proof (cases "sh_readOnly (of_share f)")
  case True
  then show thesis using assms kept by (auto simp: set_rename_def)
next
  case False
  define name where "name = utf16leToString (slice buf 20 (20 + unat (get32 buf 16)))"
  obtain ro s1 where ro: "readOnlyFile f s = (ro, s1)" by fastforce
  obtain co s2 where co: "(if buf ! 0 = 0 \<and> \<not> EqualFold (sv_U S) (nameToPath name) (of_path f) then
      let (r, s) = call (fs_Stat (sh_fs (of_share f)) (nameToPath name)) s1
      in (case r of Inr _ \<Rightarrow> True | Inl _ \<Rightarrow> False, s)
    else (False, s1)) = (co, s2)" by fastforce
  obtain er s3 where er: "call (fs_Rename (sh_fs (of_share f)) (of_path f) (nameToPath name)) s2 = (er, s3)"
    by fastforce
  have w: "world_step I s s1" "world_step I s s2" "world_step I s s3" if k: "share_keeps I (of_share f)" for I
  proof -
    show s1: "world_step I s s1" by (rule observe_step(2) [OF k ro])
    have "world_step I s1 s2"
      using co by (auto split: if_splits prod.splits intro: stat_step [OF k])
    with s1 show s2: "world_step I s s2" by (rule world_step_trans)
    show "world_step I s s3" using world_step_trans [OF s2 call_handle_steps(8) [OF k False er]] .
  qed
  have "s' \<in> {s1, s2, s3} \<or> s' = addHandle (f\<lparr>of_path := nameToPath name\<rparr>) s3"
    using assms ro co er False
    unfolding set_rename_def Let_def name_def [symmetric] not_not
    by (auto split: if_splits option.splits)
  then show thesis
  proof
    assume "s' \<in> {s1, s2, s3}"
    then have "world_step I s s'" if "share_keeps I (of_share f)" for I using w [OF that] by auto
    then show thesis by (rule kept)
  next
    assume "s' = addHandle (f\<lparr>of_path := nameToPath name\<rparr>) s3"
    then show thesis using w(3) False by (intro renamed) auto
  qed
qed

lemma set_rename_effect:
  assumes "set_rename S f buf s = (r, s')" and k: "share_keeps I (of_share f)"
    and sf: "shares_from S s" and g: "getHandle fid s = Some f"
  shows "effect S I s s'"
  using assms(1)
proof (cases rule: set_rename_cases)
  case kept
  then show ?thesis using k by (auto intro: effect_world [OF sf])
next
  case (renamed s1 name)
  then show ?thesis using shares_from_get [OF sf g] by (auto intro!: effect_update [OF sf g renamed(3) [OF k]])
qed

lemma handleSetInfo_effect:
  assumes "handleSetInfo S body s = (r, s')" and "server_keeps I S" and sf: "shares_from S s"
  shows "effect S I s s'"
proof (cases "getHandle (slice body 16 32) s")
  case None
  then show ?thesis using assms by (auto simp: handleSetInfo_def Let_def effect_refl split: if_splits)
next
  case (Some f)
  have k: "share_keeps I (of_share f)" using share_of_handle [OF assms(2,3) Some] .
  show ?thesis
    using assms(1) Some effect_refl [OF sf]
      effect_world [OF sf set_eof_step [OF _ k]] effect_world [OF sf set_allocation_step [OF _ k]]
      effect_world [OF sf set_basic_step [OF _ k]] set_disposition_effect [OF _ k sf Some]
      set_rename_effect [OF _ k sf Some]
    by (auto simp: handleSetInfo_def Let_def split: if_splits)
qed

end
