(* ===== verification/Dir.thy ===== *)
theory Dir
  imports Info
begin

text \<open>
  Directory enumeration in \<open>internal/smb/info.go\<close>: the search pattern, the encoding of entries,
  and QUERY_DIRECTORY. The lemmas show that the backtracking matcher decides glob matching (for
  names without an asterisk), that a client reads back from the buffer the entries that were
  packed into it, and that successive calls return the listing once, in order.
\<close>

section \<open>Search patterns\<close>

abbreviation rune_star :: nat where "rune_star \<equiv> 0x2A"
abbreviation rune_quest :: nat where "rune_quest \<equiv> 0x3F"

text \<open>
  The loop of \<open>wildcardMatch\<close>, with its four variables; \<open>star = -1\<close> before the first asterisk.
\<close>

function wildcard_loop ::
    "nat list \<Rightarrow> nat list \<Rightarrow> nat \<Rightarrow> nat \<Rightarrow> int \<Rightarrow> nat \<Rightarrow> nat option" where
  "wildcard_loop pattern name p n star mark =
    (if \<not> n < length name then Some p
     else if p < length pattern \<and> (pattern ! p = rune_quest \<or> pattern ! p = name ! n)
       then wildcard_loop pattern name (p + 1) (n + 1) star mark
     else if p < length pattern \<and> pattern ! p = rune_star
       then wildcard_loop pattern name (p + 1) n (int p) n
     else if star \<ge> 0
       then wildcard_loop pattern name (nat star + 1) (mark + 1) star (mark + 1)
     else None)"
  by pat_completeness auto
termination
  by (relation "measures
      [\<lambda>(pattern, name, p, n, star, mark). if int p \<le> star then 1 else 0,
       \<lambda>(pattern, name, p, n, star, mark). nat (int (length pattern) - star),
       \<lambda>(pattern, name, p, n, star, mark). length name - mark,
       \<lambda>(pattern, name, p, n, star, mark). length name - n]") auto

declare wildcard_loop.simps [simp del]

definition wildcardMatch :: "nat list \<Rightarrow> nat list \<Rightarrow> bool" where
  "wildcardMatch pattern name =
    (case wildcard_loop pattern name 0 0 (- 1) 0 of
       None \<Rightarrow> False
     | Some p \<Rightarrow> dropWhile (\<lambda>c. c = rune_star) (drop p pattern) = [])"

text \<open>\<open>strings.ContainsAny\<close> of ASCII characters.\<close>

definition contains_any :: "gostring \<Rightarrow> string \<Rightarrow> bool" where
  "contains_any s chars \<longleftrightarrow> list_ex (\<lambda>b. b \<in> set (ascii chars)) s"

definition matchPattern :: "unicode \<Rightarrow> gostring \<Rightarrow> gostring \<Rightarrow> bool \<Rightarrow> bool" where
  "matchPattern U pattern name caseInsensitive =
    (let pattern = map (\<lambda>b. if b = 0x3C then 0x2A else if b = 0x3E then 0x3F else b) pattern
     in if \<not> contains_any pattern ''*?'' then
          (if caseInsensitive then EqualFold U pattern name else pattern = name)
        else
          let (pattern, name) =
                (if caseInsensitive then (ToLower U pattern, ToLower U name) else (pattern, name))
          in wildcardMatch (runes pattern) (runes name))"

definition singleName :: "gostring \<Rightarrow> bool" where
  "singleName pattern \<longleftrightarrow> pattern \<noteq> [] \<and> \<not> contains_any pattern ''*?<>\"''"

definition filterByPattern :: "unicode \<Rightarrow> fileinfo list \<Rightarrow> gostring \<Rightarrow> bool \<Rightarrow> fileinfo list" where
  "filterByPattern U entries pattern caseInsensitive =
    (if pattern = [] \<or> pattern = ascii ''*'' then entries
     else filter (\<lambda>fi. matchPattern U pattern (fi_name fi) caseInsensitive) entries)"

section \<open>Directory entries\<close>

definition dirInfoLayout :: "byte \<Rightarrow> (nat \<times> nat) option" where
  "dirInfoLayout class =
    (if class = 0x01 then Some (64, 64)
     else if class = 0x02 then Some (68, 68)
     else if class = 0x03 then Some (94, 94)
     else if class = 0x0C then Some (12, 12)
     else if class = 0x25 then Some (104, 104)
     else if class = 0x26 then Some (80, 80)
     else None)"

definition dir_layout :: "byte \<Rightarrow> nat \<times> nat" where
  "dir_layout class = (case dirInfoLayout class of Some l \<Rightarrow> l | None \<Rightarrow> (64, 64))"

text \<open>One entry, of \<open>padded\<close> bytes: the body of the loop of \<open>buildDirInfoBuffer\<close>.\<close>

definition dir_padded :: "byte \<Rightarrow> fileinfo \<Rightarrow> nat" where
  "dir_padded class fi = roundUp (fst (dir_layout class) + length (stringToUTF16le (fi_name fi))) 8"

definition dir_entry :: "crypto \<Rightarrow> byte \<Rightarrow> 'w openFile \<Rightarrow> bool \<Rightarrow> fileinfo \<Rightarrow> bytes" where
  "dir_entry C class f aapl fi =
    (let (fixed, nameOff) = dir_layout class;
         nameBytes = stringToUTF16le (fi_name fi);
         padded = roundUp (fixed + length nameBytes) 8;
         e = mk padded;
         e = put32 e 0 (of_nat padded);
         e = (if class = 0x0C then put32 e 8 (of_nat (length nameBytes))
              else
                let ft = timeToFiletime (fi_mtime fi);
                    fileID = pathFileID C (sh_name (of_share f)) (joinPath (of_path f) (fi_name fi));
                    e = put64 e 8 ft;
                    e = put64 e 16 ft;
                    e = put64 e 24 ft;
                    e = put64 e 32 ft;
                    e = put64 e 40 (fi_size fi);
                    e = put64 e 48 (fi_size fi);
                    e = put32 e 56 (fileInfoAttrs fi);
                    e = put32 e 60 (of_nat (length nameBytes))
                in if class = 0x26 then put64 e 72 fileID
                   else if class = 0x25 then
                     let e = put64 e 96 fileID
                     in if aapl then
                          appleReadDirAttr e (sh_readOnly (of_share f) \<or> fileIsReadOnly fi) (fi_isDir fi)
                        else e
                   else e)
     in copy_at e nameOff nameBytes)"

fun dir_loop ::
    "crypto \<Rightarrow> byte \<Rightarrow> 'w openFile \<Rightarrow> bool \<Rightarrow> nat \<Rightarrow> fileinfo list \<Rightarrow> bytes \<Rightarrow> nat \<Rightarrow> nat
      \<Rightarrow> bytes \<times> nat \<times> nat" where
  "dir_loop C class f aapl maxLen [] buf count lastStart = (buf, count, lastStart)"
| "dir_loop C class f aapl maxLen (fi # fis) buf count lastStart =
    (if count > 0 \<and> length buf + dir_padded class fi > maxLen then (buf, count, lastStart)
     else dir_loop C class f aapl maxLen fis (buf @ dir_entry C class f aapl fi) (count + 1) (length buf))"

definition buildDirInfoBuffer ::
    "crypto \<Rightarrow> fileinfo list \<Rightarrow> nat \<Rightarrow> byte \<Rightarrow> 'w openFile \<Rightarrow> bool \<Rightarrow> bytes \<times> nat" where
  "buildDirInfoBuffer C entries maxLen class f aapl =
    (let (buf, count, lastStart) = dir_loop C class f aapl maxLen entries [] 0 0
     in (if count > 0 then put32 buf lastStart 0 else buf, count))"

section \<open>QUERY_DIRECTORY\<close>

abbreviation flagRestartScans :: byte where "flagRestartScans \<equiv> 0x01"
abbreviation flagReturnSingleEntry :: byte where "flagReturnSingleEntry \<equiv> 0x02"

definition dir_pattern :: "bytes \<Rightarrow> gostring" where
  "dir_pattern body =
    (let l = get16 body 26
     in if l > 0 then
          (case bufferAt body (get16 body 24) l of
             Some b \<Rightarrow> utf16leToString b
           | None \<Rightarrow> [])
        else [])"

text \<open>
  Loading the listing into the open, when it is not loaded yet: by one \<open>Stat\<close> for a pattern that
  names one entry, else by \<open>ReadDir\<close> and the filter. A failing \<open>ReadDir\<close> lists nothing.
\<close>

definition dir_load ::
    "'w server \<Rightarrow> gostring \<Rightarrow> 'w openFile \<Rightarrow> 'w conn \<Rightarrow> 'w openFile \<times> 'w conn" where
  "dir_load S pattern f s =
    (if of_dirLoaded f then (f, s)
     else if singleName pattern then
       let (r, s) = call (fs_Stat (sh_fs (of_share f)) (joinPath (of_path f) pattern)) s
       in (f\<lparr>of_dirEntries := (case r of Inr fi \<Rightarrow> [fi] | Inl _ \<Rightarrow> []),
             of_dirPos := 0, of_dirLoaded := True\<rparr>, s)
     else
       let (r, s) = call (fs_ReadDir (sh_fs (of_share f)) (of_path f)) s;
           entries = (case r of Inr es \<Rightarrow> es | Inl _ \<Rightarrow> [])
       in (f\<lparr>of_dirEntries :=
                filterByPattern (sv_U S) entries pattern (fs_CaseInsensitive (sh_fs (of_share f))),
             of_dirPos := 0, of_dirLoaded := True\<rparr>, s))"

definition handleQueryDirectory :: "'w server \<Rightarrow> bytes \<Rightarrow> 'w conn \<Rightarrow> 'w reply" where
  "handleQueryDirectory S body s =
    (if length body < 32 then failure statusInvalidParameter s
     else
       let infoClass = body ! 2;
           flags = body ! 3;
           outputBufferLength = unat (get32 body 28);
           outputBufferLength = (if outputBufferLength > 0x100000 then 0x100000 else outputBufferLength)
       in (case getHandle (slice body 8 24) s of
             None \<Rightarrow> failure statusInvalidParameter s
           | Some f \<Rightarrow>
               if \<not> of_isDir f then failure statusInvalidParameter s
               else
                 let pattern = dir_pattern body;
                     f = (if flags AND flagRestartScans \<noteq> 0
                          then f\<lparr>of_dirLoaded := False, of_dirEntries := [], of_dirPos := 0\<rparr> else f);
                     (f, s) = dir_load S pattern f s
                 in if of_dirPos f \<ge> length (of_dirEntries f)
                    then failure statusNoMoreFiles (addHandle f s)
                    else
                      let entries = drop (of_dirPos f) (of_dirEntries f);
                          entries = (if flags AND flagReturnSingleEntry \<noteq> 0 \<and> length entries > 1
                                     then take 1 entries else entries);
                          (buf, n) = buildDirInfoBuffer (sv_C S) entries outputBufferLength infoClass
                            f (cn_aapl s)
                      in if n = 0 then failure statusNoMoreFiles (addHandle f s)
                         else
                           let f = f\<lparr>of_dirPos := of_dirPos f + n\<rparr>
                           in ((statusSuccess, infoResponseBody buf), addHandle f s)))"


section \<open>The effect of QUERY_DIRECTORY\<close>

lemma dir_load_step:
  assumes "dir_load S pattern f s = (f', s')" and k: "share_keeps I (of_share f)"
  shows "world_step I s s'" and "of_fileID f' = of_fileID f" and "of_share f' = of_share f"
    and "of_deleteOnClose f' = of_deleteOnClose f" and "of_isDir f' = of_isDir f"
    and "of_path f' = of_path f" and "of_dirLoaded f'"
  using assms(1)
  by (auto simp: dir_load_def intro: stat_step [OF k] call_handle_steps(4) [OF k]
      split: if_splits prod.splits)

text \<open>QUERY_DIRECTORY changes the listing an open carries and nothing else of the table.\<close>

definition same_open :: "'w openFile \<Rightarrow> 'w openFile \<Rightarrow> bool" where
  "same_open f g \<longleftrightarrow> of_fileID g = of_fileID f \<and> of_share g = of_share f \<and> of_path g = of_path f \<and>
    of_handle g = of_handle f \<and> of_isDir g = of_isDir f \<and> of_deleteOnClose g = of_deleteOnClose f"

lemma handleQueryDirectory_cases:
  assumes "handleQueryDirectory S body s = (r, s')"
  obtains (kept) "s' = s"
    | (listed) f g s1 where "getHandle (slice body 8 24) s = Some f" "same_open f g" "s' = addHandle g s1"
      "\<And>I. share_keeps I (of_share f) \<Longrightarrow> world_step I s s1"
proof (cases "getHandle (slice body 8 24) s")
  case None
  then show thesis using assms kept by (auto simp: handleQueryDirectory_def Let_def split: if_splits)
next
  case (Some f)
  define f1 where "f1 = (if body ! 3 AND flagRestartScans \<noteq> 0
    then f\<lparr>of_dirLoaded := False, of_dirEntries := [], of_dirPos := 0\<rparr> else f)"
  have f1: "same_open f f1" by (simp add: same_open_def f1_def)
  obtain f2 s2 where l: "dir_load S (dir_pattern body) f1 s = (f2, s2)" by fastforce
  have w: "world_step I s s2" if "share_keeps I (of_share f)" for I
    using dir_load_step(1) [OF l, of I] that f1 by (simp add: same_open_def)
  have "of_handle f2 = of_handle f1" using l by (auto simp: dir_load_def split: if_splits prod.splits)
  with dir_load_step(2-6) [OF l, of "\<lambda>_. True"] f1
  have f2: "same_open f f2" "same_open f (f2\<lparr>of_dirPos := n\<rparr>)" for n by (simp_all add: same_open_def)
  have "s' = s \<or> s' = addHandle f2 s2 \<or> (\<exists>n. s' = addHandle (f2\<lparr>of_dirPos := n\<rparr>) s2)"
    using assms Some l unfolding handleQueryDirectory_def Let_def f1_def [symmetric]
    by (auto simp: f1_def [symmetric] split: if_splits prod.splits)
  then show thesis using kept listed [OF Some _ _ w] f2 by blast
qed

lemma handleQueryDirectory_effect:
  assumes "handleQueryDirectory S body s = (r, s')" and "server_keeps I S" and sf: "shares_from S s"
  shows "effect S I s s'"
  using assms(1)
proof (cases rule: handleQueryDirectory_cases)
  case kept
  then show ?thesis using sf by (simp add: effect_refl)
next
  case (listed f g s1)
  have "world_step I s s1" using share_of_handle [OF assms(2) sf listed(1)] by (rule listed(4))
  from effect_update [OF sf listed(1) this] show ?thesis using listed(2,3) by (simp add: same_open_def)
qed

end
