(* ===== verification/Transport.thy ===== *)
theory Transport
  imports Packet
begin

text \<open>
  \<open>internal/smb/transport.go\<close>: the Direct TCP framing of SMB2 messages. A reader is the list
  of bytes that will still arrive before the peer closes; what a write puts on the wire is a
  byte list.
\<close>

abbreviation maxMessageSize :: nat where "maxMessageSize \<equiv> 16 * 1024 * 1024"

datatype ioerr = IoEOF | IoUnexpectedEOF | MessageTooLarge nat

text \<open>\<open>io.ReadFull(r, buf)\<close> with \<open>len(buf) = n\<close>, for \<open>n > 0\<close>.\<close>

definition ReadFull :: "nat \<Rightarrow> bytes \<Rightarrow> ioerr + (bytes \<times> bytes)" where
  "ReadFull n r =
    (if n \<le> length r then Inr (take n r, drop n r)
     else Inl (if r = [] then IoEOF else IoUnexpectedEOF))"

definition readMessage :: "bytes \<Rightarrow> ioerr + (bytes \<times> bytes)" where
  "readMessage r =
    (case ReadFull 4 r of
       Inl e \<Rightarrow> Inl e
     | Inr (hdr, r) \<Rightarrow>
         (let n = unat (push_bit 16 (ucast (hdr ! 1) :: u32)
                        OR push_bit 8 (ucast (hdr ! 2) :: u32) OR (ucast (hdr ! 3) :: u32))
          in if n = 0 then Inr ([], r)
             else if n > maxMessageSize then Inl (MessageTooLarge n)
             else ReadFull n r))"

definition writeMessage :: "bytes \<Rightarrow> ioerr + bytes" where
  "writeMessage msg =
    (let n = length msg in
     if n > maxMessageSize then Inl (MessageTooLarge n)
     else
       let frame = [0, of_nat (drop_bit 16 n), of_nat (drop_bit 8 n), of_nat n]
       in Inr (frame @ msg))"

section \<open>Framing lemmas\<close>

lemma bit_less: "n < 2 ^ k \<Longrightarrow> bit (n::nat) i \<Longrightarrow> i < k"
  by (metis bit_take_bit_iff take_bit_nat_eq_self)

lemma frame_length:
  assumes "n < 2 ^ 24"
  shows "unat (push_bit 16 (ucast (of_nat (drop_bit 16 n) :: byte) :: u32)
      OR push_bit 8 (ucast (of_nat (drop_bit 8 n) :: byte)) OR ucast (of_nat n :: byte)) = n"
proof (rule bit_eqI)
  fix i
  have "bit n i \<Longrightarrow> i < 24" using bit_less [OF assms] .
  then show "bit (unat (push_bit 16 (ucast (of_nat (drop_bit 16 n) :: byte) :: u32)
      OR push_bit 8 (ucast (of_nat (drop_bit 8 n) :: byte)) OR ucast (of_nat n :: byte))) i = bit n i"
    by (cases "16 \<le> i"; cases "8 \<le> i") (auto simp: bit_simps)
qed

lemma readMessage_frame:
  assumes "length msg < 2 ^ 24" and "writeMessage msg = Inr w"
  shows "readMessage (w @ rest) = Inr (msg, rest)"
proof -
  let ?f = "[0, of_nat (drop_bit 16 (length msg)), of_nat (drop_bit 8 (length msg)), of_nat (length msg)] :: bytes"
  have w: "w = ?f @ msg" using assms by (simp add: writeMessage_def Let_def)
  have rf: "ReadFull 4 (w @ rest) = Inr (?f, msg @ rest)" by (simp add: w ReadFull_def)
  have n: "unat (push_bit 16 (ucast (?f ! 1) :: u32) OR push_bit 8 (ucast (?f ! 2) :: u32)
      OR (ucast (?f ! 3) :: u32)) = length msg"
    using frame_length [OF assms(1)] by (simp add: numeral_2_eq_2 numeral_3_eq_3)
  show ?thesis
    unfolding readMessage_def rf sum.case prod.case n Let_def
    using assms(1) by (simp add: ReadFull_def)
qed

lemma readMessage_consumes: "readMessage r = Inr (msg, rest) \<Longrightarrow> length rest < length r"
  by (auto simp: readMessage_def ReadFull_def Let_def split: sum.splits if_splits)

lemma readMessage_length: "readMessage r = Inr (msg, rest) \<Longrightarrow> length msg + length rest + 4 = length r"
  by (auto simp: readMessage_def ReadFull_def Let_def split: sum.splits if_splits)

lemma readMessage_split: "readMessage r = Inr (msg, rest) \<Longrightarrow> \<exists>hdr. r = hdr @ msg @ rest"
proof -
  assume r: "readMessage r = Inr (msg, rest)"
  then have "msg @ rest = drop 4 r"
    by (auto simp: readMessage_def ReadFull_def Let_def simp del: drop_drop split: sum.splits if_splits)
  then have "r = take 4 r @ msg @ rest" by simp
  then show ?thesis ..
qed

lemma readMessage_bound: "readMessage r = Inr (msg, rest) \<Longrightarrow> length msg \<le> maxMessageSize"
  by (auto simp: readMessage_def ReadFull_def Let_def split: sum.splits if_splits)

section \<open>Properties\<close>

text \<open>What a peer reads when it takes \<open>n\<close> messages off the wire.\<close>

fun read_messages :: "nat \<Rightarrow> bytes \<Rightarrow> ioerr + (bytes list \<times> bytes)" where
  "read_messages 0 r = Inr ([], r)"
| "read_messages (Suc n) r =
    (case readMessage r of
       Inl e \<Rightarrow> Inl e
     | Inr (m, r) \<Rightarrow> map_sum id (map_prod ((#) m) id) (read_messages n r))"

fun write_messages :: "bytes list \<Rightarrow> ioerr + bytes" where
  "write_messages [] = Inr []"
| "write_messages (m # ms) =
    (case writeMessage m of
       Inl e \<Rightarrow> Inl e
     | Inr w \<Rightarrow> map_sum id ((@) w) (write_messages ms))"

lemma writeMessage_short: "length m < 2 ^ 24 \<Longrightarrow> \<exists>w. writeMessage m = Inr w"
  by (simp add: writeMessage_def Let_def)

text \<open>
  C36. Framing: messages shorter than 2^24 bytes are all written, and a reader gets them back one by
  one, in order and unchanged, whatever follows them on the wire.
\<close>

theorem frames_roundtrip:
  assumes "\<forall>m \<in> set ms. length m < 2 ^ 24"
  shows "\<exists>w. write_messages ms = Inr w \<and> read_messages (length ms) (w @ rest) = Inr (ms, rest)"
  using assms
proof (induction ms)
  case (Cons m ms)
  then obtain w where w: "write_messages ms = Inr w" "read_messages (length ms) (w @ rest) = Inr (ms, rest)"
    by auto
  obtain v where v: "writeMessage m = Inr v" using Cons.prems writeMessage_short by auto
  have "readMessage (v @ w @ rest) = Inr (m, w @ rest)"
    using Cons.prems v by (intro readMessage_frame) simp_all
  then show ?case using w v by simp
qed simp

lemma frames_roundtrip_witness:
  "\<exists>w. write_messages [[1, 2, 3], [], mk 70000] = Inr w \<and>
       read_messages 3 (w @ [9]) = Inr ([[1, 2, 3], [], mk 70000], [9])"
  using frames_roundtrip [of "[[1, 2, 3], [], mk 70000]" "[9]"]
  by (simp add: numeral_3_eq_3 del: read_messages.simps write_messages.simps)

text \<open>
  The size check of \<open>writeMessage\<close> lets a message of exactly 2^24 bytes through, whose length
  does not fit the 24-bit field: the frame announces an empty message, and the peer takes the
  payload for the next frames.
\<close>

theorem frame_length_wraps:
  assumes "length msg = maxMessageSize"
  shows "\<exists>w. writeMessage msg = Inr w \<and> readMessage w = Inr ([], msg)"
proof -
  have "drop_bit 16 (length msg) = 256" "drop_bit 8 (length msg) = 65536"
    by (simp_all add: assms drop_bit_eq_div)
  moreover have "(of_nat 256 :: byte) = 0" "(of_nat 65536 :: byte) = 0" "(of_nat (length msg) :: byte) = 0"
    by (simp_all add: assms)
  ultimately have w: "writeMessage msg = Inr ([0, 0, 0, 0] @ msg)"
    by (simp only: writeMessage_def Let_def assms) simp
  have "readMessage ([0, 0, 0, 0] @ msg) = Inr ([], msg)"
    by (simp add: readMessage_def ReadFull_def numeral_2_eq_2 numeral_3_eq_3)
  with w show ?thesis by blast
qed

lemma frame_length_wraps_witness:
  "\<exists>w. writeMessage (mk maxMessageSize) = Inr w \<and> readMessage w = Inr ([], mk maxMessageSize)"
  by (rule frame_length_wraps) (simp add: mk_def)

end
