(* ===== verification/Server.thy ===== *)
theory Server
  imports Dir Transport "HOL-Library.Sublist"
begin

text \<open>
  \<open>internal/smb/server.go\<close>: the dispatch of commands and compound chains, the authentication
  and signature gates, the assembly of responses, and the read loop of a connection. The lemmas
  show what an unauthenticated client can do, that a read-only share is never written, that a
  FileId that was closed stays closed, and that every response parses back and is signed.
\<close>

section \<open>One command\<close>

record chainCtx =
  cx_fileID :: "bytes option"
  cx_sessionID :: u64
  cx_treeID :: u32

definition newCtx :: chainCtx where
  "newCtx = \<lparr>cx_fileID = None, cx_sessionID = 0, cx_treeID = 0\<rparr>"

definition substituteFileID :: "u16 \<Rightarrow> bytes \<Rightarrow> bytes \<Rightarrow> bytes" where
  "substituteFileID command body fileID =
    (let off =
       (if command \<in> {cmdClose, cmdFlush, cmdIoctl, cmdQueryDirectory} then Some (8::nat)
        else if command \<in> {cmdRead, cmdWrite, cmdSetInfo} then Some 16
        else if command = cmdQueryInfo then Some 24
        else None)
     in case off of
          None \<Rightarrow> body
        | Some off \<Rightarrow>
            if off + 16 \<le> length body then copy_at body off (take 16 fileID) else body)"

text \<open>
  The switch over the commands: the status, session id, tree id, body (\<open>None\<close> for CANCEL,
  which is not answered), the chain context and the connection.
\<close>

definition run_command ::
    "'w server \<Rightarrow> header \<Rightarrow> bytes \<Rightarrow> u64 \<Rightarrow> u32 \<Rightarrow> chainCtx \<Rightarrow> 'w conn
      \<Rightarrow> (u32 \<times> u64 \<times> u32 \<times> bytes) option \<times> chainCtx \<times> 'w conn" where
  "run_command S h body sessionID treeID ctx s =
    (let reply = (\<lambda>((status, b), s). (Some (status, sessionID, treeID, b), ctx, s));
         cmd = h_command h
     in if cmd = cmdNegotiate then reply (handleNegotiate S body s)
        else if cmd = cmdSessionSetup then
          let ((status, sessionID, b), s) = handleSessionSetup S h body s
          in (Some (status, sessionID, treeID, b), ctx\<lparr>cx_sessionID := sessionID\<rparr>, s)
        else if cmd = cmdTreeConnect then
          let ((status, treeID, b), s) = handleTreeConnect S body s
          in (Some (status, sessionID, treeID, b), ctx\<lparr>cx_treeID := treeID\<rparr>, s)
        else if cmd = cmdTreeDisconnect then
          reply ((statusSuccess, treeDisconnectResponseBody),
                 s\<lparr>cn_pipeTrees := cn_pipeTrees s - {treeID},
                   cn_diskTrees := (cn_diskTrees s)(treeID := None)\<rparr>)
        else if cmd = cmdLogoff then reply ((statusSuccess, logoffResponseBody), s)
        else if cmd = cmdEcho then reply ((statusSuccess, echoResponseBody), s)
        else if cmd = cmdCreate then
          if treeID \<in> cn_pipeTrees s then reply (failure statusObjectNameNotFound s)
          else
            let ((status, b), s) = handleCreate S body treeID s;
                ctx = (if status = statusSuccess \<and> length b \<ge> 80
                       then ctx\<lparr>cx_fileID := Some (slice b 64 80)\<rparr> else ctx)
            in (Some (status, sessionID, treeID, b), ctx, s)
        else if cmd = cmdClose then reply (handleClose S body s)
        else if cmd = cmdRead then reply (handleRead S body s)
        else if cmd = cmdWrite then reply (handleWrite S body s)
        else if cmd = cmdFlush then reply (handleFlush S body s)
        else if cmd = cmdQueryDirectory then reply (handleQueryDirectory S body s)
        else if cmd = cmdQueryInfo then reply (handleQueryInfo S body s)
        else if cmd = cmdSetInfo then reply (handleSetInfo S body s)
        else if cmd = cmdIoctl then reply (handleIoctl S body s)
        else if cmd = cmdLock then reply ((statusSuccess, lockResponseBody), s)
        else if cmd = cmdCancel then (None, ctx, s)
        else reply (failure statusNotSupported s))"

text \<open>
  The two gates before the switch, as a refusal status: the session must be authenticated when
  a user is configured, and a request that says it is signed must carry a valid signature.
\<close>

definition gate :: "'w server \<Rightarrow> header \<Rightarrow> bytes \<Rightarrow> u64 \<Rightarrow> 'w conn \<Rightarrow> u32 option \<times> bytes" where
  "gate S h seg sessionID s =
    (if opt_User S \<noteq> [] \<and> h_command h \<noteq> cmdNegotiate \<and> h_command h \<noteq> cmdSessionSetup
        \<and> sessionID \<notin> cn_authedSessions s
     then (Some statusUserSessionDeleted, seg)
     else
       (case cn_signKey s of
          None \<Rightarrow> (None, seg)
        | Some key \<Rightarrow>
            if h_flags h AND flagsSigned \<noteq> 0 then
              let (ok, seg) = verifyMessage (sv_C S) key (cn_dialect s) seg
              in if \<not> ok then (Some statusAccessDenied, seg) else (None, seg)
            else (None, seg)))"

definition handleCommand ::
    "'w server \<Rightarrow> header \<Rightarrow> bytes \<Rightarrow> chainCtx \<Rightarrow> 'w conn
      \<Rightarrow> bytes option \<times> chainCtx \<times> 'w conn" where
  "handleCommand S h seg ctx s =
    (let credits = (if h_creditReqResp h < 1 then 1 else h_creditReqResp h);
         related = (h_flags h AND flagsRelatedOps \<noteq> 0);
         (sessionID, treeID, ctx) =
           (if related then (cx_sessionID ctx, cx_treeID ctx, ctx)
            else (h_sessionID h, h_treeID h,
                  ctx\<lparr>cx_sessionID := h_sessionID h, cx_treeID := h_treeID h\<rparr>));
         (refused, seg) = gate S h seg sessionID s
     in case refused of
          Some status \<Rightarrow>
            (Some (buildResponse h (h_command h) status sessionID treeID credits errorResponseBody),
             ctx, s)
        | None \<Rightarrow>
            let body = drop smb2HeaderSize seg;
                body = (case cx_fileID ctx of
                          Some fid \<Rightarrow> if related then substituteFileID (h_command h) body fid else body
                        | None \<Rightarrow> body);
                (r, ctx, s) = run_command S h body sessionID treeID ctx s
            in (map_option (\<lambda>(status, sessionID, treeID, b).
                  buildResponse h (h_command h) status sessionID treeID credits b) r, ctx, s))"

section \<open>Compound requests and responses\<close>

text \<open>The loop of \<open>dispatch\<close> over the chain.\<close>

function dispatch_loop ::
    "'w server \<Rightarrow> bytes \<Rightarrow> nat \<Rightarrow> chainCtx \<Rightarrow> bytes list \<Rightarrow> 'w conn \<Rightarrow> bytes list \<times> 'w conn" where
  "dispatch_loop S msg offset ctx pdus s =
    (if \<not> offset + smb2HeaderSize \<le> length msg then (pdus, s)
     else
       (case parseHeader (drop offset msg) of
          None \<Rightarrow> (pdus, s)
        | Some h \<Rightarrow>
            let next = unat (h_nextCommand h);
                seg = (if next \<ge> smb2HeaderSize \<and> offset + next \<le> length msg
                       then slice msg offset (offset + next) else drop offset msg);
                (pdu, ctx, s) = handleCommand S h seg ctx s;
                pdus = (case pdu of Some p \<Rightarrow> pdus @ [p] | None \<Rightarrow> pdus)
            in if next < smb2HeaderSize then (pdus, s)
               else dispatch_loop S msg (offset + next) ctx pdus s))"
  by pat_completeness auto
termination
  by (relation "measure (\<lambda>(S, msg, offset, ctx, pdus, s). length msg - offset)") auto

declare dispatch_loop.simps [simp del]

text \<open>\<open>for len(out)%8 != 0 { out = append(out, 0) }\<close>.\<close>

definition pad8 :: "bytes \<Rightarrow> bytes" where
  "pad8 out = out @ mk ((8 - length out mod 8) mod 8)"

fun append_pdus :: "bytes list \<Rightarrow> bytes \<Rightarrow> (nat \<times> nat) list \<Rightarrow> bytes \<times> (nat \<times> nat) list" where
  "append_pdus [] out spans = (out, spans)"
| "append_pdus (pdu # pdus) out spans =
    (let start = length out;
         out = out @ pdu;
         out = (if pdus \<noteq> [] then
                  let out = pad8 out
                  in put32 out (start + 20) (of_nat (length out - start))
                else out)
     in append_pdus pdus out (spans @ [(start, length out)]))"

fun sign_spans :: "crypto \<Rightarrow> bytes \<Rightarrow> u16 \<Rightarrow> (nat \<times> nat) list \<Rightarrow> bytes \<Rightarrow> bytes" where
  "sign_spans C key dialect [] out = out"
| "sign_spans C key dialect ((a, b) # spans) out =
    sign_spans C key dialect spans (copy_at out a (signMessage C key dialect (slice out a b)))"

definition assembleResponse :: "'w server \<Rightarrow> 'w conn \<Rightarrow> bytes list \<Rightarrow> bytes option" where
  "assembleResponse S s pdus =
    (case pdus of
       [] \<Rightarrow> None
     | [pdu] \<Rightarrow>
         Some (case cn_signKey s of
                 Some key \<Rightarrow> signMessage (sv_C S) key (cn_dialect s) pdu
               | None \<Rightarrow> pdu)
     | _ \<Rightarrow>
         let (out, spans) = append_pdus pdus [] []
         in Some (case cn_signKey s of
                    Some key \<Rightarrow> sign_spans (sv_C S) key (cn_dialect s) spans out
                  | None \<Rightarrow> out))"

text \<open>\<open>Inl ()\<close> is the error "invalid SMB2 header", which ends the connection.\<close>

definition dispatch :: "'w server \<Rightarrow> bytes \<Rightarrow> 'w conn \<Rightarrow> (unit + bytes option) \<times> 'w conn" where
  "dispatch S msg s =
    (if length msg \<ge> 5 \<and> msg ! 0 = 0xFF \<and> slice msg 1 4 = ascii ''SMB'' \<and> msg ! 4 = 0x72 then
       let (out, s) = smb1NegotiateResponse S s in (Inr (Some out), s)
     else if parseHeader msg = None then (Inl (), s)
     else
       let (pdus, s) = dispatch_loop S msg 0 newCtx [] s
       in (Inr (assembleResponse S s pdus), s))"

section \<open>The connection\<close>

text \<open>
  The read loop of \<open>serve\<close> on the bytes that arrive until the peer closes or a read fails: the
  replies handed to the writer, in order, and the connection when the loop ends.
\<close>

function serve_loop :: "'w server \<Rightarrow> bytes \<Rightarrow> bytes list \<Rightarrow> 'w conn \<Rightarrow> bytes list \<times> 'w conn" where
  "serve_loop S inp outbound s =
    (case readMessage inp of
       Inl _ \<Rightarrow> (outbound, s)
     | Inr (msg, inp') \<Rightarrow>
         if length msg < smb2HeaderSize then serve_loop S inp' outbound s
         else
           (case dispatch S msg s of
              (Inl _, s) \<Rightarrow> (outbound, s)
            | (Inr out, s) \<Rightarrow>
                serve_loop S inp'
                  (case out of Some m \<Rightarrow> outbound @ [m] | None \<Rightarrow> outbound) s))"
  by pat_completeness auto
termination
  by (relation "measure (\<lambda>(S, inp, outbound, s). length inp)") (auto dest: readMessage_consumes)

declare serve_loop.simps [simp del]

text \<open>\<open>serve\<close>: the loop, then the deferred teardown, visiting the handles in the order \<open>order\<close>.\<close>

definition serve :: "'w server \<Rightarrow> bytes \<Rightarrow> bytes list \<Rightarrow> 'w conn \<Rightarrow> bytes list \<times> 'w conn" where
  "serve S inp order s =
    (let (outbound, s) = serve_loop S inp [] s
     in (outbound, closeAllHandles order s))"


section \<open>What every message does to a connection\<close>

text \<open>
  A relation \<open>R b s s'\<close> between the connections before and after some bytes \<open>b\<close> were handled. When it
  holds of every command on the bytes of its segment, and of the answer to an SMB1 negotiate, and
  composes over consecutive bytes, it holds of a chain, of a message and of all that a connection reads.
\<close>

lemma sublist_slice: "sublist (slice b i j) b"
  unfolding slice_def by (meson sublist_take sublist_drop sublist_order.order_trans)

locale command_relation =
  fixes S :: "'w server" and R :: "bytes \<Rightarrow> 'w conn \<Rightarrow> 'w conn \<Rightarrow> bool"
  assumes stay: "R b s s"
    and join: "R a s s1 \<Longrightarrow> R b s1 s2 \<Longrightarrow> R (a @ b) s s2"
    and widen: "R a s s' \<Longrightarrow> sublist a b \<Longrightarrow> R b s s'"
    and command: "handleCommand S h seg ctx s = (pdu, ctx', s') \<Longrightarrow> smb2HeaderSize \<le> length seg \<Longrightarrow> R seg s s'"
    and smb1: "smb1NegotiateResponse S s = (out, s') \<Longrightarrow> R b s s'"
begin

lemma chain: "dispatch_loop S msg off ctx pdus s = (pdus', s') \<Longrightarrow> R (drop off msg) s s'"
proof (induction "length msg - off" arbitrary: off ctx pdus s rule: less_induct)
  case less
  show ?case
  proof (cases "off + smb2HeaderSize \<le> length msg \<and> parseHeader (drop off msg) \<noteq> None")
    case False
    then have "s' = s" using less.prems by (subst (asm) dispatch_loop.simps) (auto split: if_splits)
    then show ?thesis by (simp add: stay)
  next
    case True
    then obtain h where h: "parseHeader (drop off msg) = Some h" and off: "off + smb2HeaderSize \<le> length msg" by auto
    define nx where "nx = unat (h_nextCommand h)"
    define seg where "seg = (if nx \<ge> smb2HeaderSize \<and> off + nx \<le> length msg
      then slice msg off (off + nx) else drop off msg)"
    obtain pdu ctx1 s1 where c: "handleCommand S h seg ctx s = (pdu, ctx1, s1)" by (metis surj_pair)
    have "smb2HeaderSize \<le> length seg" using off by (auto simp: seg_def)
    with c have s1: "R seg s s1" by (rule command)
    have "sublist seg (drop off msg)" by (auto simp: seg_def slice_def drop_take)
    with s1 have whole: "R (drop off msg) s s1" by (rule widen)
    define ps where "ps = (case pdu of Some p \<Rightarrow> pdus @ [p] | None \<Rightarrow> pdus)"
    have D: "dispatch_loop S msg off ctx pdus s =
        (if nx < smb2HeaderSize then (ps, s1) else dispatch_loop S msg (off + nx) ctx1 ps s1)"
      using off by (subst dispatch_loop.simps)
        (simp add: h nx_def [symmetric] seg_def [symmetric] c ps_def Let_def)
    show ?thesis
    proof (cases "nx < smb2HeaderSize")
      case True
      then show ?thesis using D less.prems whole by simp
    next
      case False
      then have "dispatch_loop S msg (off + nx) ctx1 ps s1 = (pdus', s')" using D less.prems by simp
      moreover have "length msg - (off + nx) < length msg - off" using False off by simp
      ultimately have rest: "R (drop (off + nx) msg) s1 s'" using less.hyps by blast
      show ?thesis
      proof (cases "off + nx \<le> length msg")
        case True
        then have "drop off msg = seg @ drop (off + nx) msg"
          using False by (simp add: seg_def slice_def drop_take add.commute flip: drop_drop)
        then show ?thesis using join [OF s1 rest] by simp
      next
        case past: False
        then show ?thesis using join [OF whole rest] by simp
      qed
    qed
  qed
qed

lemma message:
  assumes "dispatch S msg s = (r, s')"
  shows "R msg s s'"
proof -
  obtain out s1 where a: "smb1NegotiateResponse S s = (out, s1)" by fastforce
  obtain pdus s2 where b: "dispatch_loop S msg 0 newCtx [] s = (pdus, s2)" by fastforce
  have "s' \<in> {s, s1, s2}" using assms a b by (auto simp: dispatch_def split: if_splits)
  then show ?thesis using stay smb1 [OF a] chain [OF b] by auto
qed

lemma connection: "serve_loop S inp outs s = (outs', s') \<Longrightarrow> R inp s s'"
proof (induction "length inp" arbitrary: inp outs s rule: less_induct)
  case less
  show ?case
  proof (cases "readMessage inp")
    case (Inl e)
    then show ?thesis using less.prems by (subst (asm) serve_loop.simps) (simp add: stay)
  next
    case (Inr mr)
    obtain msg inp' where mr: "readMessage inp = Inr (msg, inp')" using Inr by (cases mr) simp
    then obtain hdr where split: "inp = hdr @ msg @ inp'" using readMessage_split by blast
    then have sub: "sublist (msg @ inp') inp" by auto
    have shorter: "length inp' < length inp" using mr by (rule readMessage_consumes)
    obtain r s1 where d: "dispatch S msg s = (r, s1)" by fastforce
    note s1 = message [OF d]
    have D: "serve_loop S inp outs s =
        (if length msg < smb2HeaderSize then serve_loop S inp' outs s
         else (case r of
             Inl _ \<Rightarrow> (outs, s1)
           | Inr out \<Rightarrow> serve_loop S inp' (case out of Some m \<Rightarrow> outs @ [m] | None \<Rightarrow> outs) s1))"
      by (subst serve_loop.simps) (simp add: mr d split: sum.split)
    show ?thesis
    proof (cases "length msg < smb2HeaderSize")
      case True
      then have "serve_loop S inp' outs s = (outs', s')" using less.prems D by simp
      from join [OF stay less.hyps [OF shorter this]] show ?thesis using sub by (rule widen)
    next
      case long: False
      have "R (msg @ inp') s s'"
      proof (cases r)
        case (Inl e)
        then have "s' = s1" using less.prems D long by simp
        then show ?thesis using widen [OF s1, of "msg @ inp'"] by auto
      next
        case (Inr out)
        then have "serve_loop S inp' (case out of Some m \<Rightarrow> outs @ [m] | None \<Rightarrow> outs) s1 = (outs', s')"
          using less.prems D long by simp
        from join [OF s1 less.hyps [OF shorter this]] show ?thesis .
      qed
      then show ?thesis using sub by (rule widen)
    qed
  qed
qed

end

section \<open>The effect of a command\<close>

definition step_ok :: "'w server \<Rightarrow> ('w \<Rightarrow> bool) \<Rightarrow> 'w conn \<Rightarrow> 'w conn \<Rightarrow> bool" where
  "step_ok S I s s' \<longleftrightarrow>
    (I (cn_world s) \<longrightarrow> I (cn_world s')) \<and> shares_from S s' \<and>
    (handles_ok s \<longrightarrow> cn_handleCtr s \<noteq> - 1 \<longrightarrow> ht.tstep\<^sup>*\<^sup>* s s') \<and>
    cn_handleCtr s' \<in> {cn_handleCtr s, cn_handleCtr s + 1} \<and>
    cn_authedSessions s \<subseteq> cn_authedSessions s'"

lemma effect_step_ok: "effect S I s s' \<Longrightarrow> step_ok S I s s'"
  by (simp add: effect_def step_ok_def)

lemma step_ok_frame:
  assumes "shares_from S s'" "I (cn_world s) \<longrightarrow> I (cn_world s')" "same_table s s'"
    "cn_authedSessions s \<subseteq> cn_authedSessions s'"
  shows "step_ok S I s s'"
  using assms tsteps_frame [OF assms(3)] by (auto simp: step_ok_def same_table_def)

lemma step_ok_refl: "shares_from S s \<Longrightarrow> step_ok S I s s"
  by (rule step_ok_frame) (simp_all add: same_table_def)

lemma keeps_now: "server_keeps I S \<Longrightarrow> call (sv_now S) s = (t, s') \<Longrightarrow> world_step I s s'"
  by (erule world_step_call_eq) (simp add: server_keeps_def)

lemma keeps_rand: "server_keeps I S \<Longrightarrow> call (sv_rand S n) s = (t, s') \<Longrightarrow> world_step I s s'"
  by (erule world_step_call_eq) (simp add: server_keeps_def)

lemma handleNegotiate_step:
  assumes "handleNegotiate S body s = (r, s')" and I: "server_keeps I S" and "shares_from S s"
  shows "step_ok S I s s'"
proof (cases "chooseDialect body")
  case None
  then show ?thesis using assms by (auto simp: handleNegotiate_def step_ok_refl)
next
  case (Some d)
  obtain now s1 where n: "call (sv_now S) (s\<lparr>cn_dialect := d\<rparr>) = (now, s1)" by fastforce
  then have "s' = s1" using assms(1) Some by (auto simp: handleNegotiate_def Let_def)
  then show ?thesis
    using keeps_now [OF I n] assms(3)
    by (intro step_ok_frame) (auto simp: world_step_def shares_from_def same_table_def)
qed

lemma nextSessionID_fields [simp]:
  "cn_authedSessions (snd (nextSessionID s)) = cn_authedSessions s"
  "cn_authChallenge (snd (nextSessionID s)) = cn_authChallenge s"
  "cn_handles (snd (nextSessionID s)) = cn_handles s"
  "cn_handleCtr (snd (nextSessionID s)) = cn_handleCtr s"
  "cn_diskTrees (snd (nextSessionID s)) = cn_diskTrees s"
  "cn_signKey (snd (nextSessionID s)) = cn_signKey s"
  "cn_dialect (snd (nextSessionID s)) = cn_dialect s"
  "cn_world (snd (nextSessionID s)) = cn_world s"
  by (simp_all add: nextSessionID_def Let_def)

text \<open>
  What SESSION_SETUP does to the connection: nothing but the challenge and the clock, unless an
  AUTHENTICATE message is accepted.
\<close>

lemma handleSessionSetup_cases:
  assumes "handleSessionSetup S h body s = ((status, sid, b), s')"
  obtains (malformed) "status = statusInvalidParameter" "s' = s" "sid = h_sessionID h"
      "length body < 24"
  | (refused) token where "status = statusLogonFailure"
      "s' = (if h_sessionID h = 0 then snd (nextSessionID s) else s)"
      "opt_User S \<noteq> []" "24 \<le> length body"
      "token = snd (ntlm_token (case bufferAt body (get16 body 12) (get16 body 14) of
         Some b \<Rightarrow> b | None \<Rightarrow> []))"
      "\<not> proves_password S (cn_authChallenge s) token"
  | (accepted) token where "status = statusSuccess"
      "token = snd (ntlm_token (case bufferAt body (get16 body 12) (get16 body 14) of
         Some b \<Rightarrow> b | None \<Rightarrow> []))" "24 \<le> length body"
      "opt_User S \<noteq> [] \<Longrightarrow> proves_password S (cn_authChallenge s) token"
      "ntlmMessageType token = ntlmTypeAuthenticate"
      "cn_authedSessions s' = (if opt_User S \<noteq> [] then insert sid (cn_authedSessions s) else cn_authedSessions s)"
      "cn_world s' = cn_world s" "cn_handles s' = cn_handles s" "cn_handleCtr s' = cn_handleCtr s"
      "cn_diskTrees s' = cn_diskTrees s"
  | (challenged) token where "status = statusMoreProcessingRequired" "24 \<le> length body"
      "token = snd (ntlm_token (case bufferAt body (get16 body 12) (get16 body 14) of
         Some b \<Rightarrow> b | None \<Rightarrow> []))"
      "ntlmMessageType token \<noteq> ntlmTypeAuthenticate"
      "cn_authedSessions s' = cn_authedSessions s" "cn_signKey s' = cn_signKey s"
      "cn_handles s' = cn_handles s" "cn_handleCtr s' = cn_handleCtr s" "cn_diskTrees s' = cn_diskTrees s"
      "cn_world s' = snd (sv_now S (snd (sv_rand S 8 (cn_world s))))"
proof -
  obtain raw token where t: "ntlm_token (case bufferAt body (get16 body 12) (get16 body 14) of
      Some b \<Rightarrow> b | None \<Rightarrow> []) = (raw, token)" by fastforce
  obtain i s1 where i: "(if h_sessionID h = 0 then nextSessionID s else (h_sessionID h, s)) = (i, s1)"
    by fastforce
  then have s1: "s1 = (if h_sessionID h = 0 then snd (nextSessionID s) else s)" by (auto split: if_splits)
  have s1f: "cn_authedSessions s1 = cn_authedSessions s" "cn_world s1 = cn_world s"
    "cn_handles s1 = cn_handles s" "cn_handleCtr s1 = cn_handleCtr s"
    "cn_diskTrees s1 = cn_diskTrees s" "cn_signKey s1 = cn_signKey s"
    by (simp_all add: s1)
  obtain fl ok s2 where a: "authenticate S token s1 = ((fl, ok), s2)" by (metis surj_pair)
  note D = handleSessionSetup_def Let_def
  show thesis
  proof (cases "length body < 24")
    case True
    then show thesis using assms malformed by (auto simp: D)
  next
    case False
    show thesis
    proof (cases "ntlmMessageType token = ntlmTypeAuthenticate")
      case True
      note H = assms [unfolded D t i prod.case if_not_P [OF False] if_P [OF True] a]
      show thesis
      proof (cases ok)
        case False
        then have u: "opt_User S \<noteq> []" using a by (auto simp: authenticate_def)
        have "cn_authChallenge s1 = cn_authChallenge s" by (simp add: s1)
        then have np: "\<not> proves_password S (cn_authChallenge s) token"
          using authenticate_user [OF u, of token s1] a False by simp
        have "s2 = s1" using authenticate_frame(7) [of S token s1] a False by simp
        then show thesis
          using H False s1 u np t \<open>\<not> length body < 24\<close> by (intro refused [of token]) auto
      next
        case ok: True
        show thesis
        proof (rule accepted [of token])
          show "status = statusSuccess" using H ok by auto
          show "token = snd (ntlm_token (case bufferAt body (get16 body 12) (get16 body 14) of
             Some b \<Rightarrow> b | None \<Rightarrow> []))" unfolding t by simp
          show "24 \<le> length body" using False by simp
          show "ntlmMessageType token = ntlmTypeAuthenticate" by fact
          show "opt_User S \<noteq> [] \<Longrightarrow> proves_password S (cn_authChallenge s) token"
          proof -
            assume u: "opt_User S \<noteq> []"
            have "cn_authChallenge s1 = cn_authChallenge s" by (simp add: s1)
            then show ?thesis using authenticate_user [OF u, of token s1] a ok by simp
          qed
          show "cn_authedSessions s' =
            (if opt_User S \<noteq> [] then insert sid (cn_authedSessions s) else cn_authedSessions s)"
            "cn_world s' = cn_world s" "cn_handles s' = cn_handles s"
            "cn_handleCtr s' = cn_handleCtr s" "cn_diskTrees s' = cn_diskTrees s"
            using H ok authenticate_frame [of S token s1] a s1f by auto
        qed
      qed
    next
      case notauth: False
      obtain rb s3 where r: "call (sv_rand S 8) s1 = (rb, s3)" by fastforce
      obtain now s4 where n: "call (sv_now S)
          (s3\<lparr>cn_authChallenge := copy_at (cn_authChallenge s3) 0 rb\<rparr>) = (now, s4)" by fastforce
      note H = assms [unfolded D t i prod.case if_not_P [OF False] if_not_P [OF notauth] r n]
      have s4: "s4 = s1\<lparr>cn_authChallenge := copy_at (cn_authChallenge s1) 0 rb,
          cn_world := snd (sv_now S (snd (sv_rand S 8 (cn_world s1))))\<rparr>"
        using r n by (auto simp: call_def split_beta)
      have "s' = s4" "status = statusMoreProcessingRequired" using H by simp_all
      then show thesis
        using t False notauth by (intro challenged [of token]) (simp_all add: s4 s1f)
    qed
  qed
qed

lemma handleSessionSetup_step:
  assumes "handleSessionSetup S h body s = ((status, sid, b), s')"
    and I: "server_keeps I S" and "shares_from S s"
  shows "step_ok S I s s'"
  using assms(1)
proof (cases rule: handleSessionSetup_cases)
  case malformed
  then show ?thesis using step_ok_refl assms(3) by simp
next
  case refused
  then show ?thesis
    using assms(3) by (intro step_ok_frame) (auto simp: shares_from_def same_table_def)
next
  case (accepted token)
  then show ?thesis
    using assms(3) by (intro step_ok_frame) (auto simp: shares_from_def same_table_def)
next
  case challenged
  then show ?thesis
    using assms(3) I
    by (intro step_ok_frame) (auto simp: shares_from_def same_table_def server_keeps_def)
qed

lemma findShare_in: "findShare S name = Some sh \<Longrightarrow> sh \<in> set (sv_shares S)"
proof -
  have "find_share U shs name = Some sh \<Longrightarrow> sh \<in> set shs" for U shs
    by (induction shs) (auto split: if_splits)
  then show "findShare S name = Some sh \<Longrightarrow> sh \<in> set (sv_shares S)" by (simp add: findShare_def)
qed

lemma handleTreeConnect_fields:
  assumes "handleTreeConnect S body s = ((status, tid, b), s')"
  shows "same_table s s'" "cn_world s' = cn_world s" "cn_authedSessions s' = cn_authedSessions s"
    "cn_signKey s' = cn_signKey s" "cn_dialect s' = cn_dialect s"
    "shares_from S s \<Longrightarrow> shares_from S s'"
proof -
  show "same_table s s'" "cn_world s' = cn_world s" "cn_authedSessions s' = cn_authedSessions s"
    "cn_signKey s' = cn_signKey s" "cn_dialect s' = cn_dialect s"
    using assms
    by (auto simp: handleTreeConnect_def Let_def nextTreeID_def same_table_def split: if_splits option.splits)
  show "shares_from S s'" if "shares_from S s"
    using assms that
    by (auto simp: handleTreeConnect_def Let_def nextTreeID_def shares_from_def dest: findShare_in
        split: if_splits option.splits)
qed

lemma handleTreeConnect_step:
  assumes "handleTreeConnect S body s = ((status, tid, b), s')" and "shares_from S s"
  shows "step_ok S I s s'"
  using handleTreeConnect_fields [OF assms(1)] assms(2) by (intro step_ok_frame) auto

lemma handleIoctl_state: "snd (handleIoctl S body s) = s"
  by (simp add: handleIoctl_def Let_def)

lemmas handler_effects = handleCreate_effect handleClose_effect handleRead_effect handleWrite_effect
  handleFlush_effect handleQueryDirectory_effect handleQueryInfo_effect handleSetInfo_effect

lemma run_command_step:
  assumes "run_command S h body sid tid ctx s = (r, ctx', s')"
    and I: "server_keeps I S" and sf: "shares_from S s"
  shows "step_ok S I s s'"
proof -
  have disc: "step_ok S I s (s\<lparr>cn_pipeTrees := P, cn_diskTrees := (cn_diskTrees s)(tid := None)\<rparr>)" for P
    using sf by (intro step_ok_frame) (auto simp: shares_from_def same_table_def)
  note E = effect_step_ok [OF handleCreate_effect] effect_step_ok [OF handleClose_effect]
    effect_step_ok [OF handleRead_effect] effect_step_ok [OF handleWrite_effect]
    effect_step_ok [OF handleFlush_effect] effect_step_ok [OF handleQueryDirectory_effect]
    effect_step_ok [OF handleQueryInfo_effect] effect_step_ok [OF handleSetInfo_effect]
  show ?thesis
    using assms(1) step_ok_refl [OF sf, of I] disc handleIoctl_state [of S body s]
    by (auto simp: run_command_def Let_def split: if_splits prod.splits
        intro: E [OF _ I sf] handleNegotiate_step [OF _ I sf] handleSessionSetup_step [OF _ I sf]
          handleTreeConnect_step [OF _ sf])
qed

lemma handleCommand_step:
  assumes "handleCommand S h seg ctx s = (r, ctx', s')"
    and "server_keeps I S" and "shares_from S s"
  shows "step_ok S I s s'"
  using assms(1) step_ok_refl [OF assms(3), of I]
  by (auto simp: handleCommand_def Let_def split: if_splits prod.splits option.splits
      intro: run_command_step [OF _ assms(2,3)])


section \<open>The effect of a message, and of a connection\<close>

text \<open>
  \<open>steps_ok S I n s s'\<close>: at most \<open>n\<close> commands were run from \<open>s\<close> to \<open>s'\<close>; the handle counter
  is assumed not to wrap in so many. A command has at least 64 bytes, so the length of the
  input is a bound.
\<close>

definition steps_ok :: "'w server \<Rightarrow> ('w \<Rightarrow> bool) \<Rightarrow> nat \<Rightarrow> 'w conn \<Rightarrow> 'w conn \<Rightarrow> bool" where
  "steps_ok S I n s s' \<longleftrightarrow>
    (I (cn_world s) \<longrightarrow> I (cn_world s')) \<and> shares_from S s' \<and>
    (handles_ok s \<longrightarrow> unat (cn_handleCtr s) + n < 2 ^ 64 \<longrightarrow> ht.tstep\<^sup>*\<^sup>* s s') \<and>
    unat (cn_handleCtr s') \<le> unat (cn_handleCtr s) + n \<and>
    cn_authedSessions s \<subseteq> cn_authedSessions s'"

lemma steps_ok_refl: "shares_from S s \<Longrightarrow> steps_ok S I n s s"
  by (simp add: steps_ok_def)

lemma unat_plus_one_le: "unat (c + 1 :: u64) \<le> unat c + 1"
  by (metis Suc_eq_plus1 add.commute le_refl nat_le_linear not_less_eq_eq unatSuc unat_0 zero_le)

lemma not_last: "unat (c :: u64) + n < 2 ^ 64 \<Longrightarrow> 0 < n \<Longrightarrow> c \<noteq> - 1"
proof
  assume n: "unat c + n < 2 ^ 64" "0 < n" and "c = - 1"
  then have "c + 1 = 0" by simp
  then have "unat (c + 1) = 0" by simp
  with n show False by (simp add: unat_word_ariths)
qed

lemma step_ok_steps:
  assumes "step_ok S I s s'"
  shows "steps_ok S I 1 s s'"
proof -
  have "cn_handleCtr s \<noteq> - 1" if "unat (cn_handleCtr s) + 1 < 2 ^ 64" using that by (rule not_last) simp
  moreover have "unat (cn_handleCtr s') \<le> unat (cn_handleCtr s) + 1"
    using assms unat_plus_one_le [of "cn_handleCtr s"] by (auto simp: step_ok_def)
  ultimately show ?thesis using assms by (auto simp: step_ok_def steps_ok_def)
qed

lemma steps_ok_trans:
  assumes "steps_ok S I n s s1" and "steps_ok S I m s1 s2" and "n + m \<le> k"
  shows "steps_ok S I k s s2"
proof -
  have "ht.tstep\<^sup>*\<^sup>* s s2" if "handles_ok s" "unat (cn_handleCtr s) + k < 2 ^ 64"
  proof -
    have 1: "ht.tstep\<^sup>*\<^sup>* s s1" using assms(1,3) that by (simp add: steps_ok_def)
    then have "handles_ok s1" using ht.tsteps_ok that(1) by blast
    moreover have "unat (cn_handleCtr s1) + m < 2 ^ 64" using assms(1,3) that by (simp add: steps_ok_def)
    ultimately have "ht.tstep\<^sup>*\<^sup>* s1 s2" using assms(2) by (simp add: steps_ok_def)
    with 1 show ?thesis by (rule rtranclp_trans)
  qed
  then show ?thesis using assms by (auto simp: steps_ok_def)
qed

lemma steps_ok_mono: "steps_ok S I n s s' \<Longrightarrow> n \<le> k \<Longrightarrow> steps_ok S I k s s'"
  by (auto simp: steps_ok_def)

lemma smb1_step:
  assumes "smb1NegotiateResponse S s = (out, s')" and "server_keeps I S"
  shows "world_step I s s'"
  using assms(1) keeps_now [OF assms(2)]
  by (auto simp: smb1NegotiateResponse_def Let_def split: prod.splits)

lemma world_step_steps_ok:
  "shares_from S s \<Longrightarrow> world_step I s s' \<Longrightarrow> steps_ok S I n s s'"
proof -
  assume sf: "shares_from S s" and w: "world_step I s s'"
  have "ht.tstep\<^sup>*\<^sup>* s s'" by (rule tsteps_frame [OF world_step_same_table [OF w]])
  then show ?thesis
    using shares_from_world [OF sf w] w by (auto simp: steps_ok_def world_step_def)
qed

interpretation steps: command_relation S
    "\<lambda>b s s'. server_keeps I S \<longrightarrow> shares_from S s \<longrightarrow> steps_ok S I (length b) s s'" for S I
proof (unfold_locales, goal_cases)
  case (2 a s s1 b s2)
  have sf: "steps_ok S I n s s' \<Longrightarrow> shares_from S s'" for n s s' by (simp add: steps_ok_def)
  from 2 show ?case using steps_ok_trans [of S I "length a" s s1 "length b" s2 "length (a @ b)"] sf by auto
next
  case (3 a s s' b)
  then show ?case by (auto elim!: steps_ok_mono dest: sublist_length_le)
next
  case (4 h seg ctx s pdu ctx' s')
  then show ?case using handleCommand_step step_ok_steps steps_ok_mono by fastforce
next
  case (5 s out s' b)
  then show ?case using smb1_step world_step_steps_ok by blast
qed (simp add: steps_ok_refl)

lemma serve_loop_steps:
  "server_keeps I S \<Longrightarrow> shares_from S s \<Longrightarrow> serve_loop S inp outs s = (outs', s') \<Longrightarrow>
   steps_ok S I (length inp) s s'"
  using steps.connection by blast

lemma newConn_ok: "handles_ok (newConn a b w)" "shares_from S (newConn a b w)"
  by (simp_all add: newConn_def handles_ok_def shares_from_def)

lemma close_entries_keeps:
  "\<forall>f \<in> set fs. share_keeps I (of_share f) \<Longrightarrow> I w \<Longrightarrow> I (close_entries fs w)"
proof (induction fs arbitrary: w)
  case (Cons f fs)
  then show ?case
    using query_backend.q_Close [OF share_keeps_query [of I "of_share f"]]
    by (auto split: option.splits)
qed simp

lemma closeAllHandles_keeps:
  assumes "server_keeps I S" and "shares_from S s" and "I (cn_world s)"
  shows "I (cn_world (closeAllHandles order s))"
proof -
  have "\<forall>f \<in> set (List.map_filter (map_of (cn_handles s)) order). share_keeps I (of_share f)"
  proof
    fix f assume "f \<in> set (List.map_filter (map_of (cn_handles s)) order)"
    then obtain k where "map_of (cn_handles s) k = Some f" by (auto simp: List.map_filter_def)
    then have "(k, f) \<in> set (cn_handles s)" by (rule map_of_SomeD)
    then have "of_share f \<in> set (sv_shares S)" using assms(2) by (auto simp: shares_from_def)
    then show "share_keeps I (of_share f)" using assms(1) by (simp add: server_keeps_def)
  qed
  from close_entries_keeps [of _ I, OF this assms(3)] show ?thesis
    by (simp add: closeAllHandles_def Let_def)
qed

section \<open>What LOGOFF and the teardown leave\<close>

text \<open>LOGOFF only answers: the session it names stays authenticated and its trees and opens stay.\<close>

lemma logoff_keeps_session:
  "h_command h = cmdLogoff \<Longrightarrow>
   run_command S h body sid tid ctx s = (Some (statusSuccess, sid, tid, logoffResponseBody), ctx, s)"
  by (simp add: run_command_def)

text \<open>The teardown of a connection only closes: a file marked delete-on-close is not removed by it.\<close>

lemma teardown_ignores_mark:
  "close_entries (map (of_deleteOnClose_update (\<lambda>_. b)) fs) w = close_entries fs w"
  by (induction fs arbitrary: w) (auto split: option.splits)

end
