(* ===== verification/Safety.thy ===== *)
theory Safety
  imports Server
begin

text \<open>
  What a client can reach before it has authenticated, over a whole connection: the lemmas follow
  the bytes of an accepted AUTHENTICATE token back to the bytes the client sent, and the gate of
  \<open>handleCommand\<close> through \<open>dispatch\<close> and \<open>serve\<close>.
\<close>

section \<open>Where a token comes from\<close>

lemma derReadTLV_sublist:
  "derReadTLV b = Some (t, c, r) \<Longrightarrow> sublist c b \<and> sublist r b"
  by (auto simp: derReadTLV_def Let_def sublist_slice sublist_drop split: if_splits)

lemma spnego_walk_sublist: "spnego_walk seq = Some tok \<Longrightarrow> sublist tok seq"
proof (induction seq rule: spnego_walk.induct)
  case (1 seq)
  obtain t c r where d: "derReadTLV seq = Some (t, c, r)" and ne: "seq \<noteq> []"
    using 1(2) by (subst (asm) spnego_walk.simps) (auto split: option.splits if_splits)
  note sub = derReadTLV_sublist [OF d]
  show ?case
  proof (cases "t = 0xA2")
    case True
    obtain t2 r2 where "derReadTLV c = Some (t2, tok, r2)"
      using 1(2) True d ne by (subst (asm) spnego_walk.simps) (auto split: option.splits if_splits)
    then show ?thesis using derReadTLV_sublist sub sublist_order.order_trans by blast
  next
    case False
    then have "spnego_walk r = Some tok"
      using 1(2) d ne by (subst (asm) spnego_walk.simps) simp
    then have "sublist tok r" using 1(1) [OF ne d refl refl False] by simp
    then show ?thesis using sub sublist_order.order_trans by blast
  qed
qed

lemma spnegoExtractNTLM_sublist: "spnegoExtractNTLM buf = Some tok \<Longrightarrow> sublist tok buf"
  unfolding spnegoExtractNTLM_def
  by (auto split: option.splits prod.splits if_splits dest!: derReadTLV_sublist spnego_walk_sublist
      intro: sublist_order.order_trans)

lemma ntlm_token_sublist: "sublist (snd (ntlm_token buf)) buf"
  by (auto simp: ntlm_token_def Let_def split: option.split dest: spnegoExtractNTLM_sublist)

lemma bufferAt_sublist: "sublist (case bufferAt b i j of Some x \<Rightarrow> x | None \<Rightarrow> []) b"
  by (auto simp: bufferAt_def Let_def sublist_slice split: option.split)

text \<open>The NTLMSSP token of a SESSION_SETUP body.\<close>

definition request_token :: "bytes \<Rightarrow> bytes" where
  "request_token body =
    snd (ntlm_token (case bufferAt body (get16 body 12) (get16 body 14) of Some b \<Rightarrow> b | None \<Rightarrow> []))"

lemma request_token_sublist: "sublist (request_token body) body"
  unfolding request_token_def
  by (rule sublist_order.order_trans [OF ntlm_token_sublist bufferAt_sublist])

section \<open>Guarded steps\<close>

definition password_shown :: "'w server \<Rightarrow> bytes \<Rightarrow> bool" where
  "password_shown S inp \<longleftrightarrow> (\<exists>ch tok. sublist tok inp \<and> proves_password S ch tok)"

text \<open>
  \<open>guarded\<close>: as long as no session is authenticated, the world keeps \<open>I\<close> and the handle table
  does not change; and the first authenticated session takes a proof of the password among \<open>inp\<close>.
\<close>

definition guarded :: "'w server \<Rightarrow> ('w \<Rightarrow> bool) \<Rightarrow> bytes \<Rightarrow> 'w conn \<Rightarrow> 'w conn \<Rightarrow> bool" where
  "guarded S I inp s s' \<longleftrightarrow>
    cn_authedSessions s \<subseteq> cn_authedSessions s' \<and>
    (cn_authedSessions s' = {} \<longrightarrow>
       (I (cn_world s) \<longrightarrow> I (cn_world s')) \<and> cn_handles s' = cn_handles s) \<and>
    (cn_authedSessions s' \<noteq> {} \<longrightarrow> cn_authedSessions s \<noteq> {} \<or> password_shown S inp)"

definition clock_keeps :: "('w \<Rightarrow> bool) \<Rightarrow> 'w server \<Rightarrow> bool" where
  "clock_keeps I S \<longleftrightarrow>
    (\<forall>w. I w \<longrightarrow> I (snd (sv_now S w))) \<and> (\<forall>n w. I w \<longrightarrow> I (snd (sv_rand S n w)))"

lemma guarded_refl [simp, intro]: "guarded S I inp s s"
  by (simp add: guarded_def)

lemma guarded_trans: "guarded S I inp s s1 \<Longrightarrow> guarded S I inp s1 s2 \<Longrightarrow> guarded S I inp s s2"
  by (auto simp: guarded_def)

lemma guarded_mono: "guarded S I inp s s' \<Longrightarrow> sublist inp inp' \<Longrightarrow> guarded S I inp' s s'"
  unfolding guarded_def password_shown_def by (meson sublist_order.order_trans)

lemma guarded_authed:
  "cn_authedSessions s \<noteq> {} \<Longrightarrow> cn_authedSessions s \<subseteq> cn_authedSessions s' \<Longrightarrow> guarded S I inp s s'"
  by (auto simp: guarded_def)

lemma handleNegotiate_guarded:
  assumes "clock_keeps I S" and "handleNegotiate S body s = (r, s')"
  shows "guarded S I inp s s'"
proof (cases "chooseDialect body")
  case None
  then show ?thesis using assms(2) by (auto simp: handleNegotiate_def)
next
  case (Some d)
  obtain now s1 where n: "call (sv_now S) (s\<lparr>cn_dialect := d\<rparr>) = (now, s1)" by fastforce
  then have "s' = s1" using assms(2) Some by (auto simp: handleNegotiate_def Let_def)
  then show ?thesis
    using call_frame [of "sv_now S" "s\<lparr>cn_dialect := d\<rparr>"] assms(1) n
    by (simp add: guarded_def clock_keeps_def)
qed

lemma handleSessionSetup_guarded:
  assumes "opt_User S \<noteq> []" and "clock_keeps I S"
    and "handleSessionSetup S h body s = ((status, sid, b), s')" and "sublist body inp"
  shows "guarded S I inp s s'"
  using assms(3)
proof (cases rule: handleSessionSetup_cases)
  case malformed
  then show ?thesis by simp
next
  case refused
  then show ?thesis by (simp add: guarded_def)
next
  case (accepted token)
  then have "proves_password S (cn_authChallenge s) (request_token body)"
    using assms(1) by (simp add: request_token_def)
  moreover have "sublist (request_token body) inp"
    using request_token_sublist assms(4) sublist_order.order_trans by blast
  ultimately have "password_shown S inp" unfolding password_shown_def by blast
  then show ?thesis using accepted assms(1) by (auto simp: guarded_def)
next
  case challenged
  then show ?thesis using assms(2) by (simp add: guarded_def clock_keeps_def)
qed

section \<open>The gate\<close>

lemma verified_unchanged: "mac_verify (message_mac C key d) seg = (ok, seg') \<Longrightarrow> seg' = seg"
  using smac.verify_unchanged [of C key d seg] by simp

lemma gate_seg [simp]: "snd (gate S h seg sid s) = seg"
  by (auto simp: gate_def verifyMessage_def dest: verified_unchanged split: option.split prod.splits)

lemma gate_closed:
  assumes "opt_User S \<noteq> []" and "sid \<notin> cn_authedSessions s"
    and "h_command h \<noteq> cmdNegotiate" and "h_command h \<noteq> cmdSessionSetup"
  shows "gate S h seg sid s = (Some statusUserSessionDeleted, seg)"
  using assms by (simp add: gate_def)

lemma substituteFileID_handshake:
  "cmd = cmdNegotiate \<or> cmd = cmdSessionSetup \<Longrightarrow> substituteFileID cmd body fid = body"
  by (auto simp: substituteFileID_def)

lemma handleCommand_guarded:
  assumes u: "opt_User S \<noteq> []" and c: "clock_keeps I S" and sf: "shares_from S s"
    and "handleCommand S h seg ctx s = (r, ctx', s')" and "sublist seg inp"
  shows "guarded S I inp s s'"
proof (cases "cn_authedSessions s = {}")
  case False
  have "step_ok S (\<lambda>_. True) s s'" by (rule handleCommand_step [OF assms(4) _ sf]) simp
  then show ?thesis using guarded_authed [OF False] by (auto simp: step_ok_def)
next
  case True
  define rel where "rel \<longleftrightarrow> h_flags h AND flagsRelatedOps \<noteq> 0"
  obtain sid tid ctx1 where x: "(if rel then (cx_sessionID ctx, cx_treeID ctx, ctx)
      else (h_sessionID h, h_treeID h,
        ctx\<lparr>cx_sessionID := h_sessionID h, cx_treeID := h_treeID h\<rparr>)) = (sid, tid, ctx1)"
    by (metis surj_pair)
  obtain ref where g: "gate S h seg sid s = (ref, seg)" using gate_seg by (metis surj_pair snd_conv)
  define body where "body = (case cx_fileID ctx1 of
      Some fid \<Rightarrow> if rel then substituteFileID (h_command h) (drop smb2HeaderSize seg) fid
        else drop smb2HeaderSize seg
    | None \<Rightarrow> drop smb2HeaderSize seg)"
  obtain r2 ctx2 s2 where rc: "run_command S h body sid tid ctx1 s = (r2, ctx2, s2)" by (metis surj_pair)
  have s': "s' = (case ref of Some _ \<Rightarrow> s | None \<Rightarrow> s2)"
    using assms(4) x g rc
    unfolding handleCommand_def Let_def rel_def [symmetric] body_def
    by (auto split: option.splits)
  show ?thesis
  proof (cases "h_command h = cmdNegotiate \<or> h_command h = cmdSessionSetup")
    case False
    then have "ref \<noteq> None" using gate_closed [OF u, of sid s h seg] True g by auto
    then show ?thesis using s' by auto
  next
    case hs: True
    have b: "body = drop smb2HeaderSize seg"
      using substituteFileID_handshake [OF hs] by (auto simp: body_def split: option.split)
    have bs: "sublist body inp" using assms(5) sublist_drop sublist_order.order_trans unfolding b by blast
    have "guarded S I inp s s2"
    proof (cases "h_command h = cmdNegotiate")
      case True
      then have "handleNegotiate S body s = (fst (handleNegotiate S body s), s2)"
        using rc by (auto simp: run_command_def Let_def split: prod.splits)
      then show ?thesis by (rule handleNegotiate_guarded [OF c])
    next
      case False
      obtain st i b s3 where e: "handleSessionSetup S h body s = ((st, i, b), s3)" by (metis surj_pair)
      then have "s3 = s2" using rc hs False by (auto simp: run_command_def Let_def)
      then show ?thesis using handleSessionSetup_guarded [OF u c e bs] by simp
    qed
    then show ?thesis using s' by (auto split: option.splits)
  qed
qed

section \<open>Chains, messages and connections\<close>

lemma smb1_guarded:
  assumes "clock_keeps I S" and "smb1NegotiateResponse S s = (out, s')"
  shows "guarded S I inp s s'"
proof -
  have "s' = snd (call (sv_now S) s)"
    using assms(2) by (auto simp: smb1NegotiateResponse_def Let_def split: prod.splits)
  then show ?thesis using assms(1) by (simp add: guarded_def clock_keeps_def)
qed

interpretation guard: command_relation S
    "\<lambda>b s s'. opt_User S \<noteq> [] \<longrightarrow> clock_keeps I S \<longrightarrow> shares_from S s \<longrightarrow>
       shares_from S s' \<and> guarded S I b s s'" for S I
proof (unfold_locales, goal_cases)
  case (2 a s s1 b s2)
  have "sublist a (a @ b)" "sublist b (a @ b)" by auto
  then show ?case using 2 guarded_mono guarded_trans by blast
next
  case (3 a s s' b)
  then show ?case using guarded_mono by blast
next
  case (4 h seg ctx s pdu ctx' s')
  then show ?case
    using handleCommand_guarded [OF _ _ _ 4(1) sublist_order.order_refl]
      handleCommand_step [OF 4(1), of "\<lambda>_. True"] by (simp add: step_ok_def)
next
  case (5 s out s' b)
  then show ?case
    using smb1_guarded [OF _ 5] shares_from_world [OF _ smb1_step [OF 5, of "\<lambda>_. True"]] by simp
qed simp

lemma serve_loop_guarded:
  "opt_User S \<noteq> [] \<Longrightarrow> clock_keeps I S \<Longrightarrow> shares_from S s \<Longrightarrow>
   serve_loop S inp outs s = (outs', s') \<Longrightarrow> guarded S I inp s s'"
  using guard.connection by blast

text \<open>The session a command runs on.\<close>

definition gate_session :: "header \<Rightarrow> chainCtx \<Rightarrow> u64" where
  "gate_session h ctx =
    (if h_flags h AND flagsRelatedOps \<noteq> 0 then cx_sessionID ctx else h_sessionID h)"

end
