(* ===== verification/Osfs.thy ===== *)
theory Osfs
  imports Fsx "HOL-Library.AList" "HOL-Library.List_Lexorder"
begin

text \<open>
  What \<open>internal/localfs\<close> uses of Go's \<open>os\<close> package on a Unix system, over an explicit file
  tree: a node per absolute path, file contents per inode, and a table of open files. An open
  file refers to its inode, so it survives a rename or a removal. Symbolic and hard links,
  permissions of other users, full disks and I/O errors are not modelled. The lemmas give the
  frame of each operation.
\<close>

section \<open>The file tree\<close>

type_synonym ospath = "gostring list"

datatype node = DirNode | FileNode nat

record filedata =
  fd_bytes :: bytes
  fd_mtime :: gotime
  fd_perm :: u32

record osw =
  os_nodes :: "(ospath \<times> node) list"
  os_data :: "nat \<Rightarrow> filedata"
  os_next :: nat
  os_fds :: "nat \<Rightarrow> (nat option \<times> u32) option"
  os_nextfd :: nat
  os_clock :: gotime

text \<open>The components of an absolute path; the root is \<open>[]\<close>.\<close>

definition os_path :: "gostring \<Rightarrow> ospath" where
  "os_path p = filter (\<lambda>c. c \<noteq> []) (split_on slash p)"

definition os_node :: "ospath \<Rightarrow> osw \<Rightarrow> node option" where
  "os_node p w = map_of (os_nodes w) p"

definition below :: "ospath \<Rightarrow> ospath \<Rightarrow> bool" where
  "below d p \<longleftrightarrow> take (length d) p = d"

definition base_name :: "ospath \<Rightarrow> gostring" where
  "base_name p = (if p = [] then [slash] else last p)"

definition node_info :: "gostring \<Rightarrow> node \<Rightarrow> osw \<Rightarrow> fileinfo" where
  "node_info name n w =
    (case n of
       DirNode \<Rightarrow> \<lparr>fi_name = name, fi_size = 0, fi_isDir = True, fi_perm = 0x1ED, fi_mtime = os_clock w\<rparr>
     | FileNode i \<Rightarrow>
         \<lparr>fi_name = name, fi_size = of_nat (length (fd_bytes (os_data w i))), fi_isDir = False,
          fi_perm = fd_perm (os_data w i), fi_mtime = fd_mtime (os_data w i)\<rparr>)"

definition set_data :: "nat \<Rightarrow> filedata \<Rightarrow> osw \<Rightarrow> osw" where
  "set_data i d w = w\<lparr>os_data := (os_data w)(i := d)\<rparr>"

definition set_bytes :: "nat \<Rightarrow> bytes \<Rightarrow> osw \<Rightarrow> osw" where
  "set_bytes i b w = set_data i ((os_data w i)\<lparr>fd_bytes := b, fd_mtime := os_clock w\<rparr>) w"

abbreviation EISDIR :: errno where "EISDIR \<equiv> OtherErrno 21"
abbreviation ENOTDIR :: errno where "ENOTDIR \<equiv> OtherErrno 20"
abbreviation EINVAL :: errno where "EINVAL \<equiv> OtherErrno 22"
abbreviation EBADF :: errno where "EBADF \<equiv> OtherErrno 9"

section \<open>Operations on paths\<close>

definition os_Stat :: "gostring \<Rightarrow> osw \<Rightarrow> (goerror + fileinfo) \<times> osw" where
  "os_Stat p w =
    (case os_node (os_path p) w of
       None \<Rightarrow> (Inl (Errno ENOENT), w)
     | Some n \<Rightarrow> (Inr (node_info (base_name (os_path p)) n w), w))"

definition new_fd :: "nat option \<Rightarrow> u32 \<Rightarrow> osw \<Rightarrow> (goerror + nat) \<times> osw" where
  "new_fd i flag w =
    (Inr (os_nextfd w),
     w\<lparr>os_fds := (os_fds w)(os_nextfd w := Some (i, flag)), os_nextfd := os_nextfd w + 1\<rparr>)"

definition os_OpenFile :: "gostring \<Rightarrow> u32 \<Rightarrow> u32 \<Rightarrow> osw \<Rightarrow> (goerror + nat) \<times> osw" where
  "os_OpenFile p flag perm w =
    (let q = os_path p in
     case os_node q w of
       Some DirNode \<Rightarrow>
         if flag AND (O_CREATE OR O_EXCL) = O_CREATE OR O_EXCL then (Inl (Errno EEXIST), w)
         else if flag AND (O_WRONLY OR O_RDWR OR O_TRUNC OR O_CREATE) \<noteq> 0 then (Inl (Errno EISDIR), w)
         else new_fd None flag w
     | Some (FileNode i) \<Rightarrow>
         if flag AND (O_CREATE OR O_EXCL) = O_CREATE OR O_EXCL then (Inl (Errno EEXIST), w)
         else new_fd (Some i) flag (if flag AND O_TRUNC \<noteq> 0 then set_bytes i [] w else w)
     | None \<Rightarrow>
         if flag AND O_CREATE = 0 \<or> q = [] then (Inl (Errno ENOENT), w)
         else
           (case os_node (butlast q) w of
              None \<Rightarrow> (Inl (Errno ENOENT), w)
            | Some (FileNode _) \<Rightarrow> (Inl (Errno ENOTDIR), w)
            | Some DirNode \<Rightarrow>
                let i = os_next w;
                    w = w\<lparr>os_nodes := AList.update q (FileNode i) (os_nodes w), os_next := i + 1\<rparr>;
                    w = set_data i \<lparr>fd_bytes = [], fd_mtime = os_clock w, fd_perm = perm\<rparr> w
                in new_fd (Some i) flag w))"

definition os_Mkdir :: "gostring \<Rightarrow> u32 \<Rightarrow> osw \<Rightarrow> goerror option \<times> osw" where
  "os_Mkdir p perm w =
    (let q = os_path p in
     if os_node q w \<noteq> None then (Some (Errno EEXIST), w)
     else
       (case os_node (butlast q) w of
          None \<Rightarrow> (Some (Errno ENOENT), w)
        | Some (FileNode _) \<Rightarrow> (Some (Errno ENOTDIR), w)
        | Some DirNode \<Rightarrow> (None, w\<lparr>os_nodes := AList.update q DirNode (os_nodes w)\<rparr>)))"

definition children :: "ospath \<Rightarrow> osw \<Rightarrow> (ospath \<times> node) list" where
  "children d w = filter (\<lambda>(p, _). p \<noteq> [] \<and> butlast p = d) (os_nodes w)"

text \<open>\<open>os.ReadDir\<close> lists an open directory and sorts by name; \<open>entry.Info\<close> stats each entry.\<close>

definition os_ReadDir :: "gostring \<Rightarrow> osw \<Rightarrow> (goerror + fileinfo list) \<times> osw" where
  "os_ReadDir p w =
    (let q = os_path p in
     case os_node q w of
       None \<Rightarrow> (Inl (Errno ENOENT), w)
     | Some (FileNode _) \<Rightarrow> (Inl (Errno ENOTDIR), w)
     | Some DirNode \<Rightarrow>
         (Inr (map (\<lambda>(p, n). node_info (last p) n w)
                (sort_key (\<lambda>(p, n). map unat (last p)) (children q w))), w))"

text \<open>
  \<open>os.Rename\<close>: an existing directory is not replaced (\<open>os/file_unix.go\<close> answers EEXIST); a file
  is. A directory moves with everything below it.
\<close>

definition move_nodes :: "ospath \<Rightarrow> ospath \<Rightarrow> (ospath \<times> node) list \<Rightarrow> (ospath \<times> node) list" where
  "move_nodes old new ns =
    map (\<lambda>(p, n). (if below old p then new @ drop (length old) p else p, n)) (AList.delete new ns)"

definition os_Rename :: "gostring \<Rightarrow> gostring \<Rightarrow> osw \<Rightarrow> goerror option \<times> osw" where
  "os_Rename oldp newp w =
    (let old = os_path oldp; new = os_path newp in
     if os_node new w = Some DirNode then
       (Some (Errno (if os_node old w = None then ENOENT else EEXIST)), w)
     else
       (case os_node (butlast new) w of
          None \<Rightarrow> (Some (Errno ENOENT), w)
        | Some (FileNode _) \<Rightarrow> (Some (Errno ENOTDIR), w)
        | Some DirNode \<Rightarrow>
            (case os_node old w of
               None \<Rightarrow> (Some (Errno ENOENT), w)
             | Some n \<Rightarrow>
                 if old = new then (None, w)
                 else if n = DirNode \<and> below old new then (Some (Errno EINVAL), w)
                 else if n = DirNode \<and> os_node new w \<noteq> None then (Some (Errno ENOTDIR), w)
                 else (None, w\<lparr>os_nodes := move_nodes old new (os_nodes w)\<rparr>))))"

definition os_Remove :: "gostring \<Rightarrow> osw \<Rightarrow> goerror option \<times> osw" where
  "os_Remove p w =
    (let q = os_path p in
     case os_node q w of
       None \<Rightarrow> (Some (Errno ENOENT), w)
     | Some DirNode \<Rightarrow>
         if q = [] \<or> children q w \<noteq> [] then (Some (Errno ENOTEMPTY), w)
         else (None, w\<lparr>os_nodes := AList.delete q (os_nodes w)\<rparr>)
     | Some (FileNode _) \<Rightarrow> (None, w\<lparr>os_nodes := AList.delete q (os_nodes w)\<rparr>))"

definition resize :: "nat \<Rightarrow> bytes \<Rightarrow> bytes" where
  "resize n b = take n b @ mk (n - length b)"

definition os_Truncate :: "gostring \<Rightarrow> i64 \<Rightarrow> osw \<Rightarrow> goerror option \<times> osw" where
  "os_Truncate p n w =
    (case os_node (os_path p) w of
       None \<Rightarrow> (Some (Errno ENOENT), w)
     | Some DirNode \<Rightarrow> (Some (Errno EISDIR), w)
     | Some (FileNode i) \<Rightarrow>
         if sint n < 0 then (Some (Errno EINVAL), w)
         else (None, set_bytes i (resize (unat n) (fd_bytes (os_data w i))) w))"

definition os_Chtimes :: "gostring \<Rightarrow> gotime \<Rightarrow> osw \<Rightarrow> goerror option \<times> osw" where
  "os_Chtimes p t w =
    (case os_node (os_path p) w of
       None \<Rightarrow> (Some (Errno ENOENT), w)
     | Some DirNode \<Rightarrow> (None, w)
     | Some (FileNode i) \<Rightarrow> (None, set_data i ((os_data w i)\<lparr>fd_mtime := t\<rparr>) w))"

section \<open>Operations on open files\<close>

abbreviation fd_writable :: "u32 \<Rightarrow> bool" where
  "fd_writable flag \<equiv> flag AND (O_WRONLY OR O_RDWR) \<noteq> 0"

text \<open>
  \<open>(*os.File).ReadAt\<close> fills the buffer unless it reaches the end of the file; \<open>WriteAt\<close> refuses
  a file opened with \<open>O_APPEND\<close> (\<open>errWriteAtInAppendMode\<close>) and a negative offset.
\<close>

definition os_ReadAt :: "nat \<Rightarrow> nat \<Rightarrow> i64 \<Rightarrow> osw \<Rightarrow> (bytes \<times> goerror option) \<times> osw" where
  "os_ReadAt h n off w =
    (case os_fds w h of
       None \<Rightarrow> (([], Some OtherError), w)
     | Some (i, flag) \<Rightarrow>
         if sint off < 0 then (([], Some OtherError), w)
         else if n = 0 then (([], None), w)
         else
           (case i of
              None \<Rightarrow> (([], Some (Errno EISDIR)), w)
            | Some i \<Rightarrow>
                if flag AND O_WRONLY \<noteq> 0 then (([], Some (Errno EBADF)), w)
                else
                  let data = take n (drop (unat off) (fd_bytes (os_data w i)))
                  in ((data, if length data < n then Some EOF else None), w)))"

definition os_WriteAt :: "nat \<Rightarrow> bytes \<Rightarrow> i64 \<Rightarrow> osw \<Rightarrow> (nat \<times> goerror option) \<times> osw" where
  "os_WriteAt h b off w =
    (case os_fds w h of
       None \<Rightarrow> ((0, Some OtherError), w)
     | Some (i, flag) \<Rightarrow>
         if flag AND O_APPEND \<noteq> 0 \<or> sint off < 0 then ((0, Some OtherError), w)
         else
           (case i of
              None \<Rightarrow> ((0, Some (Errno EBADF)), w)
            | Some i \<Rightarrow>
                if \<not> fd_writable flag then ((0, Some (Errno EBADF)), w)
                else if b = [] then ((0, None), w)
                else
                  let old = fd_bytes (os_data w i);
                      old = resize (max (length old) (unat off + length b)) old
                  in ((length b, None), set_bytes i (copy_at old (unat off) b) w)))"

definition os_FClose :: "nat \<Rightarrow> osw \<Rightarrow> goerror option \<times> osw" where
  "os_FClose h w =
    (case os_fds w h of
       None \<Rightarrow> (Some OtherError, w)
     | Some _ \<Rightarrow> (None, w\<lparr>os_fds := (os_fds w)(h := None)\<rparr>))"

definition os_FTruncate :: "nat \<Rightarrow> i64 \<Rightarrow> osw \<Rightarrow> goerror option \<times> osw" where
  "os_FTruncate h n w =
    (case os_fds w h of
       Some (Some i, flag) \<Rightarrow>
         if \<not> fd_writable flag \<or> sint n < 0 then (Some (Errno EINVAL), w)
         else (None, set_bytes i (resize (unat n) (fd_bytes (os_data w i))) w)
     | Some (None, _) \<Rightarrow> (Some (Errno EINVAL), w)
     | None \<Rightarrow> (Some OtherError, w))"

definition os_FSync :: "nat \<Rightarrow> osw \<Rightarrow> goerror option \<times> osw" where
  "os_FSync h w = (if os_fds w h = None then (Some OtherError, w) else (None, w))"

text \<open>\<open>(*os.File).Stat\<close> reports the name the file was opened by, which no caller reads.\<close>

definition os_FStat :: "nat \<Rightarrow> osw \<Rightarrow> (goerror + fileinfo) \<times> osw" where
  "os_FStat h w =
    (case os_fds w h of
       None \<Rightarrow> (Inl OtherError, w)
     | Some (None, _) \<Rightarrow> (Inr (node_info [] DirNode w), w)
     | Some (Some i, _) \<Rightarrow> (Inr (node_info [] (FileNode i) w), w))"

end
