(* ===== verification/Localfs.thy ===== *)
theory Localfs
  imports Osfs
begin

text \<open>
  \<open>internal/localfs/localfs.go\<close> with \<open>open_other.go\<close> and \<open>statfs_unix.go\<close>: the backend that
  serves a directory of a Unix machine. The lemmas show that a share-relative path always
  resolves to a path below the root, that the operations which only look leave the file tree
  as it was, and that no operation touches anything outside the root.
\<close>

section \<open>Resolving a path\<close>

text \<open>\<open>filepath.Join(root, p)\<close> of two elements, and \<open>filepath.Rel\<close> of two absolute paths.\<close>

definition filepath_Join :: "gostring \<Rightarrow> gostring \<Rightarrow> gostring" where
  "filepath_Join a b = path_Clean (a @ slash # b)"

fun rel_components :: "gostring list \<Rightarrow> gostring list \<Rightarrow> gostring list" where
  "rel_components (b # bs) (t # ts) =
    (if b = t then rel_components bs ts else replicate (length (b # bs)) dotdot @ t # ts)"
| "rel_components bs ts = replicate (length bs) dotdot @ ts"

definition filepath_Rel :: "gostring \<Rightarrow> gostring \<Rightarrow> gostring" where
  "filepath_Rel basep targ =
    (let cs = rel_components (os_path (path_Clean basep)) (os_path (path_Clean targ))
     in if cs = [] then dot else join_with slash cs)"

definition resolve :: "gostring \<Rightarrow> gostring \<Rightarrow> goerror + gostring" where
  "resolve root p =
    (if p = [] then Inr root
     else
       let clean = path_Clean (slash # p);
           full = filepath_Join root clean;
           rel = filepath_Rel root full
       in if rel = dotdot \<or> take 3 rel = dotdot @ [slash] then Inl ErrPermission
          else Inr full)"

section \<open>The backend\<close>

definition lfs_Stat :: "gostring \<Rightarrow> gostring \<Rightarrow> osw \<Rightarrow> (goerror + fileinfo) \<times> osw" where
  "lfs_Stat root p w = (case resolve root p of Inl e \<Rightarrow> (Inl e, w) | Inr full \<Rightarrow> os_Stat full w)"

definition lfs_OpenFile :: "gostring \<Rightarrow> gostring \<Rightarrow> u32 \<Rightarrow> u32 \<Rightarrow> osw \<Rightarrow> (goerror + nat) \<times> osw" where
  "lfs_OpenFile root p flag perm w =
    (case resolve root p of Inl e \<Rightarrow> (Inl e, w) | Inr full \<Rightarrow> os_OpenFile full flag perm w)"

definition lfs_Mkdir :: "gostring \<Rightarrow> gostring \<Rightarrow> u32 \<Rightarrow> osw \<Rightarrow> goerror option \<times> osw" where
  "lfs_Mkdir root p perm w =
    (case resolve root p of Inl e \<Rightarrow> (Some e, w) | Inr full \<Rightarrow> os_Mkdir full perm w)"

definition lfs_ReadDir :: "gostring \<Rightarrow> gostring \<Rightarrow> osw \<Rightarrow> (goerror + fileinfo list) \<times> osw" where
  "lfs_ReadDir root p w =
    (case resolve root p of Inl e \<Rightarrow> (Inl e, w) | Inr full \<Rightarrow> os_ReadDir full w)"

definition lfs_Rename :: "gostring \<Rightarrow> gostring \<Rightarrow> gostring \<Rightarrow> osw \<Rightarrow> goerror option \<times> osw" where
  "lfs_Rename root oldPath newPath w =
    (case resolve root oldPath of
       Inl e \<Rightarrow> (Some e, w)
     | Inr oldFull \<Rightarrow>
         (case resolve root newPath of
            Inl e \<Rightarrow> (Some e, w)
          | Inr newFull \<Rightarrow> os_Rename oldFull newFull w))"

definition lfs_Remove :: "gostring \<Rightarrow> gostring \<Rightarrow> osw \<Rightarrow> goerror option \<times> osw" where
  "lfs_Remove root p w = (case resolve root p of Inl e \<Rightarrow> (Some e, w) | Inr full \<Rightarrow> os_Remove full w)"

definition lfs_Truncate :: "gostring \<Rightarrow> gostring \<Rightarrow> i64 \<Rightarrow> osw \<Rightarrow> goerror option \<times> osw" where
  "lfs_Truncate root p n w =
    (case resolve root p of Inl e \<Rightarrow> (Some e, w) | Inr full \<Rightarrow> os_Truncate full n w)"

definition lfs_Chtimes :: "gostring \<Rightarrow> gostring \<Rightarrow> gotime \<Rightarrow> osw \<Rightarrow> goerror option \<times> osw" where
  "lfs_Chtimes root p t w =
    (case resolve root p of Inl e \<Rightarrow> (Some e, w) | Inr full \<Rightarrow> os_Chtimes full t w)"

definition lfs_CaseInsensitive :: "platform \<Rightarrow> bool" where
  "lfs_CaseInsensitive goos \<longleftrightarrow> goos = Windows \<or> goos = Darwin"

text \<open>\<open>st\<close> is what \<open>syscall.Statfs\<close> says of the root: block size, blocks, available blocks.\<close>

definition lfs_statfs :: "goerror + i64 \<times> i64 \<times> i64 \<Rightarrow> i64 \<times> i64 \<times> goerror option" where
  "lfs_statfs st =
    (case st of
       Inl e \<Rightarrow> (0, 0, Some e)
     | Inr (bsize, blocks, bavail) \<Rightarrow> (blocks * bsize, bavail * bsize, None))"

definition localFS :: "platform \<Rightarrow> (goerror + i64 \<times> i64 \<times> i64) \<Rightarrow> gostring \<Rightarrow> osw fs" where
  "localFS goos st root =
    \<lparr>fs_Stat = lfs_Stat root, fs_OpenFile = lfs_OpenFile root, fs_Mkdir = lfs_Mkdir root,
     fs_ReadDir = lfs_ReadDir root, fs_Rename = lfs_Rename root, fs_Remove = lfs_Remove root,
     fs_Truncate = lfs_Truncate root, fs_Chtimes = lfs_Chtimes root,
     fs_Statfs = (\<lambda>w. (lfs_statfs st, w)), fs_CaseInsensitive = lfs_CaseInsensitive goos,
     f_ReadAt = os_ReadAt, f_WriteAt = os_WriteAt, f_Close = os_FClose,
     f_Truncate = os_FTruncate, f_Sync = os_FSync, f_Stat = os_FStat\<rparr>"

text \<open>\<open>New\<close> on an absolute directory name (\<open>filepath.Abs\<close> then cleans it).\<close>

definition lfs_New :: "gostring \<Rightarrow> osw \<Rightarrow> goerror + gostring" where
  "lfs_New dir w =
    (let root = path_Clean dir
     in case fst (os_Stat root w) of
          Inl e \<Rightarrow> Inl e
        | Inr fi \<Rightarrow> if \<not> fi_isDir fi then Inl OtherError else Inr root)"

section \<open>Containment\<close>

text \<open>A root as \<open>New\<close> leaves it: absolute and clean.\<close>

definition clean_root :: "gostring \<Rightarrow> bool" where
  "clean_root root \<longleftrightarrow> (\<exists>cs. root = slash # join_with slash cs \<and> (\<forall>c \<in> set cs. plain_component c))"

lemma os_path_abs:
  assumes "\<forall>c \<in> set cs. plain_component c"
  shows "os_path (slash # join_with slash cs) = cs"
  using split_on_join_plain [OF assms] split_on_append [of slash "[]" "join_with slash cs"]
  by (simp add: os_path_def)

lemma filepath_Join_components:
  assumes "\<forall>c \<in> set rs. plain_component c" and "\<forall>c \<in> set cs. plain_component c"
  shows "filepath_Join (slash # join_with slash rs) (slash # join_with slash cs)
       = slash # join_with slash (rs @ cs)"
proof -
  let ?f = "filter (\<lambda>c. c \<noteq> []) :: gostring list \<Rightarrow> gostring list"
  let ?xs = "split_on slash (slash # join_with slash rs) @ split_on slash (slash # join_with slash cs)"
  have s: "split_on slash (slash # join_with slash ps) = [] # split_on slash (join_with slash ps)" for ps
    using split_on_append [of slash "[]" "join_with slash ps"] by simp
  have m: "{c \<in> set (split_on slash (join_with slash ps)). c \<noteq> []} = set ps"
    if "\<forall>c \<in> set ps. plain_component c" for ps
    using arg_cong [OF split_on_join_plain [OF that], of set] by simp
  have "\<forall>d \<in> set ?xs. d = [] \<or> plain_component d"
    using m [OF assms(1)] m [OF assms(2)] assms by (auto simp: s)
  then have "clean_components True ?xs = ?f ?xs" by (rule clean_components_filter)
  also have "\<dots> = rs @ cs"
    using split_on_join_plain [OF assms(1)] split_on_join_plain [OF assms(2)] by (simp add: s)
  finally have "clean_components True ?xs = rs @ cs" .
  moreover have "split_on slash ((slash # join_with slash rs) @ slash # (slash # join_with slash cs)) = ?xs"
    by (rule split_on_append)
  ultimately show ?thesis by (simp add: filepath_Join_def path_Clean_def Let_def)
qed

lemma rel_components_below: "rel_components bs (bs @ ts) = ts"
  by (induction bs) (cases ts; simp)+

text \<open>The check after \<open>filepath.Rel\<close> never fires: a cleaned path is already below the root.\<close>

lemma resolve_below:
  assumes "\<forall>c \<in> set rs. plain_component c"
  shows "resolve (slash # join_with slash rs) p = Inr (slash # join_with slash (rs @ path_components p))"
proof (cases "p = []")
  case True
  then show ?thesis by (simp add: resolve_def path_components_def clean_components_def clean_step_def)
next
  case False
  let ?root = "slash # join_with slash rs" and ?cs = "path_components p"
  note plain = path_components_plain [of p]
  have rscs: "\<forall>c \<in> set (rs @ ?cs). plain_component c" using assms plain by auto
  have clean: "path_Clean (slash # join_with slash ps) = slash # join_with slash ps"
    if "\<forall>c \<in> set ps. plain_component c" for ps
    by (simp add: path_Clean_abs path_components_join [OF that])
  have "filepath_Rel ?root (slash # join_with slash (rs @ ?cs))
      = (if ?cs = [] then dot else join_with slash ?cs)"
    by (simp add: filepath_Rel_def clean [OF assms] clean [OF rscs] os_path_abs [OF assms]
        os_path_abs [OF rscs] rel_components_below Let_def)
  moreover have "join_with slash ?cs \<noteq> dotdot \<and> take 3 (join_with slash ?cs) \<noteq> dotdot @ [slash]"
  proof -
    have "dotdot \<noteq> c \<and> (\<forall>t. c @ slash # t \<noteq> dotdot \<and> take 3 (c @ slash # t) \<noteq> dotdot @ [slash]) \<and>
        take 3 c \<noteq> dotdot @ [slash]" if c: "plain_component c" for c
    proof -
      have "slash \<notin> set c" "c \<noteq> []" "c \<noteq> dotdot" using c by (auto simp: plain_component_def)
      then show ?thesis
        by (cases c; cases "tl c"; cases "tl (tl c)") (auto simp: numeral_3_eq_3)
    qed
    then show ?thesis using plain by (cases ?cs; cases "tl ?cs") auto
  qed
  ultimately show ?thesis
    using False
    by (simp add: resolve_def path_Clean_abs filepath_Join_components [OF assms plain] Let_def)
qed

lemma resolve_path:
  assumes "clean_root root"
  obtains full where "resolve root p = Inr full" "os_path full = os_path root @ path_components p"
proof -
  obtain rs where rs: "root = slash # join_with slash rs" "\<forall>c \<in> set rs. plain_component c"
    using assms by (auto simp: clean_root_def)
  have all: "\<forall>c \<in> set (rs @ path_components p). plain_component c"
    using rs(2) path_components_plain [of p] by auto
  show thesis
    using that [OF resolve_below [OF rs(2), folded rs(1)]] os_path_abs [OF all] os_path_abs [OF rs(2)] rs(1)
    by simp
qed


section \<open>Looking changes nothing\<close>

text \<open>The operations that only look leave nodes and contents as they are.\<close>

definition same_tree :: "(ospath \<times> node) list \<times> (nat \<Rightarrow> filedata) \<Rightarrow> osw \<Rightarrow> bool" where
  "same_tree T w \<longleftrightarrow> (os_nodes w, os_data w) = T"

interpretation lfs_query: query_backend "localFS goos st root" "same_tree T" for goos st root T
  by unfold_locales
    (auto simp: same_tree_def localFS_def lfs_Stat_def lfs_OpenFile_def lfs_ReadDir_def os_Stat_def
      os_OpenFile_def os_ReadDir_def os_ReadAt_def os_FClose_def os_FSync_def os_FStat_def new_fd_def Let_def
      split: sum.split option.split node.split)

section \<open>Nothing outside the shared directories changes\<close>

text \<open>A path in one of the directories \<open>D\<close>, and the nodes of a tree that lie in none of them.\<close>

definition within :: "ospath list \<Rightarrow> ospath \<Rightarrow> bool" where
  "within D p = list_ex (\<lambda>d. below d p) D"

definition outside_nodes :: "ospath list \<Rightarrow> (ospath \<times> node) list \<Rightarrow> (ospath \<times> node) list" where
  "outside_nodes D ns = filter (\<lambda>(p, n). \<not> within D p) ns"

definition file_inodes :: "(ospath \<times> node) list \<Rightarrow> nat set" where
  "file_inodes ns = {i. \<exists>p. (p, FileNode i) \<in> set ns}"

text \<open>
  What lies outside the directories \<open>D\<close> is \<open>T\<close>: the nodes, and the contents of their files; the files
  in \<open>D\<close>, the open files and the next inode are none of those.
\<close>

definition sealed :: "ospath list \<Rightarrow> (ospath \<times> node) list \<times> (nat \<Rightarrow> filedata) \<Rightarrow> osw \<Rightarrow> bool" where
  "sealed D T w \<longleftrightarrow>
    outside_nodes D (os_nodes w) = fst T \<and>
    (\<forall>i \<in> file_inodes (fst T). os_data w i = snd T i \<and> i < os_next w) \<and>
    (\<forall>h i flag. os_fds w h = Some (Some i, flag) \<longrightarrow> i \<notin> file_inodes (fst T)) \<and>
    (\<forall>p i. (p, FileNode i) \<in> set (os_nodes w) \<longrightarrow> within D p \<longrightarrow> i \<notin> file_inodes (fst T))"

lemma below_append [simp]: "below d (d @ p)"
  by (simp add: below_def)

lemma below_trans: "below d q \<Longrightarrow> below q p \<Longrightarrow> below d p"
proof -
  assume a: "below d q" and b: "below q p"
  obtain q' where q: "q = d @ q'" using a by (metis append_take_drop_id below_def)
  obtain p' where "p = q @ p'" using b by (metis append_take_drop_id below_def)
  then show ?thesis by (simp add: q)
qed

lemma within_trans: "within D q \<Longrightarrow> below q p \<Longrightarrow> within D p"
  by (auto simp: within_def list_ex_iff intro: below_trans)

lemma outside_update: "within D q \<Longrightarrow> outside_nodes D (AList.update q n ns) = outside_nodes D ns"
  by (induction ns) (auto simp: outside_nodes_def)

lemma outside_delete: "within D q \<Longrightarrow> outside_nodes D (AList.delete q ns) = outside_nodes D ns"
  by (induction ns) (auto simp: outside_nodes_def AList.delete_eq)

lemma outside_move:
  assumes "within D old" and "within D new"
  shows "outside_nodes D (move_nodes old new ns) = outside_nodes D ns"
proof -
  have "outside_nodes D (map (\<lambda>(p, n). (if below old p then new @ drop (length old) p else p, n)) ms)
      = outside_nodes D ms" for ms
  proof (induction ms)
    case (Cons m ms)
    then show ?case
      using within_trans [OF assms(1)] within_trans [OF assms(2), of "new @ r" for r]
      by (auto simp: outside_nodes_def split: prod.splits)
  qed (simp add: outside_nodes_def)
  then show ?thesis by (simp add: move_nodes_def outside_delete [OF assms(2)])
qed

lemma sealed_node:
  "sealed D T w \<Longrightarrow> within D q \<Longrightarrow> os_node q w = Some (FileNode i) \<Longrightarrow> i \<notin> file_inodes (fst T)"
  by (auto simp: sealed_def os_node_def dest: map_of_SomeD)

lemma sealed_next: "sealed D T w \<Longrightarrow> os_next w \<notin> file_inodes (fst T)"
  by (auto simp: sealed_def)

lemma sealed_set_data: "sealed D T w \<Longrightarrow> i \<notin> file_inodes (fst T) \<Longrightarrow> sealed D T (set_data i x w)"
  by (auto simp: sealed_def set_data_def)

lemma sealed_set_bytes: "sealed D T w \<Longrightarrow> i \<notin> file_inodes (fst T) \<Longrightarrow> sealed D T (set_bytes i b w)"
  by (simp add: set_bytes_def sealed_set_data)

lemma sealed_new_fd:
  "sealed D T w \<Longrightarrow> (\<And>j. i = Some j \<Longrightarrow> j \<notin> file_inodes (fst T)) \<Longrightarrow> sealed D T (snd (new_fd i flag w))"
  by (auto simp: sealed_def new_fd_def)

lemma sealed_nodes:
  assumes "sealed D T w" and "outside_nodes D ns = outside_nodes D (os_nodes w)"
    and "\<And>p i. (p, FileNode i) \<in> set ns \<Longrightarrow> within D p \<Longrightarrow>
      i \<notin> file_inodes (fst T)"
  shows "sealed D T (w\<lparr>os_nodes := ns\<rparr>)"
  using assms by (simp add: sealed_def)

lemma update_member:
  "(q, n) \<in> set (AList.update k v ns) \<Longrightarrow> (q, n) = (k, v) \<or> (q, n) \<in> set ns"
  by (induction ns) (auto split: if_splits)

lemma os_OpenFile_sealed:
  assumes "sealed D T w" and "within D (os_path p)"
  shows "sealed D T (snd (os_OpenFile p flag perm w))"
proof (cases "os_node (os_path p) w")
  case None
  let ?i = "os_next w"
  let ?w1 = "w\<lparr>os_nodes := AList.update (os_path p) (FileNode ?i) (os_nodes w), os_next := ?i + 1\<rparr>"
  have "i \<notin> file_inodes (fst T)"
    if "(q, FileNode i) \<in> set (AList.update (os_path p) (FileNode ?i) (os_nodes w))" "within D q" for q i
    using update_member [OF that(1)] that(2) assms(1) sealed_next [OF assms(1)] by (auto simp: sealed_def)
  then have w1: "sealed D T ?w1"
    using assms(1) outside_update [OF assms(2)] by (auto simp: sealed_def intro: less_SucI)
  then show ?thesis
    using None assms(1) sealed_next [OF assms(1)] w1
    by (auto simp: os_OpenFile_def Let_def intro!: sealed_new_fd sealed_set_data
        split: option.split node.split)
next
  case (Some n)
  then show ?thesis
    using assms sealed_node [OF assms(1,2)]
    by (cases n) (auto simp: os_OpenFile_def Let_def intro!: sealed_new_fd sealed_set_bytes)
qed

lemma os_path_ops_sealed:
  assumes s: "sealed D T w" and q: "within D (os_path p)"
  shows "sealed D T (snd (os_Mkdir p perm w))" and "sealed D T (snd (os_Remove p w))"
    and "sealed D T (snd (os_Truncate p n w))" and "sealed D T (snd (os_Chtimes p t w))"
proof -
  have "sealed D T (w\<lparr>os_nodes := AList.update (os_path p) DirNode (os_nodes w)\<rparr>)"
    using s outside_update [OF q] by (intro sealed_nodes) (auto simp: sealed_def dest!: update_member)
  then show "sealed D T (snd (os_Mkdir p perm w))"
    using s by (auto simp: os_Mkdir_def Let_def split: option.split node.split)
  have "sealed D T (w\<lparr>os_nodes := AList.delete (os_path p) (os_nodes w)\<rparr>)"
    using s outside_delete [OF q] by (intro sealed_nodes) (auto simp: sealed_def AList.delete_eq)
  then show "sealed D T (snd (os_Remove p w))"
    using s by (auto simp: os_Remove_def Let_def split: option.split node.split)
  show "sealed D T (snd (os_Truncate p n w))" "sealed D T (snd (os_Chtimes p t w))"
    using s sealed_node [OF s q]
    by (auto simp: os_Truncate_def os_Chtimes_def intro: sealed_set_bytes sealed_set_data
        split: option.split node.split)
qed

lemma move_member:
  "(q, n) \<in> set (move_nodes old new ns) \<Longrightarrow>
   \<exists>p. (p, n) \<in> set ns \<and> (q = p \<or> below old p)"
  by (auto simp: move_nodes_def AList.delete_eq split: if_splits)

lemma os_Rename_sealed:
  assumes s: "sealed D T w" and q: "within D (os_path p)" "within D (os_path p')"
  shows "sealed D T (snd (os_Rename p p' w))"
proof -
  have "sealed D T (w\<lparr>os_nodes := move_nodes (os_path p) (os_path p') (os_nodes w)\<rparr>)"
    using s outside_move [OF q] within_trans [OF q(1)]
    by (intro sealed_nodes) (auto simp: sealed_def dest!: move_member)
  then show ?thesis
    using s by (auto simp: os_Rename_def Let_def split: option.split node.split)
qed

lemma os_fd_ops_sealed:
  assumes s: "sealed D T w"
  shows "sealed D T (snd (os_WriteAt h b off w))" and "sealed D T (snd (os_FTruncate h n w))"
    and "sealed D T (snd (os_FClose h w))" and "sealed D T (snd (os_FSync h w))"
    and "sealed D T (snd (os_FStat h w))" and "sealed D T (snd (os_ReadAt h m off w))"
proof -
  have i: "os_fds w h = Some (Some i, flag) \<Longrightarrow> i \<notin> file_inodes (fst T)" for i flag
    using s by (auto simp: sealed_def)
  show "sealed D T (snd (os_WriteAt h b off w))" "sealed D T (snd (os_FTruncate h n w))"
    using s i
    by (auto simp: os_WriteAt_def os_FTruncate_def Let_def intro: sealed_set_bytes split: option.split)
  show "sealed D T (snd (os_FClose h w))" "sealed D T (snd (os_FSync h w))"
    "sealed D T (snd (os_FStat h w))" "sealed D T (snd (os_ReadAt h m off w))"
    using s
    by (auto simp: os_FClose_def os_FSync_def os_FStat_def os_ReadAt_def sealed_def Let_def
        split: option.split)
qed

text \<open>
  A directory served by \<open>localfs\<close> keeps, in every operation, what is outside any directories \<open>D\<close> that
  it lies in; with the roots of all shares for \<open>D\<close>, what is outside of all of them.
\<close>

locale local_share =
  fixes goos :: platform and st :: "goerror + i64 \<times> i64 \<times> i64" and root :: gostring
    and D :: "ospath list"
  assumes root: "clean_root root" and above: "within D (os_path root)"
begin

lemma resolved:
  obtains full where "resolve root p = Inr full" "within D (os_path full)"
  by (rule resolve_path [OF root, of p]) (use within_trans [OF above] in simp)

end

sublocale local_share \<subseteq> contained: any_backend "localFS goos st root" "sealed D T" for T
proof (unfold_locales, goal_cases)
  case (1 w p) show ?case
    by (rule resolved [of p]) (use 1 in \<open>auto simp: localFS_def lfs_Stat_def os_Stat_def split: option.split\<close>)
next
  case (2 w p perm) show ?case
    by (rule resolved [of p]) (use 2 in \<open>auto simp: localFS_def lfs_OpenFile_def intro: os_OpenFile_sealed\<close>)
next
  case (3 w p) show ?case
    by (rule resolved [of p]) (use 3 in \<open>auto simp: localFS_def lfs_ReadDir_def os_ReadDir_def Let_def split: option.split node.split\<close>)
next
  case (9 w p flag perm) show ?case
    by (rule resolved [of p]) (use 9 in \<open>auto simp: localFS_def lfs_OpenFile_def intro: os_OpenFile_sealed\<close>)
next
  case (10 w p perm) show ?case
    by (rule resolved [of p]) (use 10 in \<open>auto simp: localFS_def lfs_Mkdir_def intro: os_path_ops_sealed\<close>)
next
  case (11 w p p')
  obtain f where f: "resolve root p = Inr f" "within D (os_path f)" by (rule resolved)
  obtain f' where f': "resolve root p' = Inr f'" "within D (os_path f')" by (rule resolved)
  show ?case using 11 f f' by (auto simp: localFS_def lfs_Rename_def intro: os_Rename_sealed)
next
  case (12 w p) show ?case
    by (rule resolved [of p]) (use 12 in \<open>auto simp: localFS_def lfs_Remove_def intro: os_path_ops_sealed\<close>)
next
  case (13 w p n) show ?case
    by (rule resolved [of p]) (use 13 in \<open>auto simp: localFS_def lfs_Truncate_def intro: os_path_ops_sealed\<close>)
next
  case (14 w p t) show ?case
    by (rule resolved [of p]) (use 14 in \<open>auto simp: localFS_def lfs_Chtimes_def intro: os_path_ops_sealed\<close>)
qed (auto simp: localFS_def intro: os_fd_ops_sealed)

text \<open>The interface on a root such as a command line gives it.\<close>

definition srv_root :: gostring where "srv_root = ascii ''/srv''"

interpretation srv: local_share Linux "Inr (4096, 1000, 500)" srv_root "[os_path srv_root]"
proof
  have "srv_root = slash # join_with slash [ascii ''srv'']" by (simp add: srv_root_def)
  moreover have "plain_component (ascii ''srv'')" by (simp add: plain_component_def)
  ultimately show "clean_root srv_root" unfolding clean_root_def by (metis empty_iff empty_set set_ConsD)
qed (simp add: within_def below_def)

end
