(* ===== verification/Connection.thy ===== *)
theory Connection
  imports Safety Localfs
begin

text \<open>
  A whole connection over local shares: what a property of the world that the backends keep says
  about \<open>serve\<close>, instantiated with the two properties \<open>Localfs\<close> proves of its backend; and a
  small machine on which the theorems are tried.
\<close>

section \<open>A connection and the world\<close>

context local_share begin

lemma keeps_sealed: "any_backend (localFS goos st root) (sealed D T)"
  by (rule contained.any_backend_axioms)

end

lemma closeAllHandles_empty: "cn_handles s = [] \<Longrightarrow> cn_world (closeAllHandles order s) = cn_world s"
proof -
  have "List.map_filter (map_of ([] :: (bytes \<times> 'a openFile) list)) ks = []" for ks
    by (induction ks) (simp_all add: List.map_filter_def)
  then show "cn_handles s = [] \<Longrightarrow> cn_world (closeAllHandles order s) = cn_world s"
    by (simp add: closeAllHandles_def Let_def)
qed

text \<open>A property of the world that the backends, the clock and the random source keep.\<close>

lemma serve_keeps:
  assumes "server_keeps I S" and "I w" and "serve S inp order (newConn a b w) = (outs, s')"
  shows "I (cn_world s')"
proof -
  obtain s1 where l: "serve_loop S inp [] (newConn a b w) = (outs, s1)"
    and s': "s' = closeAllHandles order s1"
    using assms(3) by (auto simp: serve_def split: prod.splits)
  have "steps_ok S I (length inp) (newConn a b w) s1"
    by (rule serve_loop_steps [OF assms(1) newConn_ok(2) l])
  then have "I (cn_world s1)" "shares_from S s1"
    using assms(2) by (simp_all add: steps_ok_def newConn_def)
  then show ?thesis unfolding s' by (intro closeAllHandles_keeps [OF assms(1)])
qed

text \<open>The share is of the local directory \<open>root\<close>.\<close>

definition serves_local :: "gostring \<Rightarrow> osw share \<Rightarrow> bool" where
  "serves_local root sh \<longleftrightarrow> (\<exists>goos st. sh_fs sh = localFS goos st root) \<and> clean_root root"

lemma server_keeps_sealed:
  assumes "\<forall>sh \<in> set (sv_shares S). \<exists>root \<in> set roots. serves_local root sh"
    and "clock_keeps (sealed (map os_path roots) T) S"
  shows "server_keeps (sealed (map os_path roots) T) S"
proof -
  let ?D = "map os_path roots"
  have "share_keeps (sealed ?D T) sh" if m: "sh \<in> set (sv_shares S)" for sh
  proof -
    obtain goos st root where fs: "sh_fs sh = localFS goos st root"
      and r: "clean_root root" "root \<in> set roots"
      using m assms(1) unfolding serves_local_def by blast
    then have "within ?D (os_path root)"
      by (auto simp: within_def list_ex_iff below_def intro!: bexI [of _ root])
    with r have "local_share root ?D" by (simp add: local_share_def)
    then have "any_backend (localFS goos st root) (sealed ?D T)" by (rule local_share.keeps_sealed)
    then show ?thesis by (simp add: share_keeps_def fs any_backend.axioms(1))
  qed
  then show ?thesis using assms(2) by (simp add: server_keeps_def clock_keeps_def)
qed

text \<open>A node with the contents of its file.\<close>

definition node_view :: "osw \<Rightarrow> ospath \<times> node \<Rightarrow> ospath \<times> filedata option" where
  "node_view w pn =
    (fst pn, case snd pn of DirNode \<Rightarrow> None | FileNode i \<Rightarrow> Some (os_data w i))"

lemma sealed_view:
  assumes "sealed D T w'" and "sealed D T w"
  shows "map (node_view w') (outside_nodes D (os_nodes w')) = map (node_view w) (outside_nodes D (os_nodes w))"
proof -
  have "os_data w' i = os_data w i" if "(p, FileNode i) \<in> set (fst T)" for p i
  proof -
    have i: "i \<in> file_inodes (fst T)" using that unfolding file_inodes_def by blast
    then have "os_data w' i = snd T i" using assms(1) unfolding sealed_def by blast
    also have "\<dots> = os_data w i" using i assms(2) unfolding sealed_def by auto
    finally show ?thesis .
  qed
  then have "\<forall>pn \<in> set (fst T). node_view w' pn = node_view w pn"
    by (auto simp: node_view_def split: node.split)
  then show ?thesis using assms by (simp add: sealed_def)
qed

definition local_readonly :: "osw share \<Rightarrow> bool" where
  "local_readonly sh \<longleftrightarrow> sh_readOnly sh \<and> (\<exists>goos st root. sh_fs sh = localFS goos st root)"

lemma server_keeps_same_tree:
  assumes "list_all local_readonly (sv_shares S)" and "clock_keeps (same_tree T) S"
  shows "server_keeps (same_tree T) S"
proof -
  have "share_keeps (same_tree T) sh" if m: "sh \<in> set (sv_shares S)" for sh
  proof -
    obtain goos st root where "sh_fs sh = localFS goos st root" "sh_readOnly sh"
      using m assms(1) by (auto simp: list_all_iff local_readonly_def)
    then show ?thesis
      using lfs_query.query_backend_axioms [of goos st root T] by (simp add: share_keeps_def)
  qed
  then show ?thesis using assms(2) by (simp add: server_keeps_def clock_keeps_def)
qed

section \<open>A machine to try the theorems on\<close>

text \<open>A directory \<open>/srv\<close> with a file in it, and a file outside it.\<close>

definition demo_osw :: osw where
  "demo_osw = \<lparr>os_nodes = [([], DirNode), ([ascii ''srv''], DirNode), ([ascii ''srv'', ascii ''a''], FileNode 0),
       ([ascii ''etc''], DirNode), ([ascii ''etc'', ascii ''b''], FileNode 1)],
     os_data = (\<lambda>_. \<lparr>fd_bytes = [1, 2, 3], fd_mtime = ZeroTime, fd_perm = 0\<rparr>), os_next = 2,
     os_fds = (\<lambda>_. None), os_nextfd = 0, os_clock = ZeroTime\<rparr>"

definition demo_share :: "bool \<Rightarrow> osw share" where
  "demo_share ro = \<lparr>sh_name = ascii ''data'', sh_fs = localFS Linux (Inr (4096, 1000, 500)) srv_root,
     sh_readOnly = ro\<rparr>"

lemma demo_clock: "clock_keeps I (demo_server u shs)"
  by (simp add: clock_keeps_def)

lemma demo_share_local: "serves_local srv_root (demo_share ro)"
  using srv.root unfolding serves_local_def demo_share_def by (metis share.select_convs(2))

lemma srv_path: "os_path srv_root = [ascii ''srv'']"
  by (simp add: os_path_def srv_root_def)

lemma demo_sealed:
  "sealed [os_path srv_root] (outside_nodes [os_path srv_root] (os_nodes demo_osw), os_data demo_osw) demo_osw"
  unfolding srv_path
  by (auto simp: sealed_def demo_osw_def outside_nodes_def file_inodes_def within_def below_def)

text \<open>The machine with a second directory in another place, and a share of it.\<close>

definition mnt_root :: gostring where
  "mnt_root = ascii ''/mnt''"

definition demo_osw2 :: osw where
  "demo_osw2 = demo_osw\<lparr>os_nodes := os_nodes demo_osw @ [([ascii ''mnt''], DirNode)]\<rparr>"

definition demo_share2 :: "osw share" where
  "demo_share2 = \<lparr>sh_name = ascii ''mnt'', sh_fs = localFS Linux (Inr (4096, 1000, 500)) mnt_root,
     sh_readOnly = False\<rparr>"

lemma demo_share2_local: "serves_local mnt_root demo_share2"
proof -
  have "mnt_root = slash # join_with slash [ascii ''mnt'']" by (simp add: mnt_root_def)
  moreover have "plain_component (ascii ''mnt'')" by (simp add: plain_component_def)
  ultimately have "clean_root mnt_root" unfolding clean_root_def by (metis empty_iff empty_set set_ConsD)
  then show ?thesis unfolding serves_local_def demo_share2_def by (metis share.select_convs(2))
qed

lemma demo_sealed2:
  "let D = map os_path [srv_root, mnt_root]
   in sealed D (outside_nodes D (os_nodes demo_osw2), os_data demo_osw2) demo_osw2 \<and>
     map fst (outside_nodes D (os_nodes demo_osw2)) = [[], [ascii ''etc''], [ascii ''etc'', ascii ''b'']]"
proof -
  have m: "os_path mnt_root = [ascii ''mnt'']" by (simp add: os_path_def mnt_root_def)
  show ?thesis
    unfolding Let_def list.map srv_path m
    by (auto simp: sealed_def demo_osw2_def demo_osw_def outside_nodes_def file_inodes_def within_def below_def)
qed

text \<open>A TREE_CONNECT of 9 bytes without a path, in its frame; no byte of it is an N.\<close>

definition demo_request :: bytes where
  "demo_request = [0, 0, 0, 73] @ smb2Magic @ [64, 0, 0, 0, 0, 0, 0, 0, 3] @ mk 51 @ [9] @ mk 8"

lemma demo_request_proves_nothing: "\<not> password_shown S demo_request"
proof
  assume "password_shown S demo_request"
  then obtain ch tok where s: "sublist tok demo_request" and p: "proves_password S ch tok"
    by (auto simp: password_shown_def)
  obtain auth where "parseNTLMAuthenticate tok = Some auth" using p by (auto simp: proves_password_def)
  then have "slice tok 0 8 = ntlmSignature" by (auto simp: parseNTLMAuthenticate_def split: if_splits)
  then have "0x4E \<in> set (slice tok 0 8)" by (simp add: ntlmSignature_def)
  then have "0x4E \<in> set tok" by (auto simp: slice_def dest: in_set_takeD)
  then have "0x4E \<in> set demo_request" using s set_mono_sublist by blast
  then show False by (simp add: demo_request_def smb2Magic_def mk_def)
qed

text \<open>An AUTHENTICATE token of user "b" without a blob, and the request that carries it.\<close>

definition demo_token :: bytes where
  "demo_token = [0x4E, 0x54, 0x4C, 0x4D, 0x53, 0x53, 0x50, 0, 3, 0, 0, 0,
     0, 0, 0, 0, 0, 0, 0, 0, 16, 0, 16, 0, 66, 0, 0, 0, 0, 0, 0, 0, 0, 0, 0, 0,
     2, 0, 2, 0, 64, 0, 0, 0, 0, 0, 0, 0, 0, 0, 0, 0, 0, 0, 0, 0, 0, 0, 0, 0, 0, 0, 0, 0,
     0x62, 0, 0, 0, 0, 0, 0, 0, 0, 0, 0, 0, 0, 0, 0, 0, 0, 24]"

definition demo_setup :: bytes where
  "demo_setup = [25, 0, 0, 0, 0, 0, 0, 0, 0, 0, 0, 0, 88, 0, 82, 0, 0, 0, 0, 0, 0, 0, 0, 0] @ demo_token"

definition demo_response :: bytes where
  "demo_response = [0, 0, 0, 0, 0, 0, 0, 0, 0, 0, 0, 0, 0, 0, 0, 24]"

lemma demo_setup_token: "request_token demo_setup = demo_token \<and> length demo_setup = 106"
  by code_simp

lemma demo_token_fields:
  "length demo_token = 82" "slice demo_token 0 8 = ntlmSignature" "get32 demo_token 8 = ntlmTypeAuthenticate"
  "ntlm_field demo_token 36 = [0x62, 0]" "ntlm_field demo_token 20 = demo_response"
  by (simp_all add: demo_token_def ntlm_field_def slice_def un16_def un32_def ntlmSignature_def demo_response_def)

lemma utf16_b: "utf16leToString [0x62, 0] = [0x62]"
proof -
  have "[0..<1::nat] = [0]" by simp
  then show ?thesis
  by (simp add: utf16leToString_def utf16_single_def string_of_runes_def utf8_encode_def
      un16_def)
qed

lemma be_24: "be_bytes 16 24 = demo_response"
  by code_simp

lemma demo_token_proves: "proves_password (demo_server [0x62] shs) (mk 8) demo_token"
proof -
  let ?S = "demo_server [0x62] shs"
  define auth where "auth = the (parseNTLMAuthenticate demo_token)"
  have auth: "parseNTLMAuthenticate demo_token = Some auth" "au_user auth = [0x62]"
    "au_ntResponse auth = demo_response"
    using demo_token_fields utf16_b unfolding auth_def parseNTLMAuthenticate_def Let_def by simp_all
  have "hmac_md5 demo_crypto k ch = demo_response" if "length k + length ch = 24" for k ch
  proof -
    have "c_hmac_md5 demo_crypto k ch = of_nat (length k + length ch)" by (simp add: demo_crypto_def)
    then show ?thesis unfolding that hmac_md5_def using be_24 by simp
  qed
  then have "demo_response =
      hmac_md5 (sv_C ?S) (ntowfv2 (sv_C ?S) (sv_U ?S) (opt_User ?S) (opt_Pass ?S) (au_domain auth)) (mk 8 @ [])"
    by (simp add: ntowfv2_def mk_def)
  moreover have "length demo_response = 16" by (simp add: demo_response_def)
  moreover have "EqualFold (sv_U ?S) (au_user auth) (opt_User ?S)" by (simp add: auth EqualFold_def)
  ultimately show ?thesis unfolding proves_password_def using auth by (metis append_Nil2)
qed

text \<open>A connection with one open directory.\<close>

definition demo_open :: "osw conn" where
  "demo_open = snd (openHandle (new_open (demo_share False) [] None True) (newConn 0 0 demo_osw))"

lemma demo_open_ok:
  "handles_ok demo_open" "shares_from (demo_server [] [demo_share False]) demo_open"
  "getHandle (file_id 1) demo_open \<noteq> None" "cn_handleCtr demo_open = 1"
proof -
  let ?n = "newConn 0 0 demo_osw" and ?f = "new_open (demo_share False) [] None True"
  have nf: "\<not> table_full ?n" by (simp add: table_full_def newConn_def)
  have o: "opn_handle ?f ?n = (file_id 1, demo_open)"
    by (simp add: opn_handle_def demo_open_def openHandle_value newConn_def)
  show "handles_ok demo_open" by (rule ht.opn_ok [OF newConn_ok(1) nf o])
  show "getHandle (file_id 1) demo_open \<noteq> None"
    using ht.opn_get [OF newConn_ok(1) nf o, of "file_id 1"] by (simp add: getHandle_def get_key_def)
  show "shares_from (demo_server [] [demo_share False]) demo_open"
    "cn_handleCtr demo_open = 1"
    by (simp_all add: demo_open_def openHandle_value addHandle_def newConn_def shares_from_def new_open_def
        stampHandle_def)
qed

end
