(* ===== verification/Answers.thy ===== *)
theory Answers
  imports Connection
begin

text \<open>
  What a client can count on, whatever the commands do: every command of a message is answered,
  in order, with its message id and at least one credit.
\<close>

section \<open>Answers\<close>

definition answers :: "header \<Rightarrow> bytes \<Rightarrow> bool" where
  "answers h p \<longleftrightarrow>
    (case parseHeader p of
       None \<Rightarrow> False
     | Some r \<Rightarrow> h_command r = h_command h \<and> h_messageID r = h_messageID h \<and> 1 \<le> h_creditReqResp r \<and>
         h_creditCharge r = h_creditCharge h \<and> h_flags r = flagsServerToRedir)"

text \<open>The headers of the commands in a message, as \<open>dispatch\<close> finds them.\<close>

function chain_headers :: "bytes \<Rightarrow> nat \<Rightarrow> header list" where
  "chain_headers msg offset =
    (if \<not> offset + smb2HeaderSize \<le> length msg then []
     else
       (case parseHeader (drop offset msg) of
          None \<Rightarrow> []
        | Some h \<Rightarrow>
            h # (if unat (h_nextCommand h) < smb2HeaderSize then []
                 else chain_headers msg (offset + unat (h_nextCommand h)))))"
  by pat_completeness auto
termination
  by (relation "measure (\<lambda>(msg, offset). length msg - offset)") auto

declare chain_headers.simps [simp del]

lemma run_command_answers:
  "run_command S h body sid tid ctx s = (r, ctx', s') \<Longrightarrow> r = None \<Longrightarrow> h_command h = cmdCancel"
  by (auto simp: run_command_def Let_def split: if_splits prod.splits)

lemma buildResponse_answers:
  "answers h (buildResponse h (h_command h) st sid tid (if h_creditReqResp h < 1 then 1 else h_creditReqResp h) b)"
  by (simp add: answers_def parseHeader_buildResponse word_le_nat_alt word_less_nat_alt)

lemma handleCommand_answers:
  assumes "handleCommand S h seg ctx s = (out, ctx', s')" and "h_command h \<noteq> cmdCancel"
  shows "\<exists>p. out = Some p \<and> answers h p"
  using assms
  using buildResponse_answers [of h, simplified]
  by (fastforce simp: handleCommand_def Let_def map_option_case dest!: run_command_answers
      split: prod.splits option.splits)

lemma dispatch_loop_answers:
  "dispatch_loop S msg offset ctx pdus s = (pdus', s') \<Longrightarrow>
   list_all (\<lambda>h. h_command h \<noteq> cmdCancel) (chain_headers msg offset) \<Longrightarrow>
   \<exists>ps. pdus' = pdus @ ps \<and> list_all2 answers (chain_headers msg offset) ps"
proof (induction S msg offset ctx pdus s rule: dispatch_loop.induct)
  case (1 S msg offset ctx pdus s)
  show ?case
  proof (cases "offset + smb2HeaderSize \<le> length msg \<and> parseHeader (drop offset msg) \<noteq> None")
    case False
    then have "pdus' = pdus" "chain_headers msg offset = []"
      using 1(2) by (cases "offset + smb2HeaderSize \<le> length msg";
          simp add: dispatch_loop.simps [of S msg offset] chain_headers.simps [of msg offset])+
    then show ?thesis by simp
  next
    case True
    then obtain h where h: "offset + smb2HeaderSize \<le> length msg" "parseHeader (drop offset msg) = Some h" by auto
    let ?n = "unat (h_nextCommand h)"
    let ?seg = "if ?n \<ge> smb2HeaderSize \<and> offset + ?n \<le> length msg
                then slice msg offset (offset + ?n) else drop offset msg"
    obtain out ctx1 s1 where c: "handleCommand S h ?seg ctx s = (out, ctx1, s1)" by (metis surj_pair)
    have hs: "chain_headers msg offset = h # (if ?n < smb2HeaderSize then [] else chain_headers msg (offset + ?n))"
      using h by (subst chain_headers.simps) simp
    then have "h_command h \<noteq> cmdCancel" using 1(3) by simp
    from handleCommand_answers [OF c this] obtain p where p: "out = Some p" "answers h p" by blast
    have d: "dispatch_loop S msg offset ctx pdus s =
        (if ?n < smb2HeaderSize then (pdus @ [p], s1) else dispatch_loop S msg (offset + ?n) ctx1 (pdus @ [p]) s1)"
      using h c p(1) by (subst dispatch_loop.simps) (simp add: Let_def)
    show ?thesis
    proof (cases "?n < smb2HeaderSize")
      case True
      then show ?thesis using 1(2) d hs p(2) by auto
    next
      case False
      have "\<exists>ps. pdus' = (pdus @ [p]) @ ps \<and> list_all2 answers (chain_headers msg (offset + ?n)) ps"
        using 1(1) [OF _ h(2) refl refl c [symmetric] refl refl] 1(2,3) h(1) p(1) d hs False by simp
      then show ?thesis using hs p(2) False by auto
    qed
  qed
qed

section \<open>Properties\<close>

text \<open>
  C12. Every command of a request is answered, whatever it is and however it fails: of a message without
  CANCEL, single or compound, each command gets one response, in the order of the chain, with
  its command code, message id and credit charge, marked as coming from the server, and with at
  least one credit, so a client can always go on.
\<close>

theorem commands_answered:
  assumes "list_all (\<lambda>h. h_command h \<noteq> cmdCancel) (chain_headers msg 0)"
    and "dispatch_loop S msg 0 newCtx [] s = (pdus, s')"
  shows "list_all2 answers (chain_headers msg 0) pdus"
  using dispatch_loop_answers [OF assms(2,1)] by auto

lemma commands_answered_witness:
  "length (fst (dispatch_loop (demo_server [] [demo_share False]) (drop 4 demo_request) 0 newCtx []
     (newConn 0 0 demo_osw))) = 1"
proof -
  have p: "parseHeader (drop 0 (drop 4 demo_request)) = parseHeader (drop 4 demo_request)" by simp
  have l: "length (drop 4 demo_request) = 73" by (simp add: demo_request_def smb2Magic_def)
  have m: "mk 44 = [0, 0, 0, 0] @ mk 40" "mk (Suc 0) = [0]" by code_simp+
  obtain h where h: "parseHeader (drop 4 demo_request) = Some h" "h_command h = cmdTreeConnect" "h_nextCommand h = 0"
    by (simp add: parseHeader_def demo_request_def smb2Magic_def slice_def un16_def un32_def drop_mk m)
  have c: "chain_headers (drop 4 demo_request) 0 = [h]"
    by (subst chain_headers.simps) (use l h in \<open>simp del: length_drop\<close>)
  have "list_all2 answers (chain_headers (drop 4 demo_request) 0) (fst (dispatch_loop (demo_server [] [demo_share False])
      (drop 4 demo_request) 0 newCtx [] (newConn 0 0 demo_osw)))"
    by (rule commands_answered [OF _ prod.collapse [symmetric]]) (simp add: c h(2))
  then show ?thesis unfolding c by (auto dest: list_all2_lengthD)
qed

end
