(* ===== verification/Compound.thy ===== *)
theory Compound
  imports Server
begin

text \<open>
  The compound response of \<open>assembleResponse\<close>, seen from the client: following the NextCommand
  fields through the message gives back the PDUs the commands produced, each padded to eight bytes
  but the last, and each signed on its own when the connection has a signing key.
\<close>

section \<open>The client's walk\<close>

function chain_pdus :: "bytes \<Rightarrow> bytes list" where
  "chain_pdus out =
    (let next = unat (get32 out 20)
     in if next < smb2HeaderSize \<or> length out < next then [out]
        else take next out # chain_pdus (drop next out))"
  by pat_completeness auto
termination
  by (relation "measure length") auto

declare chain_pdus.simps [simp del]

section \<open>What the assembly builds\<close>

text \<open>A PDU that another follows: padded, with its NextCommand.\<close>

definition linked :: "bytes \<Rightarrow> bytes" where
  "linked p = put32 (pad8 p) 20 (of_nat (length (pad8 p)))"

fun chained :: "bytes list \<Rightarrow> bytes list" where
  "chained [] = []"
| "chained [p] = [p]"
| "chained (p # ps) = linked p # chained ps"

fun spans_at :: "nat \<Rightarrow> bytes list \<Rightarrow> (nat \<times> nat) list" where
  "spans_at n [] = []"
| "spans_at n (q # qs) = (n, n + length q) # spans_at (n + length q) qs"

lemma length_pad8: "8 dvd length (pad8 p)" "length p \<le> length (pad8 p)" "length (pad8 p) < length p + 8"
proof -
  have "(length p + (8 - length p mod 8) mod 8) mod 8 = 0"
    by (cases "length p mod 8 = 0") (simp_all add: mod_simps, presburger)
  then show "8 dvd length (pad8 p)" by (auto simp: pad8_def)
qed (simp_all add: pad8_def)

lemma pad8_append: "8 dvd length out \<Longrightarrow> pad8 (out @ p) = out @ pad8 p"
  by (auto simp: pad8_def mod_add_left_eq dvd_def)

lemma append_pdus_chained:
  "8 dvd length out \<Longrightarrow>
   append_pdus pdus out spans = (out @ concat (chained pdus), spans @ spans_at (length out) (chained pdus))"
proof (induction pdus arbitrary: out spans rule: chained.induct)
  case (3 p p2 ps)
  have l: "linked p = put32 (pad8 p) 20 (of_nat (length (pad8 p)))" by (simp add: linked_def)
  have e: "put32 (pad8 (out @ p)) (length out + 20) (of_nat (length (pad8 (out @ p)) - length out))
      = out @ linked p"
    unfolding pad8_append [OF 3(2)] l by (simp add: copy_at_append)
  have d: "8 dvd length (out @ linked p)" using 3(2) length_pad8(1) [of p] by (simp add: l)
  have "append_pdus (p # p2 # ps) out spans
      = append_pdus (p2 # ps) (out @ linked p) (spans @ [(length out, length (out @ linked p))])"
    by (subst append_pdus.simps) (simp only: Let_def list.distinct if_True not_False_eq_True e)
  then show ?case using 3(1) [OF d] by (simp del: append_pdus.simps)
qed simp_all

lemma slice_middle: "n = length a \<Longrightarrow> m = n + length b \<Longrightarrow> slice (a @ b @ c) n m = b"
  by (simp add: slice_def)

lemma copy_at_middle: "n = length a \<Longrightarrow> length b' = length b \<Longrightarrow> copy_at (a @ b @ c) n b' = a @ b' @ c"
  by (simp add: copy_at_def)

lemma length_signMessage [simp]: "length (signMessage C key d m) = length m"
  by (simp add: signMessage_def smac.length_sign)

lemma sign_spans_chained:
  "sign_spans C key d (spans_at (length pre) qs) (pre @ concat qs)
     = pre @ concat (map (signMessage C key d) qs)"
proof (induction qs arbitrary: pre)
  case (Cons q qs)
  let ?q = "signMessage C key d q"
  have "sign_spans C key d (spans_at (length pre) (q # qs)) (pre @ concat (q # qs))
      = sign_spans C key d (spans_at (length (pre @ ?q)) qs) ((pre @ ?q) @ concat qs)"
    by (simp add: slice_middle copy_at_middle)
  also have "\<dots> = (pre @ ?q) @ concat (map (signMessage C key d) qs)" by (rule Cons.IH)
  finally show ?case by simp
qed simp

text \<open>A chain as the client expects it.\<close>

fun well_linked :: "bytes list \<Rightarrow> bool" where
  "well_linked [] = False"
| "well_linked [q] = (get32 q 20 = 0)"
| "well_linked (q # qs) = (unat (get32 q 20) = length q \<and> smb2HeaderSize \<le> length q \<and> well_linked qs)"

lemma chain_pdus_concat: "well_linked qs \<Longrightarrow> chain_pdus (concat qs) = qs"
proof (induction qs rule: well_linked.induct)
  case (2 q)
  then show ?case by (subst chain_pdus.simps) simp
next
  case (3 q q2 qs)
  then have n: "unat (get32 q 20) = length q" "smb2HeaderSize \<le> length q" by simp_all
  then have "get32 (q @ concat (q2 # qs)) 20 = get32 q 20" by (intro field_append(2)) simp
  then have "chain_pdus (concat (q # q2 # qs)) = q # chain_pdus (concat (q2 # qs))"
    using n by (subst chain_pdus.simps) simp
  then show ?case using 3 by simp
qed simp

lemma get32_signMessage: "64 \<le> length m \<Longrightarrow> get32 (signMessage C key d m) 20 = get32 m 20"
proof -
  assume "64 \<le> length m"
  then have "take 4 (slice (signMessage C key d m) 20 48) = take 4 (slice m 20 48)"
    by (simp add: signMessage_def smac.sign_header)
  then show ?thesis by (simp add: slice_def un32_def)
qed

lemma well_linked_sign:
  "\<forall>q \<in> set qs. 64 \<le> length q \<Longrightarrow> well_linked (map (signMessage C key d) qs) = well_linked qs"
  by (induction qs rule: well_linked.induct) (simp_all add: get32_signMessage)

text \<open>A PDU as \<open>buildResponse\<close> makes it, of a size the link fields can hold.\<close>

definition plain_pdu :: "bytes \<Rightarrow> bool" where
  "plain_pdu p \<longleftrightarrow> smb2HeaderSize \<le> length p \<and> get32 p 20 = 0 \<and> length p + 8 < 2 ^ 32"

lemma linked_fields:
  assumes "plain_pdu p"
  shows "unat (get32 (linked p) 20) = length (linked p)" and "64 \<le> length (linked p)"
    and "take 16 (linked p) = take 16 p" and "slice (linked p) 24 64 = slice p 24 64"
    and "slice (linked p) 64 (length p) = drop 64 p" and "get32 (linked p) 16 = get32 p 16"
proof -
  have len: "64 \<le> length p" "length (pad8 p) < 2 ^ 32" "length p \<le> length (pad8 p)"
    using assms length_pad8 [of p] by (auto simp: plain_pdu_def)
  then show "unat (get32 (linked p) 20) = length (linked p)" "64 \<le> length (linked p)"
    by (simp_all add: linked_def unat_of_nat)
  show "take 16 (linked p) = take 16 p" "slice (linked p) 24 64 = slice p 24 64"
    "slice (linked p) 64 (length p) = drop 64 p"
    using len(1) by (simp_all add: linked_def pad8_def slice_def)
  have "get32 (linked p) 16 = get32 (pad8 p) 16" by (simp add: linked_def)
  also have "\<dots> = get32 p 16" unfolding pad8_def using len(1) by (intro field_append(2)) simp
  finally show "get32 (linked p) 16 = get32 p 16" .
qed

lemma chained_linked:
  "pdus \<noteq> [] \<Longrightarrow> \<forall>p \<in> set pdus. plain_pdu p \<Longrightarrow> well_linked (chained pdus) \<and> (\<forall>q \<in> set (chained pdus). 64 \<le> length q)"
proof (induction pdus rule: chained.induct)
  case (3 p p2 ps)
  obtain q qs where "chained (p2 # ps) = q # qs" by (cases ps) auto
  with 3 linked_fields(1,2) [of p] show ?case by simp
qed (simp_all add: plain_pdu_def)


section \<open>Properties\<close>

text \<open>What the client finds for a PDU: everything but the link, the SIGNED flag and the signature.\<close>

definition carries :: "bytes \<Rightarrow> bytes \<Rightarrow> bool" where
  "carries p q \<longleftrightarrow> take 16 q = take 16 p \<and> slice q 24 48 = slice p 24 48 \<and>
     slice q 64 (length p) = drop 64 p"

lemma carries_refl: "carries p p"
  by (simp add: carries_def slice_def)

lemma carries_linked: "plain_pdu p \<Longrightarrow> carries p (linked p)"
proof -
  assume p: "plain_pdu p"
  have "take 24 (slice (linked p) 24 64) = take 24 (slice p 24 64)" using linked_fields(4) [OF p] by simp
  then show ?thesis using linked_fields(3,5) [OF p] by (simp add: carries_def slice_def)
qed

lemma carries_sign: "64 \<le> length q \<Longrightarrow> carries p q \<Longrightarrow> carries p (signMessage C key d q)"
proof -
  assume l: "64 \<le> length q" and c: "carries p q"
  note h = smac.sign_header [OF l, of C key d, folded signMessage_def]
  have "drop 4 (slice (signMessage C key d q) 20 48) = drop 4 (slice q 20 48)" using h(3) by simp
  then have "slice (signMessage C key d q) 24 48 = slice q 24 48" by (simp add: slice_def drop_take)
  moreover have "slice (signMessage C key d q) 64 (length p) = slice q 64 (length p)"
    using h(4) by (simp add: slice_def)
  ultimately show ?thesis using c h(1) by (simp add: carries_def)
qed

lemma chained_carries:
  "\<forall>p \<in> set pdus. plain_pdu p \<Longrightarrow> list_all2 carries pdus (chained pdus)"
  by (induction pdus rule: chained.induct) (simp_all add: carries_refl carries_linked)

lemma assembleResponse_chained:
  assumes "pdus \<noteq> []"
  shows "assembleResponse S s pdus = Some (concat (case cn_signKey s of
      Some key \<Rightarrow> map (signMessage (sv_C S) key (cn_dialect s)) (chained pdus) | None \<Rightarrow> chained pdus))"
proof (cases "\<exists>p. pdus = [p]")
  case True
  then show ?thesis by (auto simp: assembleResponse_def split: option.split)
next
  case False
  with assms obtain p p2 ps where p: "pdus = p # p2 # ps" by (metis neq_Nil_conv)
  have "append_pdus pdus [] [] = (concat (chained pdus), spans_at 0 (chained pdus))"
    using append_pdus_chained [of "[]" pdus "[]"] by simp
  then have "assembleResponse S s pdus = Some (case cn_signKey s of
      Some key \<Rightarrow> sign_spans (sv_C S) key (cn_dialect s) (spans_at 0 (chained pdus)) (concat (chained pdus))
    | None \<Rightarrow> concat (chained pdus))"
    unfolding assembleResponse_def p by (simp only: list.case prod.case Let_def)
  then show ?thesis
    using sign_spans_chained [of _ _ _ "[]"] by (simp split: option.split)
qed

text \<open>
  C18. A compound response reads back: following NextCommand through the assembled message, a client
  finds one PDU for each command that answered, in order, each with the header and body it was built
  with, and on a connection with a signing key every one of them verifies.
\<close>

theorem compound_response:
  assumes "pdus \<noteq> []" and "\<forall>p \<in> set pdus. plain_pdu p"
  shows "\<exists>out. assembleResponse S s pdus = Some out \<and> list_all2 carries pdus (chain_pdus out) \<and>
    list_all (\<lambda>q. case cn_signKey s of
        Some key \<Rightarrow> fst (verifyMessage (sv_C S) key (cn_dialect s) q) | None \<Rightarrow> True) (chain_pdus out)"
proof (cases "cn_signKey s")
  case None
  have "chain_pdus (concat (chained pdus)) = chained pdus"
    using chained_linked [OF assms] by (intro chain_pdus_concat) blast
  moreover have "assembleResponse S s pdus = Some (concat (chained pdus))"
    using assembleResponse_chained [OF assms(1), of S s] None by simp
  ultimately show ?thesis using chained_carries [OF assms(2)] None by (simp add: list_all_iff)
next
  case (Some key)
  let ?sign = "signMessage (sv_C S) key (cn_dialect s)"
  have ch: "chain_pdus (concat (map ?sign (chained pdus))) = map ?sign (chained pdus)"
    using chained_linked [OF assms] well_linked_sign by (intro chain_pdus_concat) blast
  have long: "\<forall>q \<in> set (chained pdus). 64 \<le> length q" using chained_linked [OF assms] by blast
  have "list_all2 carries pdus (map ?sign (chained pdus))"
    using chained_carries [OF assms(2)] long
    unfolding list_all2_map2 by (auto simp: list_all2_conv_all_nth carries_sign)
  moreover have "list_all (\<lambda>q. fst (verifyMessage (sv_C S) key (cn_dialect s) q)) (map ?sign (chained pdus))"
    using long by (simp add: list_all_iff verifyMessage_def signMessage_def smac.verify_sign)
  ultimately show ?thesis using assembleResponse_chained [OF assms(1), of S s] ch Some by simp
qed

lemma compound_response_witness:
  "\<exists>out. assembleResponse (demo_server [] []) ((newConn 0 0 ())\<lparr>cn_signKey := Some [1]\<rparr>) [mk 65, mk 70] = Some out
     \<and> length (chain_pdus out) = 2"
proof -
  have "plain_pdu (mk 65)" "plain_pdu (mk 70)" by (simp_all add: plain_pdu_def drop_mk)
  then have "\<forall>p \<in> set [mk 65, mk 70]. plain_pdu p" by simp
  from compound_response [OF _ this, of "demo_server [] []" "(newConn 0 0 ())\<lparr>cn_signKey := Some [1]\<rparr>"]
  obtain out where "assembleResponse (demo_server [] []) ((newConn 0 0 ())\<lparr>cn_signKey := Some [1]\<rparr>)
      [mk 65, mk 70] = Some out" "list_all2 carries [mk 65, mk 70] (chain_pdus out)" by auto
  then show ?thesis using list_all2_lengthD by fastforce
qed

end
