(* ===== verification/Listing.thy ===== *)
theory Listing
  imports Connection
begin

text \<open>
  What a client gets from QUERY_DIRECTORY: the matcher against the usual reading of a pattern, the
  entries read back from the packed buffer, and the progress of successive calls.
\<close>

section \<open>Patterns\<close>

text \<open>The reference: an asterisk stands for any run of runes, a question mark for one rune.\<close>

fun glob :: "nat list \<Rightarrow> nat list \<Rightarrow> bool" where
  "glob [] name = (name = [])"
| "glob (c # p) [] = (c = rune_star \<and> glob p [])"
| "glob (c # p) (x # name) =
    (if c = rune_star then glob p (x # name) \<or> glob (c # p) name
     else (c = rune_quest \<or> c = x) \<and> glob p name)"

lemma glob_star: "glob (rune_star # p) name \<longleftrightarrow> (\<exists>k \<le> length name. glob p (drop k name))"
proof (induction name)
  case (Cons x name)
  have "(\<exists>k \<le> length (x # name). glob p (drop k (x # name))) \<longleftrightarrow>
      glob p (x # name) \<or> (\<exists>k \<le> length name. glob p (drop k name))"
    by (metis (no_types, lifting) Suc_le_mono drop0 drop_Suc_Cons le0 length_Cons not0_implies_Suc)
  then show ?case using Cons by simp
qed simp

definition literal :: "nat \<Rightarrow> nat \<Rightarrow> bool" where
  "literal c x \<longleftrightarrow> c \<noteq> rune_star \<and> (c = rune_quest \<or> c = x)"

lemma glob_literals: "list_all2 literal seg m \<Longrightarrow> glob (seg @ p) (m @ name) = glob p name"
  by (induction rule: list_all2_induct) (auto simp: literal_def)

lemma glob_segment:
  "rune_star \<notin> set seg \<Longrightarrow> glob (seg @ p) name \<Longrightarrow>
   length seg \<le> length name \<and> glob p (drop (length seg) name)"
proof (induction seg arbitrary: name)
  case (Cons c seg)
  then show ?case by (cases name) auto
qed simp

lemma glob_nil: "glob p [] \<longleftrightarrow> dropWhile (\<lambda>c. c = rune_star) p = []"
  by (induction p) auto

lemma glob_star_drop: "glob (rune_star # p) (drop k name) \<Longrightarrow> j \<le> k \<Longrightarrow> glob (rune_star # p) (drop j name)"
proof -
  assume g: "glob (rune_star # p) (drop k name)" and "j \<le> k"
  then obtain i where i: "i \<le> length (drop k name)" "glob p (drop (i + k) name)"
    unfolding glob_star by auto
  show "glob (rune_star # p) (drop j name)"
  proof (cases "k \<le> length name")
    case True
    then show ?thesis
      unfolding glob_star using i \<open>j \<le> k\<close> by (intro exI [of _ "i + k - j"]) auto
  next
    case False
    then show ?thesis
      unfolding glob_star using i \<open>j \<le> k\<close> by (intro exI [of _ "length (drop j name)"]) auto
  qed
qed

text \<open>
  The invariant of the loop after an asterisk at \<open>star\<close>: the runes since then match the pattern
  since then one by one.
\<close>

definition loop_inv :: "nat list \<Rightarrow> nat list \<Rightarrow> nat \<Rightarrow> nat \<Rightarrow> int \<Rightarrow> nat \<Rightarrow> bool" where
  "loop_inv pattern name p n star mark \<longleftrightarrow>
    star < 0 \<or>
    (\<exists>seg m. drop (nat star) pattern = rune_star # seg @ drop p pattern \<and>
       drop mark name = m @ drop n name \<and> list_all2 literal seg m)"

definition loop_goal :: "nat list \<Rightarrow> nat list \<Rightarrow> nat \<Rightarrow> nat \<Rightarrow> int \<Rightarrow> nat \<Rightarrow> bool" where
  "loop_goal pattern name p n star mark \<longleftrightarrow>
    (if star < 0 then glob (drop p pattern) (drop n name)
     else glob (drop (nat star) pattern) (drop mark name))"

lemma star_segment:
  assumes "list_all2 literal seg m"
  shows "glob (rune_star # seg @ p) (m @ name) \<longleftrightarrow>
    glob p name \<or> (m @ name \<noteq> [] \<and> glob (rune_star # seg @ p) (tl (m @ name)))"
  using glob_literals [OF assms, of p name] by (cases "m @ name") auto

lemma literal_no_star: "list_all2 literal seg m \<Longrightarrow> rune_star \<notin> set seg"
  by (induction rule: list_all2_induct) (auto simp: literal_def)

text \<open>At an asterisk, or at the end of the name, the first match of the segment is as good as any.\<close>

lemma first_match:
  assumes "list_all2 literal seg m" and "name = [] \<or> (\<exists>q. p = rune_star # q)"
  shows "glob (rune_star # seg @ p) (m @ name) = glob p name"
proof
  assume "glob (rune_star # seg @ p) (m @ name)"
  then obtain k where k: "k \<le> length (m @ name)" "glob (seg @ p) (drop k (m @ name))"
    unfolding glob_star by blast
  have s: "length seg \<le> length (drop k (m @ name))" "glob p (drop (length seg) (drop k (m @ name)))"
    using glob_segment [OF literal_no_star [OF assms(1)] k(2)] by auto
  have len: "length seg = length m" using assms(1) by (rule list_all2_lengthD)
  have "drop (length seg) (drop k (m @ name)) = drop (length m + k) (m @ name)"
    by (simp only: drop_drop len add.commute)
  then have "drop (length seg) (drop k (m @ name)) = drop k name" by simp
  with s(2) have g: "glob p (drop k name)" by simp
  show "glob p name"
  proof (cases "name = []")
    case True
    then show ?thesis using g by simp
  next
    case False
    then obtain q where "p = rune_star # q" using assms(2) by blast
    then show ?thesis using g glob_star_drop [of q k name 0] by simp
  qed
next
  assume "glob p name"
  then have "glob (seg @ p) (m @ name)" using glob_literals [OF assms(1)] by simp
  then show "glob (rune_star # seg @ p) (m @ name)" unfolding glob_star by (intro exI [of _ 0]) simp
qed

lemma wildcard_loop_glob:
  "rune_star \<notin> set name \<Longrightarrow> p \<le> length pattern \<Longrightarrow> n \<le> length name \<Longrightarrow>
   loop_inv pattern name p n star mark \<Longrightarrow>
   (case wildcard_loop pattern name p n star mark of
      None \<Rightarrow> False | Some q \<Rightarrow> dropWhile (\<lambda>c. c = rune_star) (drop q pattern) = [])
     = loop_goal pattern name p n star mark"
proof (induction pattern name p n star mark rule: wildcard_loop.induct)
  case (1 pattern name p n star mark)
  note IH = 1(1-3) and ns = 1(4) and pl = 1(5) and nl = 1(6) and inv = 1(7)
  let ?P = "drop p pattern" and ?N = "drop n name"
  let ?w = "\<lambda>p n star mark. case wildcard_loop pattern name p n star mark of
      None \<Rightarrow> False | Some q \<Rightarrow> dropWhile (\<lambda>c. c = rune_star) (drop q pattern) = []"
  obtain seg m where sm: "0 \<le> star \<Longrightarrow> drop (nat star) pattern = rune_star # seg @ ?P"
      "0 \<le> star \<Longrightarrow> drop mark name = m @ ?N" "0 \<le> star \<Longrightarrow> list_all2 literal seg m"
    using inv unfolding loop_inv_def by (cases "star < 0") auto
  have first: "loop_goal pattern name p n star mark = glob ?P ?N"
    if "?N = [] \<or> (\<exists>q. ?P = rune_star # q)"
    using that sm first_match by (simp add: loop_goal_def)
  show ?case
  proof (cases "n < length name")
    case False
    then have "?N = []" by simp
    with first show ?thesis using False
      by (subst wildcard_loop.simps) (simp add: glob_nil)
  next
    case n: True
    then have N: "?N = name ! n # drop (n + 1) name" by (simp add: Cons_nth_drop_Suc)
    show ?thesis
    proof (cases "p < length pattern \<and> (pattern ! p = rune_quest \<or> pattern ! p = name ! n)")
      case step: True
      then have P: "?P = pattern ! p # drop (p + 1) pattern" by (simp add: Cons_nth_drop_Suc)
      have "name ! n \<noteq> rune_star" using n ns nth_mem by metis
      then have lit: "literal (pattern ! p) (name ! n)" using step by (auto simp: literal_def)
      have "loop_inv pattern name (p + 1) (n + 1) star mark"
        using sm P N lit unfolding loop_inv_def
        by (cases "star < 0")
          (auto intro!: exI [of _ "seg @ [pattern ! p]"] exI [of _ "m @ [name ! n]"] list_all2_appendI)
      from IH(1) [OF _ step ns _ _ this]
      have "?w (p + 1) (n + 1) star mark = loop_goal pattern name (p + 1) (n + 1) star mark"
        using n step by simp
      moreover have "?w p n star mark = ?w (p + 1) (n + 1) star mark"
        using n step by (subst wildcard_loop.simps) simp
      moreover have "loop_goal pattern name (p + 1) (n + 1) star mark = loop_goal pattern name p n star mark"
        using lit P N by (auto simp: loop_goal_def literal_def)
      ultimately show ?thesis by blast
    next
      case nostep: False
      show ?thesis
      proof (cases "p < length pattern \<and> pattern ! p = rune_star")
        case star: True
        then have P: "?P = rune_star # drop (p + 1) pattern" by (metis Cons_nth_drop_Suc Suc_eq_plus1)
        have "loop_inv pattern name (p + 1) n (int p) n"
          using P unfolding loop_inv_def by simp
        from IH(2) [OF _ nostep star ns _ _ this]
        have "?w (p + 1) n (int p) n = loop_goal pattern name (p + 1) n (int p) n"
          using n star by simp
        moreover have "?w p n star mark = ?w (p + 1) n (int p) n"
          using n star nostep by (subst wildcard_loop.simps) simp
        moreover have "loop_goal pattern name p n star mark = glob ?P ?N" using first P by blast
        ultimately show ?thesis by (simp add: loop_goal_def)
      next
        case nostar: False
        have miss: "\<not> glob ?P ?N"
        proof (cases "p < length pattern")
          case True
          then have "?P = pattern ! p # drop (p + 1) pattern" by (simp add: Cons_nth_drop_Suc)
          then show ?thesis using nostep nostar True N by auto
        qed (simp add: N)
        show ?thesis
        proof (cases "star \<ge> 0")
          case False
          then show ?thesis
            using n nostep nostar miss by (subst wildcard_loop.simps) (auto simp: loop_goal_def)
        next
          case True
          note sm = sm(1) [OF True] sm(2) [OF True] sm(3) [OF True]
          have ml: "mark < length name" using sm(2) N by (metis drop_eq_Nil2 not_le append_is_Nil_conv list.distinct(1))
          have tl: "drop (mark + 1) name = tl (m @ ?N)" by (simp add: sm(2) [symmetric] drop_Suc tl_drop)
          have nx: "drop (nat star + 1) pattern = seg @ ?P"
            using sm(1) by (metis Suc_eq_plus1 drop_Suc list.sel(3) tl_drop)
          have sl: "nat star + 1 \<le> length pattern"
            using sm(1) by (metis Suc_eq_plus1 drop_eq_Nil2 list.distinct(1) not_less_eq_eq)
          have "loop_inv pattern name (nat star + 1) (mark + 1) star (mark + 1)"
            unfolding loop_inv_def using sm(1) nx by (intro disjI2 exI [of _ "[]"]) simp
          from IH(3) [OF _ nostep nostar True ns sl _ this]
          have "?w (nat star + 1) (mark + 1) star (mark + 1)
              = loop_goal pattern name (nat star + 1) (mark + 1) star (mark + 1)"
            using n ml by simp
          moreover have "?w p n star mark = ?w (nat star + 1) (mark + 1) star (mark + 1)"
            using n nostep nostar True by (subst wildcard_loop.simps) auto
          moreover have "loop_goal pattern name p n star mark
              = loop_goal pattern name (nat star + 1) (mark + 1) star (mark + 1)"
            using star_segment [OF sm(3), of ?P ?N] miss N True sm tl by (simp add: loop_goal_def)
          ultimately show ?thesis by blast
        qed
      qed
    qed
  qed
qed

section \<open>Entries in a buffer\<close>

text \<open>The client's walk: NextEntryOffset, and the name by its length.\<close>

definition name_length_at :: "byte \<Rightarrow> nat" where
  "name_length_at class = (if class = 0x0C then 8 else 60)"

definition entry_name :: "byte \<Rightarrow> bytes \<Rightarrow> bytes" where
  "entry_name class b =
    (let off = snd (dir_layout class) in slice b off (off + unat (get32 b (name_length_at class))))"

function dir_walk :: "byte \<Rightarrow> bytes \<Rightarrow> bytes list" where
  "dir_walk class b =
    (let next = unat (get32 b 0)
     in if next = 0 \<or> length b < next then [entry_name class b]
        else entry_name class b # dir_walk class (drop next b))"
  by pat_completeness auto
termination by (relation "measure (\<lambda>(class, b). length b)") auto

declare dir_walk.simps [simp del]

lemma dir_layout_bounds: "12 \<le> fst (dir_layout class)" "snd (dir_layout class) = fst (dir_layout class)"
  "class \<noteq> 0x0C \<Longrightarrow> 64 \<le> fst (dir_layout class)"
  by (auto simp: dir_layout_def dirInfoLayout_def)

lemma dir_padded_bounds:
  "fst (dir_layout class) + length (stringToUTF16le (fi_name fi)) \<le> dir_padded class fi"
  using roundUp_8_bounds by (simp add: dir_padded_def)

lemma length_dir_entry [simp]: "length (dir_entry C class f aapl fi) = dir_padded class fi"
  by (simp add: dir_entry_def dir_padded_def Let_def split: prod.split)


text \<open>An entry of a class other than FileNamesInformation, before its name.\<close>

definition dir_fixed :: "crypto \<Rightarrow> byte \<Rightarrow> 'w openFile \<Rightarrow> bool \<Rightarrow> fileinfo \<Rightarrow> bytes" where
  "dir_fixed C class f aapl fi =
    (let padded = dir_padded class fi; ft = timeToFiletime (fi_mtime fi);
         fileID = pathFileID C (sh_name (of_share f)) (joinPath (of_path f) (fi_name fi));
         e = put64 (put64 (put64 (put64 (put32 (mk padded) 0 (of_nat padded)) 8 ft) 16 ft) 24 ft) 32 ft;
         e = put64 (put64 e 40 (fi_size fi)) 48 (fi_size fi);
         e = put32 (put32 e 56 (fileInfoAttrs fi)) 60 (of_nat (length (stringToUTF16le (fi_name fi))))
     in if class = 0x26 then put64 e 72 fileID
        else if class = 0x25 then
          let e = put64 e 96 fileID
          in if aapl then
               appleReadDirAttr e (sh_readOnly (of_share f) \<or> fileIsReadOnly fi) (fi_isDir fi)
             else e
        else e)"

lemma dir_entry_fields:
  assumes "dir_padded class fi < 2 ^ 32"
  shows "unat (get32 (dir_entry C class f aapl fi) 0) = dir_padded class fi"
    and "entry_name class (put32 (dir_entry C class f aapl fi @ rest) 0 n) = stringToUTF16le (fi_name fi)"
    and "entry_name class (dir_entry C class f aapl fi @ rest) = stringToUTF16le (fi_name fi)"
proof -
  obtain fixed where l: "dir_layout class = (fixed, fixed)" "12 \<le> fixed" "class \<noteq> 0x0C \<Longrightarrow> 64 \<le> fixed"
    using dir_layout_bounds [of "class"] by (metis prod.collapse)
  let ?nm = "stringToUTF16le (fi_name fi)"
  let ?e = "dir_entry C class f aapl fi"
  have pd: "fixed + length ?nm \<le> dir_padded class fi" using dir_padded_bounds [of "class" fi] l by simp
  define k where "k = name_length_at class"
  have k: "4 \<le> k" "k + 4 \<le> fixed" using l by (auto simp: k_def name_length_at_def)
  have P: "roundUp (fixed + length ?nm) 8 = dir_padded class fi" by (simp add: dir_padded_def l)
  obtain e0 where e: "?e = copy_at e0 fixed ?nm" "length e0 = dir_padded class fi"
    "get32 e0 0 = of_nat (dir_padded class fi)" "get32 e0 k = of_nat (length ?nm)"
  proof (cases "class = 0x0C")
    case True
    then show thesis
      using that [of "put32 (put32 (mk (dir_padded class fi)) 0 (of_nat (dir_padded class fi))) 8 (of_nat (length ?nm))"] pd l k
      by (simp add: dir_entry_def P Let_def k_def name_length_at_def)
  next
    case False
    let ?base = "dir_fixed C class f aapl fi"
    have "?e = copy_at ?base fixed ?nm" by (simp only: dir_entry_def dir_fixed_def l(1) prod.case Let_def P if_not_P [OF False])
    moreover have "length ?base = dir_padded class fi" "get32 ?base 0 = of_nat (dir_padded class fi)"
      "get32 ?base k = of_nat (length ?nm)"
      using pd l False k
      by (auto simp: dir_fixed_def P Let_def appleReadDirAttr_def k_def name_length_at_def split_beta)
    ultimately show thesis by (rule that)
  qed
  show "unat (get32 ?e 0) = dir_padded class fi"
    using e l(2) assms by (simp add: unat_of_nat)
  have nl: "unat (of_nat (length ?nm) :: u32) = length ?nm" using pd assms by (simp add: unat_of_nat)
  have f: "get32 (?e @ rest) k = of_nat (length ?nm)" "slice (?e @ rest) fixed (fixed + length ?nm) = ?nm"
  proof -
    have "get32 (?e @ rest) k = get32 ?e k" using k pd by (intro field_append(2)) simp
    also have "\<dots> = get32 e0 k" using k unfolding e(1) by simp
    finally show "get32 (?e @ rest) k = of_nat (length ?nm)" using e(4) by simp
    have "slice ?e fixed (fixed + length ?nm) = ?nm" using pd e(1,2) by simp
    then show "slice (?e @ rest) fixed (fixed + length ?nm) = ?nm" using pd by (simp add: slice_def)
  qed
  then show "entry_name class (?e @ rest) = ?nm"
    using nl by (simp add: entry_name_def l k_def)
  show "entry_name class (put32 (?e @ rest) 0 n) = ?nm"
    using f nl k by (simp add: entry_name_def l k_def [symmetric])
qed

text \<open>How many entries the loop packs behind \<open>len\<close> bytes; the first is packed whatever its size.\<close>

fun packed :: "byte \<Rightarrow> nat \<Rightarrow> bool \<Rightarrow> nat \<Rightarrow> fileinfo list \<Rightarrow> nat" where
  "packed class maxLen first len [] = 0"
| "packed class maxLen first len (fi # fis) =
    (if \<not> first \<and> maxLen < len + dir_padded class fi then 0
     else Suc (packed class maxLen False (len + dir_padded class fi) fis))"

abbreviation entries_length :: "byte \<Rightarrow> fileinfo list \<Rightarrow> nat" where
  "entries_length class fis \<equiv> sum_list (map (dir_padded class) fis)"

lemma length_entries [simp]: "length (concat (map (dir_entry C class f aapl) fis)) = entries_length class fis"
  by (induction fis) auto

lemma packed_le: "packed class maxLen first len fis \<le> length fis"
  by (induction fis arbitrary: first len) auto

lemma packed_pos: "fis \<noteq> [] \<Longrightarrow> 0 < packed class maxLen True len fis"
  by (cases fis) auto

lemma packed_fits:
  "len \<le> maxLen \<Longrightarrow> len + entries_length class (take (packed class maxLen False len fis) fis) \<le> maxLen"
  by (induction fis arbitrary: len) (auto simp: add.assoc [symmetric])

lemma packed_over: "maxLen < len \<Longrightarrow> packed class maxLen False len fis = 0"
  by (cases fis) auto

lemma packed_full:
  "packed class maxLen first len fis < length fis \<Longrightarrow> first = False \<or> fis \<noteq> [] \<Longrightarrow>
   maxLen < len + entries_length class (take (packed class maxLen first len fis) fis)
     + dir_padded class (fis ! packed class maxLen first len fis)"
proof (induction fis arbitrary: len first)
  case (Cons fi fis)
  then show ?case using Cons.IH [of False "len + dir_padded class fi"] by (auto simp: add.assoc)
qed simp

lemma dir_loop_packed:
  "dir_loop C class f aapl maxLen fis buf count lastStart =
    (let k = packed class maxLen (count = 0) (length buf) fis
     in (buf @ concat (map (dir_entry C class f aapl) (take k fis)), count + k,
         if k = 0 then lastStart else length buf + entries_length class (take (k - 1) fis)))"
proof (induction fis arbitrary: buf count lastStart)
  case (Cons fi fis)
  show ?case
  proof (cases "count > 0 \<and> length buf + dir_padded class fi > maxLen")
    case True
    then show ?thesis by simp
  next
    case False
    let ?b = "buf @ dir_entry C class f aapl fi"
    obtain k where k: "k = packed class maxLen False (length ?b) fis" by simp
    have "dir_loop C class f aapl maxLen (fi # fis) buf count lastStart
        = dir_loop C class f aapl maxLen fis ?b (count + 1) (length buf)"
      using False by auto
    also have "\<dots> = (?b @ concat (map (dir_entry C class f aapl) (take k fis)), count + 1 + k,
         if k = 0 then length buf else length ?b + entries_length class (take (k - 1) fis))"
      using Cons.IH [of ?b "count + 1" "length buf"] k by (simp add: Let_def)
    also have "packed class maxLen (count = 0) (length buf) (fi # fis) = Suc k"
      using False k by auto
    ultimately show ?thesis by (cases k) (simp_all add: Let_def)
  qed
qed simp

lemma drop_copy_at_end: "length b = off + length s \<Longrightarrow> drop off (copy_at b off s) = s"
  by (simp add: copy_at_def)

lemma dir_walk_entries:
  assumes "dir_padded class fi < 2 ^ 32" and "\<forall>e \<in> set es. dir_padded class e < 2 ^ 32"
  shows "dir_walk class (concat (map (dir_entry C class f aapl) es) @ put32 (dir_entry C class f aapl fi) 0 0)
       = map (\<lambda>e. stringToUTF16le (fi_name e)) (es @ [fi])"
  using assms(2)
proof (induction es)
  case Nil
  have "length (dir_entry C class f aapl fi) \<ge> 4"
    using dir_layout_bounds(1) [of "class"] dir_padded_bounds [of "class" fi] by simp
  then show ?case
    using dir_entry_fields(2) [OF assms(1), of C f aapl "[]"] by (subst dir_walk.simps) (simp del: le_zero)
next
  case (Cons e es)
  let ?e = "dir_entry C class f aapl e"
  let ?r = "concat (map (dir_entry C class f aapl) es) @ put32 (dir_entry C class f aapl fi) 0 0"
  have p: "dir_padded class e < 2 ^ 32" and l: "4 \<le> length ?e"
    using Cons dir_layout_bounds(1) [of "class"] dir_padded_bounds [of "class" e] by simp_all
  have "get32 (?e @ ?r) 0 = get32 ?e 0" using l by (intro field_append(2)) simp
  then have n: "unat (get32 (?e @ ?r) 0) = length ?e" using dir_entry_fields(1) [OF p] by simp
  have "dir_walk class (?e @ ?r) = entry_name class (?e @ ?r) # dir_walk class ?r"
    using l unfolding dir_walk.simps [of "class" "?e @ ?r"] n Let_def by simp
  then show ?case using Cons dir_entry_fields(3) [OF p] by simp
qed

lemma buildDirInfoBuffer_result:
  assumes "entries \<noteq> []" and "\<forall>fi \<in> set entries. dir_padded class fi < 2 ^ 32"
    and "buildDirInfoBuffer C entries maxLen class f aapl = (buf, n)"
  shows "1 \<le> n" and "n \<le> length entries"
    and "dir_walk class buf = map (\<lambda>fi. stringToUTF16le (fi_name fi)) (take n entries)"
    and "length buf = sum_list (map (dir_padded class) (take n entries))"
    and "length buf \<le> max maxLen (dir_padded class (hd entries))"
    and "n < length entries \<Longrightarrow> maxLen < length buf + dir_padded class (entries ! n)"
proof -
  let ?E = "dir_entry C class f aapl"
  define k where "k = packed class maxLen True 0 entries"
  have k: "k \<le> length entries" "0 < k" using packed_le packed_pos [OF assms(1)] by (simp_all add: k_def)
  let ?p = "concat (map ?E (take (k - 1) entries))"
  have tk: "take k entries = take (k - 1) entries @ [entries ! (k - 1)]"
    using k by (metis Suc_pred' less_le_trans take_Suc_conv_app_nth lessI)
  have n: "n = k" and buf: "buf = put32 (concat (map ?E (take k entries))) (length ?p) 0"
    using assms(3) k by (auto simp: buildDirInfoBuffer_def dir_loop_packed k_def [symmetric] Let_def)
  show "1 \<le> n" "n \<le> length entries" using k n by simp_all
  have b: "buf = ?p @ put32 (?E (entries ! (k - 1))) 0 0"
    unfolding buf tk by (simp add: copy_at_append del: le_zero)
  have "entries ! (k - 1) \<in> set entries" "\<forall>e \<in> set (take (k - 1) entries). dir_padded class e < 2 ^ 32"
    using k assms(2) by (auto dest: in_set_takeD)
  then show "dir_walk class buf = map (\<lambda>fi. stringToUTF16le (fi_name fi)) (take n entries)"
    unfolding b n tk using assms(2) by (intro dir_walk_entries) auto
  show lb: "length buf = entries_length class (take n entries)"
    unfolding buf n by (simp del: le_zero)
  show "n < length entries \<Longrightarrow> maxLen < length buf + dir_padded class (entries ! n)"
    unfolding lb n k_def using packed_full [of "class" maxLen True 0 entries] assms(1) by simp
  show "length buf \<le> max maxLen (dir_padded class (hd entries))"
  proof -
    obtain fi fis where es: "entries = fi # fis" using assms(1) by (cases entries) auto
    then have "length buf = dir_padded class fi
        + entries_length class (take (packed class maxLen False (dir_padded class fi) fis) fis)"
      unfolding lb n k_def by simp
    then show ?thesis
      using packed_fits [of "dir_padded class fi" maxLen "class" fis]
        packed_over [of maxLen "dir_padded class fi" "class" fis] es
      by (cases "dir_padded class fi \<le> maxLen") auto
  qed
qed

section \<open>Properties\<close>

text \<open>
  C21. The linear backtracking matcher decides glob matching: an asterisk of the pattern stands for any
  run of runes and a question mark for one, for every name that holds no asterisk itself.
\<close>

theorem wildcard_is_glob:
  assumes "rune_star \<notin> set name"
  shows "wildcardMatch pattern name = glob pattern name"
  using wildcard_loop_glob [OF assms, of 0 pattern 0 "-1" 0]
  by (simp add: wildcardMatch_def loop_inv_def loop_goal_def)

lemma wildcard_is_glob_witness:
  "wildcardMatch [0x61, rune_star, 0x62, rune_quest] [0x61, 0x62, 0x62, 0x62, 0x63]"
  by (subst wildcard_is_glob) simp_all

text \<open>
  For a name that holds an asterisk the matcher can fail where the pattern matches: it takes the
  asterisk of the pattern for the one in the name and never records it, as with the pattern "*c"
  and the name "*bc".
\<close>

theorem wildcard_star_in_name:
  "\<not> wildcardMatch [rune_star, 0x63] [rune_star, 0x62, 0x63] \<and> glob [rune_star, 0x63] [rune_star, 0x62, 0x63]"
proof -
  have "wildcard_loop [rune_star, 0x63] [rune_star, 0x62, 0x63] 1 1 (-1) 0 = None"
    by (subst wildcard_loop.simps) simp
  then have "wildcard_loop [rune_star, 0x63] [rune_star, 0x62, 0x63] 0 0 (-1) 0 = None"
    by (subst wildcard_loop.simps) simp
  then show ?thesis by (simp add: wildcardMatch_def)
qed

text \<open>
  C19. A directory buffer reads back: whatever the information class and the size of the output buffer,
  it holds at least one entry; a client that follows NextEntryOffset gets the names of the first
  entries of the listing in order; it is never longer than the client's buffer unless one entry
  alone is; and it stops only before an entry that does not fit.
\<close>

theorem directory_buffer_parses:
  assumes "entries \<noteq> []" and "\<forall>fi \<in> set entries. dir_padded class fi < 2 ^ 32"
    and "buildDirInfoBuffer C entries maxLen class f aapl = (buf, n)"
  shows "1 \<le> n \<and> n \<le> length entries \<and>
    dir_walk class buf = map (\<lambda>fi. stringToUTF16le (fi_name fi)) (take n entries) \<and>
    length buf \<le> max maxLen (dir_padded class (hd entries)) \<and>
    (n = length entries \<or> maxLen < length buf + dir_padded class (entries ! n))"
  using buildDirInfoBuffer_result [OF assms] by (metis le_neq_implies_less)

definition demo_listing :: "fileinfo list" where
  "demo_listing = map (\<lambda>s. \<lparr>fi_name = ascii s, fi_size = 3, fi_isDir = False, fi_perm = 0x1B6, fi_mtime = ZeroTime\<rparr>)
     [''a'', ''b'', ''c'']"

lemma demo_listing_small: "\<forall>fi \<in> set demo_listing. dir_padded class fi < 2 ^ 32"
proof
  fix fi assume "fi \<in> set demo_listing"
  then obtain b where "fi_name fi = [b]" "unat b < 128" by (auto simp: demo_listing_def)
  then have "length (stringToUTF16le (fi_name fi)) = 2"
    using length_stringToUTF16le_ascii [of "[b]"] by simp
  moreover have "fst (dir_layout class) \<le> 104" by (auto simp: dir_layout_def dirInfoLayout_def)
  ultimately show "dir_padded class fi < 2 ^ 32"
    using roundUp_8_bounds(2) [of "fst (dir_layout class) + 2"] by (simp add: dir_padded_def)
qed

lemma directory_buffer_parses_witness:
  "let (buf, n) = buildDirInfoBuffer demo_crypto demo_listing 100 0x0C (new_open (demo_share False) [] None True) False
   in 1 \<le> n \<and> length (dir_walk 0x0C buf) = n"
proof -
  obtain buf n where b: "buildDirInfoBuffer demo_crypto demo_listing 100 0x0C (new_open (demo_share False) [] None True) False
      = (buf, n)" by fastforce
  have "demo_listing \<noteq> []" by (simp add: demo_listing_def)
  from directory_buffer_parses [OF this demo_listing_small b] show ?thesis by (simp add: b)
qed

text \<open>
  C20. Successive QUERY_DIRECTORY requests walk through the listing: a request without the restart flag
  answers with the next entries, at least one, exactly those the open had not delivered, and moves
  the position past them; it answers NO_MORE_FILES exactly when all were delivered.
\<close>

theorem query_directory_advances:
  assumes "32 \<le> length body" and "getHandle (slice body 8 24) s = Some f" and "handles_ok s"
    and "of_isDir f" and "of_dirLoaded f"
    and "body ! 3 AND flagRestartScans = 0"
    and "\<forall>fi \<in> set (of_dirEntries f). dir_padded (body ! 2) fi < 2 ^ 32"
    and "handleQueryDirectory S body s = ((status, resp), s')"
  shows "\<exists>n f'. getHandle (slice body 8 24) s' = Some f' \<and>
    f' = f\<lparr>of_dirPos := of_dirPos f + n\<rparr> \<and> of_dirPos f + n \<le> max (of_dirPos f) (length (of_dirEntries f)) \<and>
    (if length (of_dirEntries f) \<le> of_dirPos f then status = statusNoMoreFiles \<and> n = 0
     else status = statusSuccess \<and> 1 \<le> n \<and>
       dir_walk (body ! 2) (drop 8 resp) =
         map (\<lambda>fi. stringToUTF16le (fi_name fi)) (take n (drop (of_dirPos f) (of_dirEntries f))))"
proof -
  let ?k = "slice body 8 24" and ?es = "drop (of_dirPos f) (of_dirEntries f)"
  have fid: "of_fileID f = fileIDKey ?k"
    using handles_ok_get [OF assms(3), of "fileIDKey ?k" f] assms(2) by (simp add: getHandle_def get_key_def)
  have get: "getHandle ?k (addHandle f' s) = Some f'" if "of_fileID f' = of_fileID f" for f'
    using that fid by (simp add: getHandle_def addHandle_def update_conv')
  define m where "m = (if unat (get32 body 28) > 0x100000 then 0x100000 else unat (get32 body 28))"
  have H: "handleQueryDirectory S body s =
    (if of_dirPos f \<ge> length (of_dirEntries f) then failure statusNoMoreFiles (addHandle f s)
     else
       let entries = (if body ! 3 AND flagReturnSingleEntry \<noteq> 0 \<and> length ?es > 1 then take 1 ?es else ?es);
           (buf, n) = buildDirInfoBuffer (sv_C S) entries m (body ! 2) f (cn_aapl s)
       in if n = 0 then failure statusNoMoreFiles (addHandle f s)
          else ((statusSuccess, infoResponseBody buf), addHandle (f\<lparr>of_dirPos := of_dirPos f + n\<rparr>) s))"
    using assms(1,2,4-6) unfolding handleQueryDirectory_def dir_load_def Let_def m_def [symmetric] by simp
  show ?thesis
  proof (cases "of_dirPos f \<ge> length (of_dirEntries f)")
    case True
    then show ?thesis using H assms(8) get [of f] by (intro exI [of _ 0] exI [of _ f]) auto
  next
    case False
    define entries where "entries =
      (if body ! 3 AND flagReturnSingleEntry \<noteq> 0 \<and> length ?es > 1 then take 1 ?es else ?es)"
    obtain buf n where b: "buildDirInfoBuffer (sv_C S) entries m (body ! 2) f (cn_aapl s) = (buf, n)"
      by fastforce
    have e: "entries \<noteq> []" "\<forall>fi \<in> set entries. dir_padded (body ! 2) fi < 2 ^ 32"
      "length entries \<le> length ?es" "i \<le> length entries \<Longrightarrow> take i entries = take i ?es" for i
      using False assms(7) by (auto simp: entries_def min_def dest: in_set_takeD in_set_dropD)
    note r = buildDirInfoBuffer_result [OF e(1,2) b]
    let ?f = "f\<lparr>of_dirPos := of_dirPos f + n\<rparr>"
    have "handleQueryDirectory S body s = ((statusSuccess, infoResponseBody buf), addHandle ?f s)"
      unfolding H if_not_P [OF False] Let_def entries_def [symmetric] b prod.case using r(1) by simp
    then have "status = statusSuccess" "resp = infoResponseBody buf" "s' = addHandle ?f s"
      using assms(8) by simp_all
    moreover have "drop 8 (infoResponseBody buf) = buf"
      unfolding infoResponseBody_def Let_def by (rule drop_copy_at_end) simp
    moreover have "take n entries = take n ?es" using e(4) [of n] r(2) by simp
    moreover have "of_dirPos f + n \<le> length (of_dirEntries f)" using False r(2) e(3) by simp
    ultimately show ?thesis
      using get [of ?f] False r(1,3) by (intro exI [of _ n] exI [of _ ?f]) simp
  qed
qed

lemma query_directory_advances_witness:
  "let f = (new_open (demo_share False) [] None True)\<lparr>of_fileID := file_id 1, of_dirEntries := demo_listing, of_dirLoaded := True\<rparr>;
        s = addHandle f ((newConn 0 0 demo_osw)\<lparr>cn_handleCtr := 1\<rparr>)
    in fst (fst (handleQueryDirectory (demo_server [] [demo_share False]) ([33, 0, 1, 0] @ mk 4 @ file_id 1 @ mk 8) s))
       = statusSuccess"
proof -
  let ?f = "(new_open (demo_share False) [] None True)\<lparr>of_fileID := file_id 1, of_dirEntries := demo_listing, of_dirLoaded := True\<rparr>"
  let ?s = "addHandle ?f ((newConn 0 0 demo_osw)\<lparr>cn_handleCtr := 1\<rparr>)"
  let ?b = "[33, 0, 1, 0] @ mk 4 @ file_id 1 @ mk 8"
  have b: "32 \<le> length ?b" "slice ?b 8 24 = file_id 1" "?b ! 3 AND flagRestartScans = 0" "?b ! 2 = 1"
    by (simp_all add: slice_def mk_def)
  have g: "getHandle (slice ?b 8 24) ?s = Some ?f"
    unfolding b by (simp add: getHandle_def addHandle_def newConn_def)
  have ok: "handles_ok ?s"
    by (intro handles_ok_add) (auto simp: handles_ok_def newConn_def fid_issued_def intro: exI [of _ 1])
  have dl: "of_isDir ?f" "of_dirLoaded ?f" "of_dirEntries ?f = demo_listing" "of_dirPos ?f = 0"
    by (simp_all add: new_open_def)
  have "\<not> length (of_dirEntries ?f) \<le> of_dirPos ?f" by (simp add: new_open_def demo_listing_def)
  moreover obtain status resp s' where
    e: "handleQueryDirectory (demo_server [] [demo_share False]) ?b ?s = ((status, resp), s')" by (metis surj_pair)
  moreover have "\<forall>fi \<in> set (of_dirEntries ?f). dir_padded (?b ! 2) fi < 2 ^ 32"
    unfolding dl by (rule demo_listing_small)
  ultimately have "status = statusSuccess"
    using query_directory_advances [OF b(1) g ok dl(1,2) b(3) _ e] by (auto split: if_splits)
  with e show "let f = (new_open (demo_share False) [] None True)\<lparr>of_fileID := file_id 1, of_dirEntries := demo_listing, of_dirLoaded := True\<rparr>;
        s = addHandle f ((newConn 0 0 demo_osw)\<lparr>cn_handleCtr := 1\<rparr>)
    in fst (fst (handleQueryDirectory (demo_server [] [demo_share False]) ([33, 0, 1, 0] @ mk 4 @ file_id 1 @ mk 8) s))
       = statusSuccess"
    unfolding Let_def by (simp only: fst_conv)
qed

end
