(* ===== verification/LocalFiles.thy ===== *)
theory LocalFiles
  imports Connection
begin

text \<open>
  Files of a local share, end to end: what READ and WRITE do to the bytes of the file behind an
  open, what a delete-on-close CLOSE removes, and what an open for appending can do.
\<close>

section \<open>Reading and writing\<close>

text \<open>An open file of a local share: its number, and the inode and flags behind it.\<close>

definition opens_inode :: "osw conn \<Rightarrow> bytes \<Rightarrow> nat \<Rightarrow> nat \<Rightarrow> u32 \<Rightarrow> bool" where
  "opens_inode s fid h i flag \<longleftrightarrow>
    (\<exists>f goos st root. getHandle fid s = Some f \<and> of_handle f = Some h \<and>
       sh_fs (of_share f) = localFS goos st root \<and> \<not> sh_readOnly (of_share f)) \<and>
    os_fds (cn_world s) h = Some (Some i, flag)"

definition file_bytes :: "osw conn \<Rightarrow> nat \<Rightarrow> bytes" where
  "file_bytes s i = fd_bytes (os_data (cn_world s) i)"

lemma localFS_simps [simp]:
  "f_ReadAt (localFS goos st root) = os_ReadAt" "f_WriteAt (localFS goos st root) = os_WriteAt"
  "f_Close (localFS goos st root) = os_FClose" "fs_Remove (localFS goos st root) = lfs_Remove root"
  by (simp_all add: localFS_def)

lemma handleRead_local:
  assumes "opens_inode s (slice body 16 32) h i flag" and "48 \<le> length body"
    and "0 < unat (get32 body 4)" and "unat (get32 body 4) \<le> maxIOSize"
    and "0 \<le> sint (get64 body 8)" and "flag AND O_WRONLY = 0"
  shows "handleRead S body s =
    (let data = take (unat (get32 body 4)) (drop (unat (get64 body 8)) (file_bytes s i))
     in if data = [] then failure statusEndOfFile s
        else ((statusSuccess, readResponseBody (mk readRespFixed @ data)), s))"
proof -
  obtain f goos st root where f: "getHandle (slice body 16 32) s = Some f" "of_handle f = Some h"
    "sh_fs (of_share f) = localFS goos st root" and fd: "os_fds (cn_world s) h = Some (Some i, flag)"
    using assms(1) by (auto simp: opens_inode_def)
  have "\<not> get32 body 4 > of_nat maxIOSize" using assms(4) by (simp add: word_less_nat_alt)
  moreover have "get32 body 4 \<noteq> 0" using assms(3) by auto
  ultimately show ?thesis
    using assms(2,5,6) f fd
    by (auto simp: handleRead_def call_def os_ReadAt_def Let_def file_bytes_def errors_Is_def)
qed


text \<open>The bytes a WRITE request carries.\<close>

definition write_data :: "bytes \<Rightarrow> bytes" where
  "write_data body =
    (let d = unat (get16 body 2) - smb2HeaderSize in slice body d (d + unat (get32 body 4)))"

definition write_ok :: "bytes \<Rightarrow> bool" where
  "write_ok body \<longleftrightarrow> 48 \<le> length body \<and> unat (get32 body 4) \<le> maxIOSize \<and>
    smb2HeaderSize \<le> unat (get16 body 2) \<and>
    unat (get16 body 2) - smb2HeaderSize + unat (get32 body 4) \<le> length body"

lemma length_write_data: "write_ok body \<Longrightarrow> length (write_data body) = unat (get32 body 4)"
proof -
  assume "write_ok body"
  then have "unat (get32 body 4) \<le> length body - (unat (get16 body 2) - smb2HeaderSize)"
    unfolding write_ok_def by linarith
  then show ?thesis unfolding write_data_def Let_def length_slice by simp
qed

lemma handleWrite_local:
  assumes "opens_inode s (slice body 16 32) h i flag" and "write_ok body"
  shows "handleWrite S body s =
    (let ((n, err), w) = os_WriteAt h (write_data body) (get64 body 8) (cn_world s);
         s = s\<lparr>cn_world := w\<rparr>
     in case err of
          Some e \<Rightarrow> failure (mapOSError (sv_GOOS S) (Some e)) s
        | None \<Rightarrow> ((statusSuccess, writeResponseBody (of_nat n)), s))"
proof -
  obtain f goos st root where f: "getHandle (slice body 16 32) s = Some f" "of_handle f = Some h"
    "sh_fs (of_share f) = localFS goos st root" "\<not> sh_readOnly (of_share f)"
    using assms(1) by (auto simp: opens_inode_def)
  let ?d = "int (unat (get16 body 2)) - int smb2HeaderSize"
  have w: "48 \<le> length body" "\<not> get32 body 4 > of_nat maxIOSize" "\<not> ?d < 0"
    "\<not> ?d + int (unat (get32 body 4)) > int (length body)"
  proof -
    have o: "48 \<le> length body" "unat (get32 body 4) \<le> maxIOSize" "smb2HeaderSize \<le> unat (get16 body 2)"
      "unat (get16 body 2) - smb2HeaderSize + unat (get32 body 4) \<le> length body"
      using assms(2) unfolding write_ok_def by blast+
    show "48 \<le> length body" "\<not> get32 body 4 > of_nat maxIOSize"
      using o(1,2) by (simp_all add: word_less_nat_alt)
    show "\<not> ?d < 0" "\<not> ?d + int (unat (get32 body 4)) > int (length body)" using o(3,4) by linarith+
  qed
  have d: "nat ?d = unat (get16 body 2) - smb2HeaderSize"
    by (metis nat_minus_as_int)
  show ?thesis
    using w f unfolding handleWrite_def Let_def write_data_def d
    by (simp add: call_def Let_def split_beta)
qed

lemma os_WriteAt_value:
  assumes "os_fds w h = Some (Some i, O_RDWR)" and "0 \<le> sint off" and "b \<noteq> []"
  shows "os_WriteAt h b off w =
    ((length b, None), set_bytes i (copy_at (resize (max (length (fd_bytes (os_data w i)))
       (unat off + length b)) (fd_bytes (os_data w i))) (unat off) b) w)"
  using assms by (simp add: os_WriteAt_def Let_def)

lemma copied_back:
  assumes "off + length b \<le> length a"
  shows "take (length b) (drop off (copy_at a off b)) = b"
  using assms by simp

lemma length_resize [simp]: "length (resize n b) = n"
  by (simp add: resize_def)


section \<open>Properties\<close>

text \<open>
  C24. READ on a local share returns exactly the bytes of the file in the requested range, shortened at
  the end of the file, and END_OF_FILE when the range starts there; it never changes anything.
\<close>

theorem read_exact:
  assumes "opens_inode s (slice body 16 32) h i flag" and "48 \<le> length body"
    and "0 < unat (get32 body 4)" and "unat (get32 body 4) \<le> maxIOSize"
    and "0 \<le> sint (get64 body 8)" and "flag AND O_WRONLY = 0"
  shows "\<exists>resp. handleRead S body s =
      (if unat (get64 body 8) < length (file_bytes s i) then ((statusSuccess, resp), s)
       else failure statusEndOfFile s) \<and>
    drop 16 resp = take (unat (get32 body 4)) (drop (unat (get64 body 8)) (file_bytes s i)) \<and>
    unat (get32 resp 4) = length (drop 16 resp)"
proof -
  let ?d = "take (unat (get32 body 4)) (drop (unat (get64 body 8)) (file_bytes s i))"
  let ?r = "readResponseBody (mk readRespFixed @ ?d)"
  have "(?d = []) = (\<not> unat (get64 body 8) < length (file_bytes s i))" using assms(3) by auto
  then have "handleRead S body s = (if unat (get64 body 8) < length (file_bytes s i)
      then ((statusSuccess, ?r), s) else failure statusEndOfFile s)"
    using handleRead_local [OF assms, of S] by (simp add: Let_def)
  moreover have "drop 16 ?r = ?d" by (simp add: readResponseBody_def Let_def mk_def)
  moreover have "length ?d < 2 ^ 32" using assms(4) by simp
  then have "unat (get32 ?r 4) = length ?d"
    by (simp add: readResponseBody_def Let_def unat_of_nat del: length_take)
  ultimately show ?thesis by metis
qed

text \<open>
  C23. A WRITE that succeeds on a local share is read back: a READ of the same range of the same open
  returns exactly the bytes of the request.
\<close>

theorem write_read_back:
  assumes "opens_inode s (slice wb 16 32) h i O_RDWR" and "write_ok wb" and "0 < unat (get32 wb 4)"
    and "0 \<le> sint (get64 wb 8)"
    and "48 \<le> length rb" and "slice rb 4 32 = slice wb 4 32"
  shows "\<exists>wresp s1 rresp. handleWrite S wb s = ((statusSuccess, wresp), s1) \<and>
    handleRead S rb s1 = ((statusSuccess, rresp), s1) \<and> drop 16 rresp = write_data wb"
proof -
  have same: "get32 rb 4 = get32 wb 4" "get64 rb 8 = get64 wb 8" "slice rb 16 32 = slice wb 16 32"
  proof -
    have "take 4 (slice rb 4 32) = take 4 (slice wb 4 32)"
      "take 8 (drop 4 (slice rb 4 32)) = take 8 (drop 4 (slice wb 4 32))"
      "drop 12 (slice rb 4 32) = drop 12 (slice wb 4 32)" using assms(6) by simp_all
    then show "get32 rb 4 = get32 wb 4" "get64 rb 8 = get64 wb 8" "slice rb 16 32 = slice wb 16 32"
      by (simp_all add: slice_def un32_def un64_def drop_take)
  qed
  have len: "length (write_data wb) = unat (get32 wb 4)" by (rule length_write_data [OF assms(2)])
  then have ne: "write_data wb \<noteq> []" using assms(3) by auto
  have fd: "os_fds (cn_world s) h = Some (Some i, O_RDWR)" using assms(1) by (simp add: opens_inode_def)
  let ?off = "unat (get64 wb 8)" and ?old = "fd_bytes (os_data (cn_world s) i)"
  let ?new = "copy_at (resize (max (length ?old) (?off + length (write_data wb))) ?old) ?off (write_data wb)"
  let ?s1 = "s\<lparr>cn_world := set_bytes i ?new (cn_world s)\<rparr>"
  have w: "handleWrite S wb s = ((statusSuccess, writeResponseBody (of_nat (length (write_data wb)))), ?s1)"
    using handleWrite_local [OF assms(1,2), of S] os_WriteAt_value [OF fd assms(4) ne]
    by (simp add: Let_def)
  have fb: "file_bytes ?s1 i = ?new" by (simp add: file_bytes_def set_bytes_def set_data_def)
  have o1: "opens_inode ?s1 (slice rb 16 32) h i O_RDWR"
    using assms(1) unfolding same by (auto simp: opens_inode_def getHandle_def set_bytes_def set_data_def)
  have d: "take (unat (get32 rb 4)) (drop (unat (get64 rb 8)) (file_bytes ?s1 i)) = write_data wb"
    unfolding fb same len [symmetric] by (rule copied_back) simp
  have b: "unat (get32 wb 4) \<le> maxIOSize" using assms(2) by (simp add: write_ok_def)
  have "handleRead S rb ?s1 = ((statusSuccess, readResponseBody (mk readRespFixed @ write_data wb)), ?s1)"
    using handleRead_local [OF o1 assms(5), of S, unfolded d Let_def] assms(3,4) b ne by (simp add: same)
  moreover have "drop 16 (readResponseBody (mk readRespFixed @ write_data wb)) = write_data wb"
    by (simp add: readResponseBody_def Let_def mk_def)
  ultimately show ?thesis using w by blast
qed

text \<open>
  An open for appending only cannot write: such a CREATE passes \<open>O_APPEND\<close> to the backend, and
  on a local share every WRITE through it fails with UNSUCCESSFUL and leaves the file as it was,
  since \<open>os.File.WriteAt\<close> refuses a file opened so.
\<close>

theorem append_only_cannot_write:
  assumes "opens_inode s (slice body 16 32) h i (accessToFlags access disposition)" and "write_ok body"
    and "access AND accFileAppendData \<noteq> 0" and "access AND accFileWriteData = 0"
  shows "handleWrite S body s = failure statusUnsuccessful s"
proof -
  have "accessToFlags access disposition AND O_APPEND \<noteq> 0"
    using assms(3,4) by (simp add: accessToFlags_def Let_def)
  then have "os_WriteAt h b off (cn_world s) = ((0, Some OtherError), cn_world s)" for b off
    using assms(1) by (simp add: opens_inode_def os_WriteAt_def)
  moreover have "mapOSError (sv_GOOS S) (Some OtherError) = statusUnsuccessful"
    by (simp add: mapOSError_def errors_Is_def osErrorStatus_def osErrorStatus_windows_def
        osErrorStatus_other_def)
  ultimately show ?thesis using handleWrite_local [OF assms(1,2), of S] by simp
qed

text \<open>A file open for reading and writing, and the requests on it.\<close>

definition demo_file :: "u32 \<Rightarrow> osw conn" where
  "demo_file flag =
    (let f = (new_open (demo_share False) (ascii ''a'') (Some 0) False)\<lparr>of_fileID := file_id 1\<rparr>
     in addHandle f (newConn 0 0 (demo_osw\<lparr>os_fds := [0 \<mapsto> (Some 0, flag)], os_nextfd := 1\<rparr>)))"

definition demo_io :: bytes where
  "demo_io = put32 (put16 (copy_at (mk 50) 16 (file_id 1)) 2 112) 4 2"

lemma demo_file_opens: "opens_inode (demo_file flag) (file_id 1) 0 0 flag"
  by (auto simp: opens_inode_def demo_file_def addHandle_def getHandle_def newConn_def new_open_def
      demo_share_def demo_osw_def)

lemma demo_io_ok: "slice demo_io 16 32 = file_id 1" "get32 demo_io 4 = 2" "get64 demo_io 8 = 0"
  "write_ok demo_io" "48 \<le> length demo_io"
proof -
  show s: "slice demo_io 16 32 = file_id 1" "get32 demo_io 4 = 2" "48 \<le> length demo_io" "get64 demo_io 8 = 0"
    by (simp_all add: demo_io_def drop_mk)
  have "get16 demo_io 2 = 112" by (simp add: demo_io_def)
  then show "write_ok demo_io" using s by (simp add: write_ok_def) (simp add: demo_io_def)
qed

lemma read_exact_witness:
  "\<exists>resp. handleRead (demo_server [] [demo_share False]) demo_io (demo_file O_RDONLY)
      = ((statusSuccess, resp), demo_file O_RDONLY) \<and> drop 16 resp = [1, 2]"
proof -
  have o: "opens_inode (demo_file O_RDONLY) (slice demo_io 16 32) 0 0 O_RDONLY"
    unfolding demo_io_ok by (rule demo_file_opens)
  have b: "file_bytes (demo_file O_RDONLY) 0 = [1, 2, 3]"
    by (simp add: file_bytes_def demo_file_def addHandle_def newConn_def demo_osw_def)
  show ?thesis
    using read_exact [OF o demo_io_ok(5), of "demo_server [] [demo_share False]"]
    by (auto simp: demo_io_ok b)
qed

lemma write_read_back_witness:
  "\<exists>s1 resp. handleRead (demo_server [] [demo_share False]) demo_io s1 = ((statusSuccess, resp), s1)
     \<and> drop 16 resp = write_data demo_io"
proof -
  have o: "opens_inode (demo_file O_RDWR) (slice demo_io 16 32) 0 0 O_RDWR"
    unfolding demo_io_ok by (rule demo_file_opens)
  show ?thesis
    using write_read_back [OF o demo_io_ok(4) _ _ demo_io_ok(5) refl, of "demo_server [] [demo_share False]"]
    by (auto simp: demo_io_ok)
qed

lemma append_only_cannot_write_witness:
  "let s = demo_file (accessToFlags accFileAppendData dispOpen)
   in handleWrite (demo_server [] [demo_share False]) demo_io s = failure statusUnsuccessful s"
proof -
  have o: "opens_inode (demo_file (accessToFlags accFileAppendData dispOpen)) (slice demo_io 16 32) 0 0
      (accessToFlags accFileAppendData dispOpen)"
    unfolding demo_io_ok by (rule demo_file_opens)
  show ?thesis unfolding Let_def by (rule append_only_cannot_write [OF o demo_io_ok(4)]) simp_all
qed

section \<open>CREATE and CLOSE\<close>

lemma withCreateContexts_slice:
  "88 \<le> length resp \<Longrightarrow> slice (withCreateContexts resp c) 64 80 = slice resp 64 80"
proof -
  assume l: "88 \<le> length resp"
  have "take 16 (drop 64 (copy_at (mk (88 + length c)) 0 (slice resp 0 88))) = take 16 (drop (64 - 0) (slice resp 0 88))"
    using l by (intro take_drop_copy_at_inside) simp_all
  also have "\<dots> = take 16 (drop 64 resp)" by (simp add: slice_def drop_take min_def)
  finally show ?thesis using l by (simp add: withCreateContexts_def slice_def Let_def)
qed

lemma withAppleContext_slice:
  "88 \<le> length resp \<Longrightarrow> slice (fst (withAppleContext body sh resp s)) 64 80 = slice resp 64 80"
  by (auto simp: withAppleContext_def withCreateContexts_slice split: option.split prod.split)

lemma buildCreateResp_fileID:
  "length (of_fileID f) = 16 \<Longrightarrow> slice (fst (buildCreateResp a f s)) 64 80 = of_fileID f"
  by (simp add: buildCreateResp_def Let_def split: prod.split)

text \<open>
  C22. A CREATE that succeeds opens exactly one new handle: under a FileId that was never issued on the
  connection and that the response carries, on the share of the tree, at the path of the request's
  name, delete-on-close exactly when asked; every other open stays as it was.
\<close>

theorem create_issues_handle:
  assumes "handles_ok s" and "cn_handleCtr s \<noteq> - 1"
    and "handleCreate S body tid s = ((statusSuccess, resp), s')"
  shows "\<exists>sh f. cn_diskTrees s tid = Some sh \<and> getHandle (slice resp 64 80) s' = Some f \<and>
    \<not> fid_issued (slice resp 64 80) s \<and> of_fileID f = slice resp 64 80 \<and> of_share f = sh \<and>
    of_path f = nameToPath (create_name body) \<and>
    of_deleteOnClose f = (get32 body 40 AND optDeleteOnClose \<noteq> 0) \<and>
    (\<forall>k. k = slice resp 64 80 \<or> get_key k s' = get_key k s)"
proof -
  obtain f where c: "create_succeeds S body tid s resp f s'"
    using assms(3) by (cases rule: handleCreate_cases) auto
  then obtain sh st s1 f0 action s2 s3 resp0 s4 where
    sh: "cn_diskTrees s tid = Some sh"
    and st: "call (fs_Stat (sh_fs sh) (nameToPath (create_name body))) s = (st, s1)"
    and ref: "create_refused (sv_GOOS S) sh (get32 body 24) (get32 body 36) (get32 body 40) st = None"
    and op: "create_open (sv_GOOS S) sh (nameToPath (create_name body)) (get32 body 24) (get32 body 36)
         (get32 body 40) st s1 = (Inr (f0, action), s2)"
    and o: "openHandle (if get32 body 40 AND optDeleteOnClose \<noteq> 0 then f0\<lparr>of_deleteOnClose := True\<rparr> else f0) s2
         = (f, s3)"
    and b: "buildCreateResp action f s3 = (resp0, s4)"
    and a: "withAppleContext body sh resp0 s4 = (resp, s')"
    unfolding create_succeeds_def by blast
  have w2: "world_step (\<lambda>_. True) s s2"
    using stat_step [OF _ st, of "\<lambda>_. True"] create_open_step [OF op ref, of "\<lambda>_. True"]
    by (auto intro: world_step_trans)
  have w4: "world_step (\<lambda>_. True) s3 s4" using observe_step(3) [OF _ b] by simp
  note f0 = create_open_share [OF op]
  let ?f1 = "if get32 body 40 AND optDeleteOnClose \<noteq> 0 then f0\<lparr>of_deleteOnClose := True\<rparr> else f0"
  let ?k = "file_id (cn_handleCtr s + 1)"
  have t2: "cn_handles s2 = cn_handles s" "cn_handleCtr s2 = cn_handleCtr s"
    using w2 by (auto simp: world_step_def)
  have f: "f = stampHandle ?k ?f1" "s3 = addHandle f (s2\<lparr>cn_handleCtr := cn_handleCtr s + 1\<rparr>)"
    using o unfolding openHandle_value t2 by (auto split: if_splits)
  have r: "slice resp 64 80 = ?k"
  proof -
    have "resp = fst (withAppleContext body sh resp0 s4)" "resp0 = fst (buildCreateResp action f s3)"
      using a b by simp_all
    moreover have "length resp0 = 89" using b length_buildCreateResp [of action f s3] by simp
    ultimately show ?thesis
      using withAppleContext_slice [of resp0 body sh s4] buildCreateResp_fileID [of f action s3] f(1) by simp
  qed
  have "cn_handles s' = cn_handles s4" using withAppleContext_step [OF a] by auto
  then have h: "cn_handles s' = AList.update ?k f (cn_handles s)"
    using w4 f t2 by (auto simp: world_step_def addHandle_def)
  have "getHandle ?k s' = Some f" "get_key k s' = get_key k s" if "k \<noteq> ?k" for k
    using that by (simp_all add: getHandle_def get_key_def h update_conv')
  moreover have "of_share f = sh" "of_path f = nameToPath (create_name body)" "of_fileID f = ?k"
    "of_deleteOnClose f = (get32 body 40 AND optDeleteOnClose \<noteq> 0)"
    using f(1) f0 by (auto split: if_splits)
  ultimately show ?thesis
    using sh not_issued_next [OF assms(2)] unfolding r
    by (intro exI [of _ sh] exI [of _ f]) (metis (full_types) getHandle_def get_key_def fileIDKey_id length_file_id h update_conv' fun_upd_same)
qed

text \<open>Opening the root of the share.\<close>

definition demo_tree :: "osw conn" where
  "demo_tree = (newConn 0 0 demo_osw)\<lparr>cn_diskTrees := [1 \<mapsto> demo_share False]\<rparr>"

definition demo_create :: bytes where
  "demo_create = put32 (mk 56) 36 dispOpen"

lemma demo_create_fields:
  "length demo_create = 56" "get32 demo_create 24 = 0" "get32 demo_create 36 = dispOpen"
  "get32 demo_create 40 = 0" "create_name demo_create = []" "createContexts demo_create = Map.empty"
proof -
  have z: "get16 demo_create 46 = 0" "get32 demo_create 52 = 0" by (simp_all add: demo_create_def drop_mk)
  show "length demo_create = 56" "get32 demo_create 24 = 0" "get32 demo_create 36 = dispOpen"
    "get32 demo_create 40 = 0" by (simp_all add: demo_create_def drop_mk)
  show "create_name demo_create = []" by (simp add: create_name_def bufferAt_def z)
  show "createContexts demo_create = Map.empty" by (simp add: createContexts_def z Let_def)
qed

lemma demo_create_succeeds:
  "fst (fst (handleCreate (demo_server [] [demo_share False]) demo_create 1 demo_tree)) = statusSuccess"
proof -
  have p: "nameToPath [] = []" by (simp add: nameToPath_def path_Clean_def trim_slashes_def clean_components_def clean_step_def)
  have r: "os_path srv_root = [ascii ''srv'']" by (simp add: os_path_def srv_root_def)
  have st: "fs_Stat (sh_fs (demo_share False)) [] demo_osw
      = (Inr (node_info (ascii ''srv'') DirNode demo_osw), demo_osw)"
    by (simp add: demo_share_def localFS_def lfs_Stat_def resolve_def os_Stat_def r os_node_def)
      (simp add: demo_osw_def base_name_def r)
  have ro: "sh_readOnly (demo_share False) = False" by (simp add: demo_share_def)
  have fl: "accessToFlags 0 dispOpen = O_RDONLY" by (simp add: accessToFlags_def)
  have d: "fi_isDir (node_info nm DirNode w)" for nm w by (simp add: node_info_def)
  show ?thesis
    by (simp add: handleCreate_def demo_create_fields p demo_tree_def newConn_def call_def st create_refused_def
        ro fl d mutating_flags_def fileIsReadOnly_def create_open_def Let_def split: prod.split)
qed

lemma create_issues_handle_witness:
  "let (r, s') = handleCreate (demo_server [] [demo_share False]) demo_create 1 demo_tree
   in getHandle (slice (snd r) 64 80) s' \<noteq> None"
proof -
  obtain resp s' where e: "handleCreate (demo_server [] [demo_share False]) demo_create 1 demo_tree
      = ((statusSuccess, resp), s')" using demo_create_succeeds by (metis prod.collapse)
  have "handles_ok demo_tree" "cn_handleCtr demo_tree \<noteq> - 1"
    by (simp_all add: demo_tree_def handles_ok_def newConn_def)
  from create_issues_handle [OF this e] show ?thesis by (auto simp: e)
qed

text \<open>
  C25. Delete on close: closing the last thing the server knows of an open file of a local share that
  was opened to be deleted removes the file's name from the tree and the FileId from the
  connection, and reports success.
\<close>

theorem delete_on_close_removes:
  assumes "24 \<le> length body" and "getHandle (slice body 8 24) s = Some f"
    and "of_deleteOnClose f" and "of_handle f = Some h" and "os_fds (cn_world s) h \<noteq> None"
    and "sh_fs (of_share f) = localFS goos st root" and "clean_root root"
    and "os_node (os_path root @ path_components (of_path f)) (cn_world s) = Some (FileNode i)"
    and "handleClose S body s = ((status, resp), s')"
  shows "status = statusSuccess \<and> getHandle (slice body 8 24) s' = None \<and>
    os_node (os_path root @ path_components (of_path f)) (cn_world s') = None"
proof -
  obtain full where full: "resolve root (of_path f) = Inr full"
    "os_path full = os_path root @ path_components (of_path f)" by (rule resolve_path [OF assms(7)])
  let ?s1 = "cls_key (fileIDKey (slice body 8 24)) s"
  let ?w = "(cn_world s)\<lparr>os_fds := (os_fds (cn_world s))(h := None)\<rparr>"
  let ?q = "os_path root @ path_components (of_path f)"
  let ?w2 = "?w\<lparr>os_nodes := AList.delete ?q (os_nodes ?w)\<rparr>"
  obtain x where x: "os_fds (cn_world s) h = Some x" using assms(5) by blast
  have n: "os_node ?q ?w = Some (FileNode i)" using assms(8) by (simp add: os_node_def)
  have "lfs_Remove root (of_path f) ?w = (None, ?w2)"
    using n by (simp add: lfs_Remove_def full os_Remove_def Let_def)
  moreover have "os_FClose h (cn_world s) = (None, ?w)" using x by (simp add: os_FClose_def)
  ultimately have c: "close_file (sv_GOOS S) f ?s1 = (None, ?s1\<lparr>cn_world := ?w2\<rparr>)"
    using assms(3,4,6) by (simp add: close_file_def call_def cls_key_def)
  have r: "removeHandle (slice body 8 24) s = (Some f, ?s1)"
    using assms(2) by (simp add: removeHandle_def cls_key_def getHandle_def Let_def)
  have p: "close_postAttrs body f ?s1 = (None, ?s1)" using assms(3) by (simp add: close_postAttrs_def)
  have "handleClose S body s = ((statusSuccess, closeResponseBody), ?s1\<lparr>cn_world := ?w2\<rparr>)"
    using assms(1) r p c by (simp add: handleClose_def)
  then show ?thesis
    using assms(9) by (auto simp: getHandle_def cls_key_def delete_conv' os_node_def)
qed

lemma delete_on_close_removes_witness:
  "let f = (new_open (demo_share False) (ascii ''a'') (Some 0) False)\<lparr>of_fileID := file_id 1, of_deleteOnClose := True\<rparr>;
       s = addHandle f (newConn 0 0 (demo_osw\<lparr>os_fds := [0 \<mapsto> (Some 0, O_RDWR)], os_nextfd := 1\<rparr>))
   in os_node [ascii ''srv'', ascii ''a''] (cn_world (snd (handleClose (demo_server [] [demo_share False])
        (mk 8 @ file_id 1) s))) = None"
proof -
  let ?f = "(new_open (demo_share False) (ascii ''a'') (Some 0) False)\<lparr>of_fileID := file_id 1, of_deleteOnClose := True\<rparr>"
  let ?s = "addHandle ?f (newConn 0 0 (demo_osw\<lparr>os_fds := [0 \<mapsto> (Some 0, O_RDWR)], os_nextfd := 1\<rparr>))"
  have b: "24 \<le> length (mk 8 @ file_id 1)" "slice (mk 8 @ file_id 1) 8 24 = file_id 1"
    by (simp_all add: slice_def)
  have g: "getHandle (slice (mk 8 @ file_id 1) 8 24) ?s = Some ?f"
    unfolding b by (simp add: getHandle_def addHandle_def newConn_def)
  have q: "os_path srv_root @ path_components (of_path ?f) = [ascii ''srv'', ascii ''a'']"
    by (simp add: os_path_def srv_root_def new_open_def path_components_def clean_components_def clean_step_def)
  have n: "os_node (os_path srv_root @ path_components (of_path ?f)) (cn_world ?s) = Some (FileNode 0)"
    unfolding q by (simp add: os_node_def addHandle_def newConn_def demo_osw_def)
  obtain status resp s' where e: "handleClose (demo_server [] [demo_share False]) (mk 8 @ file_id 1) ?s
      = ((status, resp), s')" by (metis surj_pair)
  have fs: "sh_fs (of_share ?f) = localFS Linux (Inr (4096, 1000, 500)) srv_root"
    by (simp add: new_open_def demo_share_def)
  have "os_node [ascii ''srv'', ascii ''a''] (cn_world s') = None"
    using delete_on_close_removes [OF b(1) g _ _ _ fs srv.root n e] unfolding q
    by (simp add: addHandle_def newConn_def new_open_def)
  then show ?thesis unfolding Let_def e by simp
qed

end
