(* ===== verification/Http.thy ===== *)
theory Http
  imports Fsx
begin

text \<open>
  What \<open>internal/httpvfs\<close> and \<open>internal/vfsprovider\<close> say to each other: requests, responses, and
  the JSON values in their bodies. The textual forms of URLs, numbers, times and JSON
  (\<open>net/url\<close>, \<open>strconv\<close>, \<open>time\<close>, \<open>encoding/json\<close>) are not modelled: a query parameter and a
  JSON document are carried as values.
\<close>

section \<open>Requests and responses\<close>

datatype http_method = GET | POST | PUT | DELETE

text \<open>A query parameter: text, a decimal integer, or an RFC 3339 time.\<close>

datatype qvalue = QText gostring | QInt int | QTime gotime

datatype json =
    JBool bool
  | JNum int
  | JText gostring
  | JTime gotime
  | JArr "json list"
  | JObj "(gostring \<times> json) list"

datatype httpbody = Octets bytes | Json json

record request =
  rq_method :: http_method
  rq_endpoint :: gostring
  rq_query :: "(gostring \<times> qvalue) list"
  rq_body :: httpbody
  rq_token :: gostring

record response =
  rs_status :: nat
  rs_body :: httpbody

abbreviation StatusOK :: nat where "StatusOK \<equiv> 200"
abbreviation StatusBadRequest :: nat where "StatusBadRequest \<equiv> 400"
abbreviation StatusUnauthorized :: nat where "StatusUnauthorized \<equiv> 401"
abbreviation StatusForbidden :: nat where "StatusForbidden \<equiv> 403"
abbreviation StatusNotFound :: nat where "StatusNotFound \<equiv> 404"
abbreviation StatusMethodNotAllowed :: nat where "StatusMethodNotAllowed \<equiv> 405"
abbreviation StatusConflict :: nat where "StatusConflict \<equiv> 409"
abbreviation StatusInternalServerError :: nat where "StatusInternalServerError \<equiv> 500"
abbreviation StatusNotImplemented :: nat where "StatusNotImplemented \<equiv> 501"

text \<open>\<open>url.Values.Get\<close>: the first value, \<open>""\<close> when there is none; and its parsed forms.\<close>

definition query_text :: "(gostring \<times> qvalue) list \<Rightarrow> string \<Rightarrow> gostring" where
  "query_text q k = (case map_of q (ascii k) of Some (QText t) \<Rightarrow> t | _ \<Rightarrow> [])"

definition query_int :: "(gostring \<times> qvalue) list \<Rightarrow> string \<Rightarrow> int option" where
  "query_int q k = (case map_of q (ascii k) of
     Some (QInt i) \<Rightarrow> if - (2 ^ 63) \<le> i \<and> i < 2 ^ 63 then Some i else None
   | _ \<Rightarrow> None)"

definition query_time :: "(gostring \<times> qvalue) list \<Rightarrow> string \<Rightarrow> gotime option" where
  "query_time q k = (case map_of q (ascii k) of Some (QTime t) \<Rightarrow> Some t | _ \<Rightarrow> None)"

section \<open>Decoding into a struct\<close>

text \<open>
  A field that is absent keeps its zero value; a value of the wrong kind is an error.
\<close>

definition field_text :: "(gostring \<times> json) list \<Rightarrow> string \<Rightarrow> gostring option" where
  "field_text fs k = (case map_of fs (ascii k) of
     None \<Rightarrow> Some [] | Some (JText t) \<Rightarrow> Some t | _ \<Rightarrow> None)"

definition field_bool :: "(gostring \<times> json) list \<Rightarrow> string \<Rightarrow> bool option" where
  "field_bool fs k = (case map_of fs (ascii k) of
     None \<Rightarrow> Some False | Some (JBool b) \<Rightarrow> Some b | _ \<Rightarrow> None)"

definition field_int :: "(gostring \<times> json) list \<Rightarrow> string \<Rightarrow> int option" where
  "field_int fs k = (case map_of fs (ascii k) of
     None \<Rightarrow> Some 0
   | Some (JNum i) \<Rightarrow> if - (2 ^ 63) \<le> i \<and> i < 2 ^ 63 then Some i else None
   | _ \<Rightarrow> None)"

definition field_time :: "(gostring \<times> json) list \<Rightarrow> string \<Rightarrow> gotime option" where
  "field_time fs k = (case map_of fs (ascii k) of
     None \<Rightarrow> Some ZeroTime | Some (JTime t) \<Rightarrow> Some t | _ \<Rightarrow> None)"

record fileInfoJSON =
  ji_name :: gostring
  ji_size :: i64
  ji_modTime :: gotime
  ji_isDir :: bool
  ji_readOnly :: bool

definition encode_info :: "fileInfoJSON \<Rightarrow> json" where
  "encode_info i = JObj
    ([(ascii ''name'', JText (ji_name i)), (ascii ''size'', JNum (sint (ji_size i))),
      (ascii ''modTime'', JTime (ji_modTime i)), (ascii ''isDir'', JBool (ji_isDir i))]
     @ (if ji_readOnly i then [(ascii ''readOnly'', JBool True)] else []))"

definition decode_info :: "json \<Rightarrow> fileInfoJSON option" where
  "decode_info j =
    (case j of
       JObj fs \<Rightarrow>
         (case (field_text fs ''name'', field_int fs ''size'', field_time fs ''modTime'',
                field_bool fs ''isDir'', field_bool fs ''readOnly'') of
            (Some n, Some sz, Some t, Some d, Some r) \<Rightarrow>
              Some \<lparr>ji_name = n, ji_size = of_int sz, ji_modTime = t, ji_isDir = d, ji_readOnly = r\<rparr>
          | _ \<Rightarrow> None)
     | _ \<Rightarrow> None)"

lemma decode_encode_info [simp]: "decode_info (encode_info i) = Some i"
proof -
  have "- (2 ^ 63) \<le> sint (ji_size i)" "sint (ji_size i) < 2 ^ 63"
    using sint_range_size [of "ji_size i"] by (simp_all add: word_size)
  then show ?thesis
    by (cases i) (simp add: encode_info_def decode_info_def field_text_def field_int_def field_time_def
        field_bool_def)
qed

end
