(* ===== verification/Httpvfs.thy ===== *)
theory Httpvfs
  imports Http
begin

text \<open>
  \<open>internal/httpvfs/httpvfs.go\<close>: the client of a provider, as a backend. The network, with the
  provider behind it, is a parameter \<open>roundtrip\<close>: a request either fails or is answered. The
  state is that of the network, the generation counter of the file system, and the open files
  with their read-ahead windows.
\<close>

section \<open>State\<close>

text \<open>
  \<open>FS\<close>: the fields that do not change after \<open>NewWithOptions\<close>. \<open>hc_text\<close> is the text of a JSON
  value, for a \<open>/read\<close> that is answered with one.
\<close>

record 'n httpFS =
  hc_name :: gostring
  hc_readOnly :: bool
  hc_caseInsensitive :: bool
  hc_token :: gostring
  hc_readAhead :: int
  hc_roundtrip :: "request \<Rightarrow> 'n \<Rightarrow> (goerror + response) \<times> 'n"
  hc_text :: "json \<Rightarrow> bytes"

record hfile =
  hf_path :: gostring
  hf_win :: "bytes option"
  hf_winOff :: i64
  hf_winGen :: u64
  hf_winEOF :: bool

record 'n hworld =
  hw_net :: 'n
  hw_gen :: u64
  hw_files :: "nat \<Rightarrow> hfile option"
  hw_next :: nat

section \<open>Requests\<close>

abbreviation DefaultReadAhead :: nat where "DefaultReadAhead \<equiv> 0x100000"

abbreviation no_body :: httpbody where "no_body \<equiv> Octets []"

definition newRequest ::
    "'n httpFS \<Rightarrow> http_method \<Rightarrow> string \<Rightarrow> (gostring \<times> qvalue) list \<Rightarrow> httpbody \<Rightarrow> request" where
  "newRequest C m endpoint q body =
    \<lparr>rq_method = m, rq_endpoint = ascii endpoint, rq_query = q, rq_body = body, rq_token = hc_token C\<rparr>"

definition client_Do ::
    "'n httpFS \<Rightarrow> request \<Rightarrow> 'n hworld \<Rightarrow> (goerror + response) \<times> 'n hworld" where
  "client_Do C r w = (let (res, n) = hc_roundtrip C r (hw_net w) in (res, w\<lparr>hw_net := n\<rparr>))"

text \<open>\<open>endpointURL\<close>: the path, then the extra parameters.\<close>

definition endpoint_query :: "gostring \<Rightarrow> (gostring \<times> qvalue) list \<Rightarrow> (gostring \<times> qvalue) list" where
  "endpoint_query path extra = (ascii ''path'', QText path) # extra"

definition http_get ::
    "'n httpFS \<Rightarrow> string \<Rightarrow> (gostring \<times> qvalue) list \<Rightarrow> 'n hworld \<Rightarrow> (goerror + response) \<times> 'n hworld" where
  "http_get C endpoint q = client_Do C (newRequest C GET endpoint q no_body)"

definition checkResp :: "response \<Rightarrow> bool \<Rightarrow> goerror option" where
  "checkResp resp notEmpty =
    (let st = rs_status resp in
     if st = StatusOK then None
     else if st = StatusNotFound then Some ErrNotExist
     else if st = StatusConflict then Some (if notEmpty then ErrNotEmpty else ErrExist)
     else if st = StatusForbidden \<or> st = StatusMethodNotAllowed \<or> st = StatusNotImplemented
          then Some ErrReadOnly
     else if st = StatusUnauthorized then Some ErrPermission
     else if st = StatusBadRequest then Some ErrInvalid
     else Some OtherError)"

definition http_do ::
    "'n httpFS \<Rightarrow> http_method \<Rightarrow> string \<Rightarrow> (gostring \<times> qvalue) list \<Rightarrow> bool \<Rightarrow> 'n hworld
      \<Rightarrow> goerror option \<times> 'n hworld" where
  "http_do C m endpoint q notEmpty w =
    (let (res, w) = client_Do C (newRequest C m endpoint q no_body) w
     in (case res of Inl e \<Rightarrow> Some e | Inr resp \<Rightarrow> checkResp resp notEmpty, w))"

definition getJSON ::
    "'n httpFS \<Rightarrow> string \<Rightarrow> (gostring \<times> qvalue) list \<Rightarrow> (json \<Rightarrow> 'a option) \<Rightarrow> 'n hworld
      \<Rightarrow> (goerror + 'a) \<times> 'n hworld" where
  "getJSON C endpoint q decode w =
    (let (res, w) = http_get C endpoint q w
     in (case res of
           Inl e \<Rightarrow> Inl e
         | Inr resp \<Rightarrow>
             (case checkResp resp False of
                Some e \<Rightarrow> Inl e
              | None \<Rightarrow>
                  (case rs_body resp of
                     Octets _ \<Rightarrow> Inl OtherError
                   | Json j \<Rightarrow> (case decode j of None \<Rightarrow> Inl OtherError | Some a \<Rightarrow> Inr a))), w))"

definition mutated :: "'n hworld \<Rightarrow> 'n hworld" where
  "mutated w = w\<lparr>hw_gen := hw_gen w + 1\<rparr>"

section \<open>The file system\<close>

text \<open>The observations the server makes of a \<open>remoteInfo\<close>.\<close>

definition remoteInfo :: "fileInfoJSON \<Rightarrow> fileinfo" where
  "remoteInfo i =
    \<lparr>fi_name = ji_name i, fi_size = ji_size i, fi_isDir = ji_isDir i,
     fi_perm = (if ji_isDir i then 0x1FF else if ji_readOnly i then 0x124 else 0x1B6),
     fi_mtime = ji_modTime i\<rparr>"

definition hfs_Stat :: "'n httpFS \<Rightarrow> gostring \<Rightarrow> 'n hworld \<Rightarrow> (goerror + fileinfo) \<times> 'n hworld" where
  "hfs_Stat C path =
    getJSON C ''/stat'' (endpoint_query path []) (\<lambda>j. map_option remoteInfo (decode_info j))"

definition hfs_Truncate :: "'n httpFS \<Rightarrow> gostring \<Rightarrow> i64 \<Rightarrow> 'n hworld \<Rightarrow> goerror option \<times> 'n hworld" where
  "hfs_Truncate C path sz w =
    (let (err, w) = http_do C POST ''/truncate''
           (endpoint_query path [(ascii ''size'', QInt (sint sz))]) False w
     in case err of Some e \<Rightarrow> (Some e, w) | None \<Rightarrow> (None, mutated w))"

definition new_hfile :: "gostring \<Rightarrow> 'n hworld \<Rightarrow> nat \<times> 'n hworld" where
  "new_hfile path w =
    (let h = \<lparr>hf_path = path, hf_win = None, hf_winOff = 0, hf_winGen = 0, hf_winEOF = False\<rparr>
     in (hw_next w, w\<lparr>hw_files := (hw_files w)(hw_next w := Some h), hw_next := hw_next w + 1\<rparr>))"

text \<open>The two ways \<open>OpenFile\<close> makes sure of the file: \<open>/create\<close>, or a \<open>Stat\<close>.\<close>

definition open_exists :: "'n httpFS \<Rightarrow> gostring \<Rightarrow> u32 \<Rightarrow> 'n hworld \<Rightarrow> goerror option \<times> 'n hworld" where
  "open_exists C path flag w =
    (if flag AND O_CREATE \<noteq> 0 then
       let q = (if flag AND O_EXCL \<noteq> 0 then [(ascii ''exclusive'', QText (ascii ''true''))] else []);
           (err, w) = http_do C POST ''/create'' (endpoint_query path q) False w
       in case err of Some e \<Rightarrow> (Some e, w) | None \<Rightarrow> (None, mutated w)
     else
       let (res, w) = hfs_Stat C path w
       in case res of
            Inl e \<Rightarrow> (Some e, w)
          | Inr fi \<Rightarrow> (if fi_isDir fi then Some ErrInvalid else None, w))"

definition hfs_OpenFile ::
    "'n httpFS \<Rightarrow> gostring \<Rightarrow> u32 \<Rightarrow> u32 \<Rightarrow> 'n hworld \<Rightarrow> (goerror + nat) \<times> 'n hworld" where
  "hfs_OpenFile C path flag perm w =
    (if hc_readOnly C \<and> flag AND (O_WRONLY OR O_RDWR OR O_APPEND OR O_CREATE OR O_TRUNC) \<noteq> 0
     then (Inl ErrReadOnly, w)
     else
       let (err, w) = open_exists C path flag w
       in case err of
            Some e \<Rightarrow> (Inl e, w)
          | None \<Rightarrow>
              let (err, w) = (if flag AND O_TRUNC \<noteq> 0 then hfs_Truncate C path 0 w else (None, w))
              in case err of
                   Some e \<Rightarrow> (Inl e, w)
                 | None \<Rightarrow> let (h, w) = new_hfile path w in (Inr h, w))"

definition hfs_Mkdir :: "'n httpFS \<Rightarrow> gostring \<Rightarrow> u32 \<Rightarrow> 'n hworld \<Rightarrow> goerror option \<times> 'n hworld" where
  "hfs_Mkdir C path perm = http_do C POST ''/mkdir'' (endpoint_query path []) False"

definition decode_entries :: "json \<Rightarrow> fileInfoJSON list option" where
  "decode_entries j =
    (case j of
       JObj fs \<Rightarrow>
         (case map_of fs (ascii ''entries'') of
            None \<Rightarrow> Some []
          | Some (JArr js) \<Rightarrow> those (map decode_info js)
          | _ \<Rightarrow> None)
     | _ \<Rightarrow> None)"

definition hfs_ReadDir :: "'n httpFS \<Rightarrow> gostring \<Rightarrow> 'n hworld \<Rightarrow> (goerror + fileinfo list) \<times> 'n hworld" where
  "hfs_ReadDir C path =
    getJSON C ''/list'' (endpoint_query path []) (\<lambda>j. map_option (map remoteInfo) (decode_entries j))"

definition hfs_Rename ::
    "'n httpFS \<Rightarrow> gostring \<Rightarrow> gostring \<Rightarrow> 'n hworld \<Rightarrow> goerror option \<times> 'n hworld" where
  "hfs_Rename C oldPath newPath w =
    (let body = Json (JObj [(ascii ''from'', JText oldPath), (ascii ''to'', JText newPath),
                            (ascii ''replace'', JBool True)]);
         (res, w) = client_Do C (newRequest C POST ''/rename'' [] body) w
     in case res of
          Inl e \<Rightarrow> (Some e, w)
        | Inr resp \<Rightarrow>
            (case checkResp resp False of Some e \<Rightarrow> (Some e, w) | None \<Rightarrow> (None, mutated w)))"

definition hfs_Remove :: "'n httpFS \<Rightarrow> gostring \<Rightarrow> 'n hworld \<Rightarrow> goerror option \<times> 'n hworld" where
  "hfs_Remove C path w =
    (let (err, w) = http_do C DELETE ''/remove'' (endpoint_query path []) True w
     in case err of Some e \<Rightarrow> (Some e, w) | None \<Rightarrow> (None, mutated w))"

definition hfs_Chtimes :: "'n httpFS \<Rightarrow> gostring \<Rightarrow> gotime \<Rightarrow> 'n hworld \<Rightarrow> goerror option \<times> 'n hworld" where
  "hfs_Chtimes C path mtime =
    http_do C POST ''/chtimes'' (endpoint_query path [(ascii ''modTime'', QTime mtime)]) False"

definition decode_statfs :: "json \<Rightarrow> (i64 \<times> i64) option" where
  "decode_statfs j =
    (case j of
       JObj fs \<Rightarrow>
         (case (field_int fs ''totalBytes'', field_int fs ''freeBytes'') of
            (Some t, Some f) \<Rightarrow> Some (of_int t, of_int f)
          | _ \<Rightarrow> None)
     | _ \<Rightarrow> None)"

definition hfs_Statfs :: "'n httpFS \<Rightarrow> 'n hworld \<Rightarrow> (i64 \<times> i64 \<times> goerror option) \<times> 'n hworld" where
  "hfs_Statfs C w =
    (let (res, w) = getJSON C ''/statfs'' [] decode_statfs w
     in (case res of
           Inr (tot, free) \<Rightarrow> (tot, free, None)
         | Inl e \<Rightarrow> if e = ErrNotExist then (2 ^ 40, 2 ^ 39, None) else (0, 0, Some e), w))"

section \<open>Open files\<close>

text \<open>\<open>fetch\<close> of \<open>n\<close> bytes, with \<open>io.ReadFull\<close> on the body.\<close>

definition body_bytes :: "'n httpFS \<Rightarrow> httpbody \<Rightarrow> bytes" where
  "body_bytes C b = (case b of Octets b \<Rightarrow> b | Json j \<Rightarrow> hc_text C j)"

definition fetch ::
    "'n httpFS \<Rightarrow> gostring \<Rightarrow> nat \<Rightarrow> i64 \<Rightarrow> 'n hworld \<Rightarrow> (bytes \<times> goerror option) \<times> 'n hworld" where
  "fetch C path n off w =
    (let (res, w) = http_get C ''/read'' (endpoint_query path
           [(ascii ''offset'', QInt (sint off)), (ascii ''length'', QInt (int n))]) w
     in (case res of
           Inl e \<Rightarrow> ([], Some e)
         | Inr resp \<Rightarrow>
             (case checkResp resp False of
                Some e \<Rightarrow> ([], Some e)
              | None \<Rightarrow>
                  let b = body_bytes C (rs_body resp)
                  in (take n b, if length b < n then Some EOF else None)), w))"

text \<open>The window answers a request that lies within it, or that runs into the end of the file.\<close>

definition from_window :: "hfile \<Rightarrow> u64 \<Rightarrow> nat \<Rightarrow> i64 \<Rightarrow> (bytes \<times> goerror option) option" where
  "from_window f gen n off =
    (case hf_win f of
       None \<Rightarrow> None
     | Some win \<Rightarrow>
         if hf_winGen f = gen \<and> sint (hf_winOff f) \<le> sint off
            \<and> sint off < sint (hf_winOff f + of_nat (length win))
         then
           let b = take n (drop (unat (off - hf_winOff f)) win)
           in if length b = n then Some (b, None)
              else if hf_winEOF f then Some (b, Some EOF)
              else None
         else None)"

definition hf_ReadAt ::
    "'n httpFS \<Rightarrow> nat \<Rightarrow> nat \<Rightarrow> i64 \<Rightarrow> 'n hworld \<Rightarrow> (bytes \<times> goerror option) \<times> 'n hworld" where
  "hf_ReadAt C h n off w =
    (case hw_files w h of
       None \<Rightarrow> (([], Some OtherError), w)
     | Some f \<Rightarrow>
         if hc_readAhead C \<le> 0 \<or> int n \<ge> hc_readAhead C then fetch C (hf_path f) n off w
         else
           let gen = hw_gen w
           in case from_window f gen n off of
                Some r \<Rightarrow> (r, w)
              | None \<Rightarrow>
                  let ((b, err), w) = fetch C (hf_path f) (nat (hc_readAhead C)) off w
                  in if err \<noteq> None \<and> err \<noteq> Some EOF then (([], err), w)
                     else
                       let f = f\<lparr>hf_win := Some b, hf_winOff := off, hf_winGen := gen,
                                 hf_winEOF := (err = Some EOF)\<rparr>;
                           w = w\<lparr>hw_files := (hw_files w)(h := Some f)\<rparr>
                       in ((take n b, if length b < n then Some EOF else None), w))"

definition hf_WriteAt ::
    "'n httpFS \<Rightarrow> nat \<Rightarrow> bytes \<Rightarrow> i64 \<Rightarrow> 'n hworld \<Rightarrow> (nat \<times> goerror option) \<times> 'n hworld" where
  "hf_WriteAt C h p off w =
    (case hw_files w h of
       None \<Rightarrow> ((0, Some OtherError), w)
     | Some f \<Rightarrow>
         let (res, w) = client_Do C (newRequest C PUT ''/write''
               (endpoint_query (hf_path f) [(ascii ''offset'', QInt (sint off))]) (Octets p)) w
         in case res of
              Inl e \<Rightarrow> ((0, Some e), w)
            | Inr resp \<Rightarrow>
                (case checkResp resp False of
                   Some e \<Rightarrow> ((0, Some e), w)
                 | None \<Rightarrow>
                     let w = mutated w;
                         w = w\<lparr>hw_files := (hw_files w)(h := Some (f\<lparr>hf_win := None\<rparr>))\<rparr>
                     in (case rs_body resp of
                           Json (JObj fs) \<Rightarrow>
                             (case field_int fs ''written'' of
                                None \<Rightarrow> ((0, Some OtherError), w)
                              | Some n \<Rightarrow>
                                  ((nat n, if n \<noteq> int (length p) then Some OtherError else None), w))
                         | _ \<Rightarrow> ((0, Some OtherError), w))))"

definition hf_path_of :: "'n hworld \<Rightarrow> nat \<Rightarrow> gostring" where
  "hf_path_of w h = (case hw_files w h of Some f \<Rightarrow> hf_path f | None \<Rightarrow> [])"

definition httpFS_fs :: "'n httpFS \<Rightarrow> 'n hworld fs" where
  "httpFS_fs C =
    \<lparr>fs_Stat = hfs_Stat C, fs_OpenFile = hfs_OpenFile C, fs_Mkdir = hfs_Mkdir C,
     fs_ReadDir = hfs_ReadDir C, fs_Rename = hfs_Rename C, fs_Remove = hfs_Remove C,
     fs_Truncate = hfs_Truncate C, fs_Chtimes = hfs_Chtimes C, fs_Statfs = hfs_Statfs C,
     fs_CaseInsensitive = hc_caseInsensitive C,
     f_ReadAt = hf_ReadAt C, f_WriteAt = hf_WriteAt C, f_Close = (\<lambda>h w. (None, w)),
     f_Truncate = (\<lambda>h n w. hfs_Truncate C (hf_path_of w h) n w), f_Sync = (\<lambda>h w. (None, w)),
     f_Stat = (\<lambda>h w. hfs_Stat C (hf_path_of w h) w)\<rparr>"

section \<open>Connecting\<close>

definition decode_capabilities :: "json \<Rightarrow> (gostring \<times> bool \<times> bool) option" where
  "decode_capabilities j =
    (case j of
       JObj fs \<Rightarrow>
         (case (field_text fs ''name'', field_bool fs ''readOnly'', field_bool fs ''caseInsensitive'') of
            (Some n, Some r, Some c) \<Rightarrow> Some (n, r, c)
          | _ \<Rightarrow> None)
     | _ \<Rightarrow> None)"

text \<open>\<open>NewWithOptions\<close>: the request for the capabilities, and before it the check of the base URL.\<close>

definition hfs_New :: "'n httpFS \<Rightarrow> 'n hworld \<Rightarrow> (goerror + 'n httpFS) \<times> 'n hworld" where
  "hfs_New C w =
    (let C = C\<lparr>hc_name := [], hc_readOnly := False, hc_caseInsensitive := False\<rparr>;
         (res, w) = http_get C ''/capabilities'' [] w
     in (case res of
           Inl e \<Rightarrow> Inl e
         | Inr resp \<Rightarrow>
             if rs_status resp = StatusOK then
               (case rs_body resp of
                  Octets _ \<Rightarrow> Inl OtherError
                | Json j \<Rightarrow>
                    (case decode_capabilities j of
                       None \<Rightarrow> Inl OtherError
                     | Some (n, r, c) \<Rightarrow>
                         Inr (C\<lparr>hc_name := n, hc_readOnly := r, hc_caseInsensitive := c\<rparr>)))
             else if rs_status resp = StatusNotFound then Inr C
             else Inl OtherError, w))"

text \<open>\<open>parse\<close> is \<open>url.Parse\<close> with the scheme and the host of the result, \<open>dial\<close> the client of a base URL.\<close>

definition TrimRight :: "byte \<Rightarrow> gostring \<Rightarrow> gostring" where
  "TrimRight b s = rev (dropWhile (\<lambda>c. c = b) (rev s))"

definition NewWithOptions ::
    "(gostring \<Rightarrow> (gostring \<times> gostring) option) \<Rightarrow> (gostring \<Rightarrow> 'n httpFS) \<Rightarrow> gostring \<Rightarrow> 'n hworld
      \<Rightarrow> (goerror + 'n httpFS) \<times> 'n hworld" where
  "NewWithOptions parse dial baseURL w =
    (case parse baseURL of
       None \<Rightarrow> (Inl OtherError, w)
     | Some (scheme, host) \<Rightarrow>
         if scheme \<noteq> ascii ''http'' \<and> scheme \<noteq> ascii ''https'' \<or> host = [] then (Inl OtherError, w)
         else hfs_New (dial (TrimRight slash baseURL)) w)"

lemma NewWithOptions_Inr:
  "fst (NewWithOptions parse dial baseURL w) = Inr C \<Longrightarrow>
   fst (hfs_New (dial (TrimRight slash baseURL)) w) = Inr C"
  by (auto simp: NewWithOptions_def split: option.splits if_splits)

section \<open>A write whose answer is lost\<close>

text \<open>
  \<open>WriteAt\<close> makes the read-ahead windows stale only when the provider's answer says the write
  succeeded: when the answer is lost every window stays as it was, whatever the provider did.
\<close>

lemma lost_answer_keeps_windows:
  assumes "hf_WriteAt C h p off w = ((0, Some e), w')"
    and "hc_roundtrip C (newRequest C PUT ''/write''
           (endpoint_query (hf_path_of w h) [(ascii ''offset'', QInt (sint off))]) (Octets p)) (hw_net w) = (Inl e, n)"
  shows "hw_gen w' = hw_gen w \<and> hw_files w' = hw_files w"
  using assms by (auto simp: hf_WriteAt_def client_Do_def hf_path_of_def split: option.splits)

end
