(* ===== verification/Vfsprovider.thy ===== *)
theory Vfsprovider
  imports Http
begin

text \<open>
  \<open>internal/vfsprovider/vfsprovider.go\<close>: the reference provider, an HTTP handler over a
  file system. The handlers follow the source; a handler's result is the response it writes and
  the world after it.
\<close>

section \<open>Responses\<close>

abbreviation maxReadChunk :: nat where "maxReadChunk \<equiv> 0x800000"

record providerOptions =
  po_Name :: gostring
  po_ReadOnly :: bool
  po_Token :: gostring

definition writeJSON :: "nat \<Rightarrow> json \<Rightarrow> response" where
  "writeJSON status v = \<lparr>rs_status = status, rs_body = Json v\<rparr>"

text \<open>The text of an error is not modelled; the client shows it only.\<close>

definition writeErr :: "nat \<Rightarrow> response" where
  "writeErr status = writeJSON status (JObj [(ascii ''error'', JText (ascii ''error''))])"

definition provider_fail :: "platform \<Rightarrow> goerror \<Rightarrow> response" where
  "provider_fail P err =
    (if errors_Is P err ErrNotExist then writeErr StatusNotFound
     else if errors_Is P err ErrExist then writeErr StatusConflict
     else if errors_Is P err ErrPermission then writeErr StatusForbidden
     else writeErr StatusInternalServerError)"

definition toJSON :: "fileinfo \<Rightarrow> fileInfoJSON" where
  "toJSON fi =
    \<lparr>ji_name = fi_name fi, ji_size = fi_size fi, ji_modTime = fi_mtime fi, ji_isDir = fi_isDir fi,
     ji_readOnly = (\<not> fi_isDir fi \<and> fi_perm fi AND 0x92 = 0)\<rparr>"

definition jsonOK :: response where
  "jsonOK = writeJSON StatusOK (JObj [(ascii ''ok'', JBool True)])"

section \<open>The handlers\<close>

type_synonym 'w handler = "request \<Rightarrow> 'w \<Rightarrow> response \<times> 'w"

definition writeGate :: "providerOptions \<Rightarrow> 'w handler \<Rightarrow> 'w handler" where
  "writeGate opt h r w = (if po_ReadOnly opt then (writeErr StatusForbidden, w) else h r w)"

definition p_capabilities :: "providerOptions \<Rightarrow> 'w fs \<Rightarrow> 'w handler" where
  "p_capabilities opt F r w =
    (writeJSON StatusOK (JObj
       [(ascii ''name'', JText (po_Name opt)), (ascii ''readOnly'', JBool (po_ReadOnly opt)),
        (ascii ''caseInsensitive'', JBool (fs_CaseInsensitive F))]), w)"

definition p_stat :: "platform \<Rightarrow> 'w fs \<Rightarrow> 'w handler" where
  "p_stat P F r w =
    (let (res, w) = fs_Stat F (query_text (rq_query r) ''path'') w
     in (case res of
           Inl err \<Rightarrow> provider_fail P err
         | Inr fi \<Rightarrow> writeJSON StatusOK (encode_info (toJSON fi)), w))"

definition p_list :: "platform \<Rightarrow> 'w fs \<Rightarrow> 'w handler" where
  "p_list P F r w =
    (let (res, w) = fs_ReadDir F (query_text (rq_query r) ''path'') w
     in (case res of
           Inl err \<Rightarrow> provider_fail P err
         | Inr infos \<Rightarrow>
             writeJSON StatusOK (JObj [(ascii ''entries'', JArr (map (encode_info \<circ> toJSON) infos))]), w))"

text \<open>\<open>ReadAt\<close> fills the front of the buffer; \<open>defer h.Close()\<close> runs when the handler returns.\<close>

definition p_read :: "platform \<Rightarrow> 'w fs \<Rightarrow> 'w handler" where
  "p_read P F r w =
    (let q = rq_query r
     in case (query_int q ''offset'', query_int q ''length'') of
          (Some offset, Some len) \<Rightarrow>
            if offset < 0 \<or> len < 0 then (writeErr StatusBadRequest, w)
            else
              let len = min (nat len) maxReadChunk;
                  (res, w) = fs_OpenFile F (query_text q ''path'') O_RDONLY 0 w
              in (case res of
                    Inl err \<Rightarrow> (provider_fail P err, w)
                  | Inr h \<Rightarrow>
                      let ((buf, err), w) = f_ReadAt F h len (of_int offset) w;
                          (_, w) = f_Close F h w
                      in (if err = None \<or> err = Some EOF
                          then \<lparr>rs_status = StatusOK, rs_body = Octets buf\<rparr>
                          else provider_fail P (the err), w))
        | _ \<Rightarrow> (writeErr StatusBadRequest, w))"

definition p_statfs :: "platform \<Rightarrow> 'w fs \<Rightarrow> 'w handler" where
  "p_statfs P F r w =
    (let ((tot, free, err), w) = fs_Statfs F w
     in (case err of
           Some e \<Rightarrow> provider_fail P e
         | None \<Rightarrow> writeJSON StatusOK (JObj
             [(ascii ''totalBytes'', JNum (sint tot)), (ascii ''freeBytes'', JNum (sint free))]), w))"

definition p_create :: "platform \<Rightarrow> 'w fs \<Rightarrow> 'w handler" where
  "p_create P F r w =
    (let flag = O_WRONLY OR O_CREATE;
         flag = (if query_text (rq_query r) ''exclusive'' = ascii ''true'' then flag OR O_EXCL else flag);
         (res, w) = fs_OpenFile F (query_text (rq_query r) ''path'') flag 0x1B6 w
     in case res of
          Inl err \<Rightarrow> (provider_fail P err, w)
        | Inr h \<Rightarrow> (jsonOK, snd (f_Close F h w)))"

text \<open>The body is read up to one byte more than \<open>maxReadChunk\<close>; a read error of it is not modelled.\<close>

definition p_write :: "platform \<Rightarrow> 'w fs \<Rightarrow> 'w handler" where
  "p_write P F r w =
    (case query_int (rq_query r) ''offset'' of
       None \<Rightarrow> (writeErr StatusBadRequest, w)
     | Some offset \<Rightarrow>
         if offset < 0 then (writeErr StatusBadRequest, w)
         else
           let data = take (maxReadChunk + 1) (case rq_body r of Octets b \<Rightarrow> b | Json _ \<Rightarrow> [])
           in if length data > maxReadChunk then (writeErr StatusBadRequest, w)
              else
                let (res, w) = fs_OpenFile F (query_text (rq_query r) ''path'') O_RDWR 0x1B6 w
                in (case res of
                      Inl err \<Rightarrow> (provider_fail P err, w)
                    | Inr h \<Rightarrow>
                        let ((n, err), w) = f_WriteAt F h data (of_int offset) w;
                            (_, w) = f_Close F h w
                        in (case err of
                              Some e \<Rightarrow> provider_fail P e
                            | None \<Rightarrow> writeJSON StatusOK (JObj [(ascii ''written'', JNum (int n))]), w)))"

definition answer :: "platform \<Rightarrow> goerror option \<times> 'w \<Rightarrow> response \<times> 'w" where
  "answer P = map_prod (\<lambda>err. case err of Some e \<Rightarrow> provider_fail P e | None \<Rightarrow> jsonOK) id"

definition p_mkdir :: "platform \<Rightarrow> 'w fs \<Rightarrow> 'w handler" where
  "p_mkdir P F r w = answer P (fs_Mkdir F (query_text (rq_query r) ''path'') 0x1FF w)"

definition p_rename :: "platform \<Rightarrow> 'w fs \<Rightarrow> 'w handler" where
  "p_rename P F r w =
    (case rq_body r of
       Json (JObj fs) \<Rightarrow>
         (case (field_text fs ''from'', field_text fs ''to'', field_bool fs ''replace'') of
            (Some src, Some dst, Some replace) \<Rightarrow>
              if replace then answer P (fs_Rename F src dst w)
              else
                let (res, w) = fs_Stat F dst w
                in (case res of
                      Inr _ \<Rightarrow> (writeErr StatusConflict, w)
                    | Inl _ \<Rightarrow> answer P (fs_Rename F src dst w))
          | _ \<Rightarrow> (writeErr StatusBadRequest, w))
     | _ \<Rightarrow> (writeErr StatusBadRequest, w))"

definition p_remove :: "platform \<Rightarrow> 'w fs \<Rightarrow> 'w handler" where
  "p_remove P F r w =
    (let path = query_text (rq_query r) ''path'';
         (err, w) = fs_Remove F path w
     in case err of
          None \<Rightarrow> (jsonOK, w)
        | Some e \<Rightarrow>
            let (st, w) = fs_Stat F path w
            in (case st of
                  Inr fi \<Rightarrow>
                    if fi_isDir fi then
                      let (entries, w) = fs_ReadDir F path w
                      in ((case entries of
                             Inr es \<Rightarrow> if es \<noteq> [] then writeErr StatusConflict else provider_fail P e
                           | Inl _ \<Rightarrow> provider_fail P e), w)
                    else (provider_fail P e, w)
                | Inl _ \<Rightarrow> (provider_fail P e, w)))"

definition p_truncate :: "platform \<Rightarrow> 'w fs \<Rightarrow> 'w handler" where
  "p_truncate P F r w =
    (case query_int (rq_query r) ''size'' of
       None \<Rightarrow> (writeErr StatusBadRequest, w)
     | Some sz \<Rightarrow>
         if sz < 0 then (writeErr StatusBadRequest, w)
         else answer P (fs_Truncate F (query_text (rq_query r) ''path'') (of_int sz) w))"

definition p_chtimes :: "platform \<Rightarrow> 'w fs \<Rightarrow> 'w handler" where
  "p_chtimes P F r w =
    (case query_time (rq_query r) ''modTime'' of
       None \<Rightarrow> (writeErr StatusBadRequest, w)
     | Some t \<Rightarrow> answer P (fs_Chtimes F (query_text (rq_query r) ''path'') t w))"

section \<open>The mux\<close>

text \<open>
  \<open>http.ServeMux\<close> with method patterns: a known path under another method is 405, an unknown
  path 404.
\<close>

definition provider_routes ::
    "platform \<Rightarrow> providerOptions \<Rightarrow> 'w fs \<Rightarrow> (string \<times> http_method \<times> 'w handler) list" where
  "provider_routes P opt F =
    [(''/capabilities'', GET, p_capabilities opt F),
     (''/stat'', GET, p_stat P F),
     (''/list'', GET, p_list P F),
     (''/read'', GET, p_read P F),
     (''/statfs'', GET, p_statfs P F),
     (''/create'', POST, writeGate opt (p_create P F)),
     (''/write'', PUT, writeGate opt (p_write P F)),
     (''/mkdir'', POST, writeGate opt (p_mkdir P F)),
     (''/rename'', POST, writeGate opt (p_rename P F)),
     (''/remove'', DELETE, writeGate opt (p_remove P F)),
     (''/truncate'', POST, writeGate opt (p_truncate P F)),
     (''/chtimes'', POST, writeGate opt (p_chtimes P F))]"

definition ServeMux :: "(string \<times> http_method \<times> 'w handler) list \<Rightarrow> 'w handler" where
  "ServeMux routes r w =
    (case List.find (\<lambda>(p, _, _). ascii p = rq_endpoint r) routes of
       None \<Rightarrow> (\<lparr>rs_status = StatusNotFound, rs_body = Octets (ascii ''404 page not found'')\<rparr>, w)
     | Some (_, m, h) \<Rightarrow>
         if m = rq_method r then h r w
         else (\<lparr>rs_status = StatusMethodNotAllowed, rs_body = Octets (ascii ''Method Not Allowed'')\<rparr>, w))"

definition provider_Handler :: "platform \<Rightarrow> providerOptions \<Rightarrow> 'w fs \<Rightarrow> 'w handler" where
  "provider_Handler P opt F r w =
    (if po_Token opt \<noteq> [] \<and> rq_token r \<noteq> po_Token opt then (writeErr StatusUnauthorized, w)
     else ServeMux (provider_routes P opt F) r w)"

text \<open>A refused token reaches no handler.\<close>

lemma provider_token_refused:
  "po_Token opt \<noteq> [] \<Longrightarrow> rq_token r \<noteq> po_Token opt \<Longrightarrow>
   provider_Handler P opt F r w = (writeErr StatusUnauthorized, w)"
  by (simp add: provider_Handler_def)

lemma provider_mux:
  "po_Token opt = [] \<or> rq_token r = po_Token opt \<Longrightarrow>
   provider_Handler P opt F r w = ServeMux (provider_routes P opt F) r w"
  by (auto simp: provider_Handler_def)

end
