(* ===== verification/Remote.thy ===== *)
theory Remote
  imports Httpvfs Vfsprovider Connection
begin

text \<open>
  A share served through a provider: the client of \<open>Httpvfs\<close> joined to the handler of
  \<open>Vfsprovider\<close>. The lemmas show that each operation does to the provider's file system what the
  same operation does to it directly, up to the translation of errors and modes; that a window of
  read-ahead is never stale; and that looking through the client only looks at the provider.
\<close>

section \<open>The client joined to a provider\<close>

definition via :: "platform \<Rightarrow> providerOptions \<Rightarrow> 'w fs \<Rightarrow> request \<Rightarrow> 'w \<Rightarrow> (goerror + response) \<times> 'w" where
  "via P opt F r w = map_prod Inr id (provider_Handler P opt F r w)"

text \<open>The provider takes the client's token and writes.\<close>

definition joined :: "platform \<Rightarrow> providerOptions \<Rightarrow> 'w fs \<Rightarrow> 'w httpFS \<Rightarrow> bool" where
  "joined P opt F C \<longleftrightarrow> hc_roundtrip C = via P opt F \<and> \<not> po_ReadOnly opt \<and>
     (po_Token opt = [] \<or> hc_token C = po_Token opt)"

definition remote_error :: "platform \<Rightarrow> goerror \<Rightarrow> goerror" where
  "remote_error P e =
    (if errors_Is P e ErrNotExist then ErrNotExist
     else if errors_Is P e ErrExist then ErrExist
     else if errors_Is P e ErrPermission then ErrReadOnly
     else OtherError)"

definition remote_view :: "fileinfo \<Rightarrow> fileinfo" where
  "remote_view fi = remoteInfo (toJSON fi)"

text \<open>A result of the client, with the provider's world.\<close>

definition seen :: "'a \<times> 'n hworld \<Rightarrow> 'a \<times> 'n" where
  "seen = map_prod id hw_net"

lemma seen_simps [simp]: "seen (a, w) = (a, hw_net w)"
  by (simp add: seen_def)

lemma net_simps [simp]:
  "hw_net (w\<lparr>hw_net := n\<rparr>) = n" "hw_net (mutated w) = hw_net w"
  by (simp_all add: mutated_def)

lemma checkResp_simps [simp]:
  "checkResp (provider_fail P e) False = Some (remote_error P e)"
  "checkResp (writeJSON StatusOK j) b = None" "checkResp jsonOK b = None"
  "rs_body (writeJSON st j) = Json j"
  "checkResp \<lparr>rs_status = StatusOK, rs_body = d\<rparr> b = None"
  by (simp_all add: checkResp_def provider_fail_def writeErr_def writeJSON_def jsonOK_def remote_error_def)

text \<open>The routes, one per endpoint.\<close>

lemma joined_mux:
  assumes "joined P opt F C"
  shows "client_Do C (newRequest C m e q b) w =
    map_prod Inr (\<lambda>n. w\<lparr>hw_net := n\<rparr>) (ServeMux (provider_routes P opt F) (newRequest C m e q b) (hw_net w))"
proof -
  have "hc_roundtrip C = via P opt F" and t: "po_Token opt = [] \<or> rq_token (newRequest C m e q b) = po_Token opt"
    using assms by (auto simp: joined_def newRequest_def)
  then show ?thesis
    by (simp add: client_Do_def via_def provider_mux [OF t] split_beta prod_eq_iff)
qed

lemmas mux_defs = ServeMux_def provider_routes_def writeGate_def

lemma client_routes:
  assumes "joined P opt F C"
  shows "client_Do C (newRequest C GET ''/stat'' q b) w = map_prod Inr (\<lambda>n. w\<lparr>hw_net := n\<rparr>) (p_stat P F (newRequest C GET ''/stat'' q b) (hw_net w))"
    and "client_Do C (newRequest C GET ''/list'' q b) w = map_prod Inr (\<lambda>n. w\<lparr>hw_net := n\<rparr>) (p_list P F (newRequest C GET ''/list'' q b) (hw_net w))"
    and "client_Do C (newRequest C GET ''/read'' q b) w = map_prod Inr (\<lambda>n. w\<lparr>hw_net := n\<rparr>) (p_read P F (newRequest C GET ''/read'' q b) (hw_net w))"
    and "client_Do C (newRequest C GET ''/statfs'' q b) w = map_prod Inr (\<lambda>n. w\<lparr>hw_net := n\<rparr>) (p_statfs P F (newRequest C GET ''/statfs'' q b) (hw_net w))"
    and "client_Do C (newRequest C POST ''/create'' q b) w = map_prod Inr (\<lambda>n. w\<lparr>hw_net := n\<rparr>) (p_create P F (newRequest C POST ''/create'' q b) (hw_net w))"
    and "client_Do C (newRequest C PUT ''/write'' q b) w = map_prod Inr (\<lambda>n. w\<lparr>hw_net := n\<rparr>) (p_write P F (newRequest C PUT ''/write'' q b) (hw_net w))"
    and "client_Do C (newRequest C POST ''/mkdir'' q b) w = map_prod Inr (\<lambda>n. w\<lparr>hw_net := n\<rparr>) (p_mkdir P F (newRequest C POST ''/mkdir'' q b) (hw_net w))"
    and "client_Do C (newRequest C POST ''/rename'' q b) w = map_prod Inr (\<lambda>n. w\<lparr>hw_net := n\<rparr>) (p_rename P F (newRequest C POST ''/rename'' q b) (hw_net w))"
    and "client_Do C (newRequest C DELETE ''/remove'' q b) w = map_prod Inr (\<lambda>n. w\<lparr>hw_net := n\<rparr>) (p_remove P F (newRequest C DELETE ''/remove'' q b) (hw_net w))"
    and "client_Do C (newRequest C POST ''/truncate'' q b) w = map_prod Inr (\<lambda>n. w\<lparr>hw_net := n\<rparr>) (p_truncate P F (newRequest C POST ''/truncate'' q b) (hw_net w))"
    and "client_Do C (newRequest C POST ''/chtimes'' q b) w = map_prod Inr (\<lambda>n. w\<lparr>hw_net := n\<rparr>) (p_chtimes P F (newRequest C POST ''/chtimes'' q b) (hw_net w))"
  using assms unfolding joined_mux [OF assms]
  by (simp_all add: mux_defs newRequest_def joined_def)

lemmas query_defs = query_text_def query_int_def query_time_def endpoint_query_def

lemma sint_i64: "- (2 ^ 63) \<le> sint (x :: i64)" "sint (x :: i64) < 2 ^ 63"
  using sint_range_size [of x] by (simp_all add: word_size)

lemma newRequest_simps [simp]:
  "rq_query (newRequest C m e q b) = q" "rq_body (newRequest C m e q b) = b"
  by (simp_all add: newRequest_def)

section \<open>Operation by operation\<close>

lemma remote_Stat:
  assumes "joined P opt F C"
  shows "hfs_Stat C p w = (let (res, n) = fs_Stat F p (hw_net w)
    in (map_sum (remote_error P) remote_view res, w\<lparr>hw_net := n\<rparr>))"
  by (simp add: hfs_Stat_def getJSON_def http_get_def client_routes [OF assms] query_defs p_stat_def Let_def remote_view_def
      split: prod.split sum.split)

lemma those_map_Some [simp]: "those (map (\<lambda>x. Some (f x)) xs) = Some (map f xs)"
  by (induction xs) auto

lemma remote_ReadDir:
  assumes "joined P opt F C"
  shows "hfs_ReadDir C p w = (let (res, n) = fs_ReadDir F p (hw_net w)
    in (map_sum (remote_error P) (map remote_view) res, w\<lparr>hw_net := n\<rparr>))"
  by (simp add: hfs_ReadDir_def getJSON_def http_get_def client_routes [OF assms] query_defs p_list_def Let_def remote_view_def
      decode_entries_def comp_def split: prod.split sum.split)

lemma answer_value: "answer P (e, n) = ((case e of Some e \<Rightarrow> provider_fail P e | None \<Rightarrow> jsonOK), n)"
  by (simp add: answer_def)

lemma remote_Mkdir:
  assumes "joined P opt F C"
  shows "hfs_Mkdir C p perm w = (let (err, n) = fs_Mkdir F p 0x1FF (hw_net w)
    in (map_option (remote_error P) err, w\<lparr>hw_net := n\<rparr>))"
  by (simp add: hfs_Mkdir_def http_do_def client_routes [OF assms] query_defs p_mkdir_def answer_def Let_def
      split: prod.split option.split)

lemma remote_Rename:
  assumes "joined P opt F C"
  shows "hfs_Rename C p p' w = (let (err, n) = fs_Rename F p p' (hw_net w); w = w\<lparr>hw_net := n\<rparr>
    in (map_option (remote_error P) err, if err = None then mutated w else w))"
  by (simp add: hfs_Rename_def client_routes [OF assms] query_defs p_rename_def answer_def Let_def field_text_def field_bool_def
      split: prod.split option.split)

lemma remote_Truncate:
  assumes "joined P opt F C" and "0 \<le> sint sz"
  shows "hfs_Truncate C p sz w = (let (err, n) = fs_Truncate F p sz (hw_net w); w = w\<lparr>hw_net := n\<rparr>
    in (map_option (remote_error P) err, if err = None then mutated w else w))"
  using assms(2) sint_i64 [of sz]
  by (simp add: hfs_Truncate_def http_do_def client_routes [OF assms(1)] query_defs p_truncate_def answer_def Let_def
      split: prod.split option.split)

lemma remote_Chtimes:
  assumes "joined P opt F C"
  shows "hfs_Chtimes C p t w = (let (err, n) = fs_Chtimes F p t (hw_net w)
    in (map_option (remote_error P) err, w\<lparr>hw_net := n\<rparr>))"
  by (simp add: hfs_Chtimes_def http_do_def client_routes [OF assms] query_defs p_chtimes_def answer_def Let_def
      split: prod.split option.split)


lemma remote_Statfs:
  assumes "joined P opt F C"
  shows "hfs_Statfs C w = (let ((tot, free, err), n) = fs_Statfs F (hw_net w)
    in ((case err of
           None \<Rightarrow> (tot, free, None)
         | Some e \<Rightarrow> if remote_error P e = ErrNotExist then (2 ^ 40, 2 ^ 39, None)
                    else (0, 0, Some (remote_error P e))), w\<lparr>hw_net := n\<rparr>))"
proof -
  obtain tot free err n where e: "fs_Statfs F (hw_net w) = ((tot, free, err), n)" by (metis surj_pair)
  show ?thesis
    using sint_i64 [of tot] sint_i64 [of free]
    by (simp add: hfs_Statfs_def getJSON_def http_get_def client_routes [OF assms] p_statfs_def Let_def e
        decode_statfs_def field_int_def split: option.split)
qed

lemma remote_fetch:
  assumes "joined P opt F C" and "k \<le> maxReadChunk" and "0 \<le> sint off"
  shows "fetch C p k off w =
    (case fs_OpenFile F p O_RDONLY 0 (hw_net w) of
       (Inl e, n) \<Rightarrow> (([], Some (remote_error P e)), w\<lparr>hw_net := n\<rparr>)
     | (Inr h, n) \<Rightarrow>
         let ((buf, err), n) = f_ReadAt F h k off n; n = snd (f_Close F h n)
         in (if err = None \<or> err = Some EOF then (take k buf, if length buf < k then Some EOF else None)
             else ([], Some (remote_error P (the err))), w\<lparr>hw_net := n\<rparr>))"
proof -
  have "int k < 2 ^ 63" using assms(2) by simp
  moreover have "min k maxReadChunk = k" using assms(2) by simp
  ultimately show ?thesis
    using assms(3) sint_i64 [of off]
    by (simp add: fetch_def http_get_def client_routes [OF assms(1)] query_defs p_read_def Let_def body_bytes_def
        split: prod.split sum.split)
qed

text \<open>\<open>/remove\<close> looks at a directory that could not be removed, to tell a directory that is not empty.\<close>

definition remove_error :: "platform \<Rightarrow> 'n fs \<Rightarrow> gostring \<Rightarrow> goerror \<Rightarrow> 'n \<Rightarrow> goerror \<times> 'n" where
  "remove_error P F p e n =
    (let e' = (if errors_Is P e ErrExist \<and> \<not> errors_Is P e ErrNotExist then ErrNotEmpty else remote_error P e);
         (st, n) = fs_Stat F p n
     in case st of
          Inl _ \<Rightarrow> (e', n)
        | Inr fi \<Rightarrow>
            if fi_isDir fi then
              let (es, n) = fs_ReadDir F p n
              in (case es of Inr (_ # _) \<Rightarrow> ErrNotEmpty | _ \<Rightarrow> e', n)
            else (e', n))"

lemma checkResp_remove [simp]:
  "checkResp (provider_fail P e) True =
    Some (if errors_Is P e ErrExist \<and> \<not> errors_Is P e ErrNotExist then ErrNotEmpty else remote_error P e)"
  "checkResp (writeErr StatusConflict) True = Some ErrNotEmpty"
  by (simp_all add: checkResp_def provider_fail_def writeErr_def writeJSON_def remote_error_def)

lemma remote_Remove:
  assumes "joined P opt F C"
  shows "hfs_Remove C p w =
    (case fs_Remove F p (hw_net w) of
       (None, n) \<Rightarrow> (None, mutated (w\<lparr>hw_net := n\<rparr>))
     | (Some e, n) \<Rightarrow> let (e, n) = remove_error P F p e n in (Some e, w\<lparr>hw_net := n\<rparr>))"
proof -
  obtain r n where r: "fs_Remove F p (hw_net w) = (r, n)" by (metis surj_pair)
  obtain st n2 where st: "fs_Stat F p n = (st, n2)" by (metis surj_pair)
  obtain es n3 where es: "fs_ReadDir F p n2 = (es, n3)" by (metis surj_pair)
  note d = hfs_Remove_def http_do_def client_routes [OF assms] query_defs p_remove_def Let_def remove_error_def
  show ?thesis
    by (cases r; cases st; cases es rule: sum.exhaust)
      (auto simp: d r st es neq_Nil_conv split: list.split)
qed

definition write_result :: "platform \<Rightarrow> 'n fs \<Rightarrow> gostring \<Rightarrow> bytes \<Rightarrow> i64 \<Rightarrow> 'n \<Rightarrow> (goerror + nat) \<times> 'n" where
  "write_result P F p b off n =
    (case fs_OpenFile F p O_RDWR 0x1B6 n of
       (Inl e, n) \<Rightarrow> (Inl e, n)
     | (Inr h, n) \<Rightarrow>
         let ((k, err), n) = f_WriteAt F h b off n; n = snd (f_Close F h n)
         in (case err of Some e \<Rightarrow> Inl e | None \<Rightarrow> Inr k, n))"

lemma remote_WriteAt:
  assumes "joined P opt F C" and "hw_files w h = Some f" and "length b \<le> maxReadChunk" and "0 \<le> sint off"
    and "write_result P F (hf_path f) b off (hw_net w) = (r, n)" and "\<And>k. r = Inr k \<Longrightarrow> k \<le> length b"
  shows "hf_WriteAt C h b off w =
    (case r of
       Inl e \<Rightarrow> ((0, Some (remote_error P e)), w\<lparr>hw_net := n\<rparr>)
     | Inr k \<Rightarrow> ((k, if k = length b then None else Some OtherError),
         mutated (w\<lparr>hw_net := n, hw_files := (hw_files w)(h := Some (f\<lparr>hf_win := None\<rparr>))\<rparr>)))"
proof -
  have t: "take (maxReadChunk + 1) b = b" "\<not> maxReadChunk < length b" using assms(3) by simp_all
  have "int k < 2 ^ 63" if "r = Inr k" for k
    using assms(3) assms(6) [OF that] by simp
  then show ?thesis
    using assms(2,4,5) t sint_i64 [of off]
    by (auto simp: hf_WriteAt_def client_routes [OF assms(1)] query_defs p_write_def Let_def
        write_result_def field_int_def mutated_def split: prod.splits sum.splits option.splits)
qed

lemma remote_OpenFile_plain:
  assumes "joined P opt F C" and "flag AND O_CREATE = 0" and "flag AND O_TRUNC = 0"
    and "\<not> hc_readOnly C \<or> flag AND (O_WRONLY OR O_RDWR OR O_APPEND OR O_CREATE OR O_TRUNC) = 0"
  shows "hfs_OpenFile C p flag perm w =
    (case fs_Stat F p (hw_net w) of
       (Inl e, n) \<Rightarrow> (Inl (remote_error P e), w\<lparr>hw_net := n\<rparr>)
     | (Inr fi, n) \<Rightarrow>
         if fi_isDir fi then (Inl ErrInvalid, w\<lparr>hw_net := n\<rparr>)
         else map_prod Inr id (new_hfile p (w\<lparr>hw_net := n\<rparr>)))"
  using assms(2-4)
  by (auto simp: hfs_OpenFile_def open_exists_def remote_Stat [OF assms(1)] remote_view_def remoteInfo_def toJSON_def
      split: prod.split sum.split)

section \<open>Looking through a provider\<close>

text \<open>A property that the provider's file system keeps when it is looked at, seen by the client.\<close>

definition behind :: "('n \<Rightarrow> bool) \<Rightarrow> 'n hworld \<Rightarrow> bool" where
  "behind J w \<longleftrightarrow> J (hw_net w)"

locale provided = query_backend F J for F :: "'n fs" and J +
  fixes P :: platform and opt :: providerOptions and C :: "'n httpFS"
  assumes connected: "hc_roundtrip C = via P opt F"
begin

lemmas look_defs = p_capabilities_def p_stat_def p_list_def p_read_def p_statfs_def
lemmas looks = q_Stat q_ReadDir q_OpenFile q_ReadAt q_Close q_Statfs

lemma GET_keeps: "J n \<Longrightarrow> rq_method r = GET \<Longrightarrow> J (snd (provider_Handler P opt F r n))"
  by (auto simp: provider_Handler_def mux_defs look_defs Let_def split_beta looks split: option.split sum.split)

lemma refused_keeps: "J n \<Longrightarrow> po_ReadOnly opt \<Longrightarrow> J (snd (provider_Handler P opt F r n))"
  by (auto simp: provider_Handler_def mux_defs look_defs Let_def split_beta looks split: option.split sum.split)

lemma handler_keeps:
  "J n \<Longrightarrow> rq_method r = GET \<or> po_ReadOnly opt \<Longrightarrow> J (snd (provider_Handler P opt F r n))"
  using GET_keeps refused_keeps by blast

lemma Do_keeps:
  "behind J w \<Longrightarrow> rq_method r = GET \<or> po_ReadOnly opt \<Longrightarrow> behind J (snd (client_Do C r w))"
  by (simp add: behind_def client_Do_def connected via_def handler_keeps Let_def split_beta)

lemma newRequest_method [simp]: "rq_method (newRequest C m e q b) = m"
  by (simp add: newRequest_def)

lemma get_keeps: "behind J w \<Longrightarrow> behind J (snd (http_get C e q w))"
  by (simp add: http_get_def Do_keeps)

lemma getJSON_keeps: "behind J w \<Longrightarrow> behind J (snd (getJSON C e q d w))"
  by (simp add: getJSON_def Let_def split_beta get_keeps)

lemma fetch_keeps: "behind J w \<Longrightarrow> behind J (snd (fetch C p k off w))"
  by (simp add: fetch_def Let_def split_beta get_keeps)

lemma behind_simps [simp]:
  "behind J (w\<lparr>hw_files := fs\<rparr>) = behind J w" "behind J (w\<lparr>hw_next := h\<rparr>) = behind J w"
  "behind J (mutated w) = behind J w" "behind J (snd (new_hfile p w)) = behind J w"
  by (simp_all add: behind_def mutated_def new_hfile_def Let_def)

lemma Stat_keeps: "behind J w \<Longrightarrow> behind J (snd (hfs_Stat C p w))"
  by (simp add: hfs_Stat_def getJSON_keeps)

lemma open_keeps: "behind J w \<Longrightarrow> behind J (snd (hfs_OpenFile C p O_RDONLY perm w))"
  by (simp add: hfs_OpenFile_def open_exists_def Let_def split_beta Stat_keeps split: option.split sum.split)

lemma ReadAt_keeps: "behind J w \<Longrightarrow> behind J (snd (hf_ReadAt C h k off w))"
  by (auto simp: hf_ReadAt_def Let_def split_beta fetch_keeps split: option.split)

lemma Statfs_keeps: "behind J w \<Longrightarrow> behind J (snd (hfs_Statfs C w))"
  by (simp add: hfs_Statfs_def Let_def split_beta getJSON_keeps)

end

sublocale provided \<subseteq> remote: query_backend "httpFS_fs C" "behind J"
  by unfold_locales
    (simp_all add: httpFS_fs_def Stat_keeps open_keeps ReadAt_keeps Statfs_keeps hfs_ReadDir_def getJSON_keeps)

text \<open>A provider that was started read-only refuses every request but the GETs, and so keeps it whatever
  the client does.\<close>

locale provided_read_only = provided +
  assumes refuses: "po_ReadOnly opt"
begin

lemma do_keeps: "behind J w \<Longrightarrow> behind J (snd (http_do C m e q ne w))"
  by (simp add: http_do_def Let_def split_beta Do_keeps refuses)

lemma Truncate_keeps: "behind J w \<Longrightarrow> behind J (snd (hfs_Truncate C p n w))"
  by (simp add: hfs_Truncate_def Let_def split_beta do_keeps split: option.split)

lemma open_exists_keeps: "behind J w \<Longrightarrow> behind J (snd (open_exists C p flag w))"
  by (simp add: open_exists_def Let_def split_beta do_keeps Stat_keeps split: option.split sum.split)

lemma open_any_keeps: "behind J w \<Longrightarrow> behind J (snd (hfs_OpenFile C p flag perm w))"
  by (simp add: hfs_OpenFile_def Let_def split_beta open_exists_keeps Truncate_keeps split: option.split)

lemma Rename_keeps: "behind J w \<Longrightarrow> behind J (snd (hfs_Rename C p p' w))"
  by (simp add: hfs_Rename_def Let_def split_beta Do_keeps refuses split: option.split sum.split)

lemma Remove_keeps: "behind J w \<Longrightarrow> behind J (snd (hfs_Remove C p w))"
  by (simp add: hfs_Remove_def Let_def split_beta do_keeps split: option.split)

lemma WriteAt_keeps: "behind J w \<Longrightarrow> behind J (snd (hf_WriteAt C h b off w))"
  by (simp add: hf_WriteAt_def Let_def split_beta Do_keeps refuses
      split: option.split sum.split httpbody.split json.split)

end

sublocale provided_read_only \<subseteq> remote_any: any_backend "httpFS_fs C" "behind J"
  by unfold_locales
    (simp_all add: httpFS_fs_def open_any_keeps Rename_keeps Remove_keeps WriteAt_keeps Truncate_keeps
      do_keeps hfs_Mkdir_def hfs_Chtimes_def)

context provided begin

lemma keeps_behind: "query_backend (httpFS_fs C) (behind J)"
  by (rule remote.query_backend_axioms)

end

context provided_read_only begin

lemma keeps_behind_any: "any_backend (httpFS_fs C) (behind J)"
  by (rule remote_any.any_backend_axioms)

end

section \<open>A local directory behind a provider\<close>

text \<open>A client over the network of one provider, here with a local directory.\<close>

definition served_by :: "platform \<Rightarrow> providerOptions \<Rightarrow> 'n fs \<Rightarrow> 'n httpFS \<Rightarrow> 'n httpFS" where
  "served_by P opt F C = C\<lparr>hc_roundtrip := via P opt F\<rparr>"

interpretation lfs_provided: provided "localFS goos st root" "same_tree T" P opt
    "served_by P opt (localFS goos st root) C" for goos st root T P opt C
  by unfold_locales (simp add: served_by_def)

definition readonly_options :: "gostring \<Rightarrow> gostring \<Rightarrow> providerOptions" where
  "readonly_options name tok = \<lparr>po_Name = name, po_ReadOnly = True, po_Token = tok\<rparr>"

interpretation lfs_provided_ro: provided_read_only "localFS goos st root" "same_tree T" P
    "readonly_options name tok" "served_by P (readonly_options name tok) (localFS goos st root) C"
  for goos st root T P name tok C
  by unfold_locales (simp_all add: served_by_def readonly_options_def)

section \<open>Properties\<close>

text \<open>
  C27. A share behind a provider does to the provider's file system what the operation itself does,
  with the same results up to the translation of errors (\<open>remote_error\<close>) and of file modes
  (\<open>remote_view\<close>): the same listing, sizes, names and times come back, the provider's world is
  the one the operation leaves, and the operations that change contents mark the read-ahead
  windows stale exactly when they succeed.
\<close>

theorem remote_share_faithful:
  assumes "joined P opt F C" and "0 \<le> sint sz"
  shows "hfs_Stat C p w = (let (res, n) = fs_Stat F p (hw_net w)
      in (map_sum (remote_error P) remote_view res, w\<lparr>hw_net := n\<rparr>))
    \<and> hfs_ReadDir C p w = (let (res, n) = fs_ReadDir F p (hw_net w)
      in (map_sum (remote_error P) (map remote_view) res, w\<lparr>hw_net := n\<rparr>))
    \<and> hfs_Mkdir C p perm w = (let (err, n) = fs_Mkdir F p 0x1FF (hw_net w)
      in (map_option (remote_error P) err, w\<lparr>hw_net := n\<rparr>))
    \<and> hfs_Rename C p p' w = (let (err, n) = fs_Rename F p p' (hw_net w); w = w\<lparr>hw_net := n\<rparr>
      in (map_option (remote_error P) err, if err = None then mutated w else w))
    \<and> hfs_Truncate C p sz w = (let (err, n) = fs_Truncate F p sz (hw_net w); w = w\<lparr>hw_net := n\<rparr>
      in (map_option (remote_error P) err, if err = None then mutated w else w))
    \<and> hfs_Chtimes C p t w = (let (err, n) = fs_Chtimes F p t (hw_net w)
      in (map_option (remote_error P) err, w\<lparr>hw_net := n\<rparr>))
    \<and> hfs_Remove C p w = (case fs_Remove F p (hw_net w) of
        (None, n) \<Rightarrow> (None, mutated (w\<lparr>hw_net := n\<rparr>))
      | (Some e, n) \<Rightarrow> let (e, n) = remove_error P F p e n in (Some e, w\<lparr>hw_net := n\<rparr>))"
  by (intro conjI) (rule remote_Stat remote_ReadDir remote_Mkdir remote_Rename remote_Truncate remote_Chtimes
      remote_Remove, fact assms, (fact assms)?)+

text \<open>A client of the demonstration machine, and its state.\<close>

definition demo_client :: "bool \<Rightarrow> osw httpFS" where
  "demo_client ro = served_by Linux \<lparr>po_Name = [], po_ReadOnly = ro, po_Token = []\<rparr>
     (localFS Linux (Inr (4096, 1000, 500)) srv_root)
     \<lparr>hc_name = [], hc_readOnly = ro, hc_caseInsensitive = False, hc_token = [],
      hc_readAhead = int DefaultReadAhead, hc_roundtrip = (\<lambda>r n. (Inl OtherError, n)), hc_text = (\<lambda>_. [])\<rparr>"

definition demo_hworld :: "osw hworld" where
  "demo_hworld = \<lparr>hw_net = demo_osw, hw_gen = 0, hw_files = (\<lambda>_. None), hw_next = 0\<rparr>"

lemma demo_client_joined:
  "joined Linux \<lparr>po_Name = [], po_ReadOnly = False, po_Token = []\<rparr>
     (localFS Linux (Inr (4096, 1000, 500)) srv_root) (demo_client False)"
  by (simp add: joined_def demo_client_def served_by_def)

lemma remote_share_faithful_witness:
  "hfs_Mkdir (demo_client False) (ascii ''b'') 0 demo_hworld =
    (None, demo_hworld\<lparr>hw_net := demo_osw\<lparr>os_nodes := AList.update [ascii ''srv'', ascii ''b''] DirNode (os_nodes demo_osw)\<rparr>\<rparr>)"
proof -
  have "resolve srv_root (ascii ''b'') = Inr (ascii ''/srv/b'')" by code_simp
  moreover have "os_path (ascii ''/srv/b'') = [ascii ''srv'', ascii ''b'']" by code_simp
  ultimately have "fs_Mkdir (localFS Linux (Inr (4096, 1000, 500)) srv_root) (ascii ''b'') 0x1FF demo_osw =
      (None, demo_osw\<lparr>os_nodes := AList.update [ascii ''srv'', ascii ''b''] DirNode (os_nodes demo_osw)\<rparr>)"
    by (simp add: localFS_def lfs_Mkdir_def os_Mkdir_def os_node_def demo_osw_def)
  with remote_share_faithful [OF demo_client_joined, of 0 "ascii ''b''" demo_hworld 0] show ?thesis
    by (simp add: demo_hworld_def)
qed

text \<open>A share of a local directory behind a provider, with one of the two in read-only mode.\<close>

definition remote_readonly :: "osw hworld share \<Rightarrow> bool" where
  "remote_readonly sh \<longleftrightarrow>
    (\<exists>C P opt goos st root. sh_fs sh = httpFS_fs C \<and> hc_roundtrip C = via P opt (localFS goos st root) \<and>
       (sh_readOnly sh \<or> po_ReadOnly opt))"

lemma remote_readonlyI:
  "sh_fs sh = httpFS_fs C \<Longrightarrow> hc_roundtrip C = via P opt (localFS goos st root) \<Longrightarrow>
   sh_readOnly sh \<or> po_ReadOnly opt \<Longrightarrow> remote_readonly sh"
  unfolding remote_readonly_def by blast

lemma server_keeps_behind:
  assumes "list_all remote_readonly (sv_shares S)" and "clock_keeps (behind (same_tree T)) S"
  shows "server_keeps (behind (same_tree T)) S"
proof -
  have "share_keeps (behind (same_tree T)) sh" if m: "sh \<in> set (sv_shares S)" for sh
  proof -
    obtain C P opt goos st root where fs: "sh_fs sh = httpFS_fs C"
      and c: "hc_roundtrip C = via P opt (localFS goos st root)" and ro: "sh_readOnly sh \<or> po_ReadOnly opt"
      using m assms(1) by (auto simp: list_all_iff remote_readonly_def)
    have p: "provided (localFS goos st root) (same_tree T) P opt C"
      by (intro provided.intro provided_axioms.intro lfs_query.query_backend_axioms c)
    note q = provided.keeps_behind [OF p]
    have "any_backend (httpFS_fs C) (behind (same_tree T))" if "po_ReadOnly opt"
      by (rule provided_read_only.keeps_behind_any [OF provided_read_only.intro [OF p provided_read_only_axioms.intro [OF that]]])
    then show ?thesis using q ro by (auto simp: share_keeps_def fs)
  qed
  then show ?thesis using assms(2) by (simp add: server_keeps_def clock_keeps_def)
qed

text \<open>
  Whatever a client sends over a whole connection to shares behind providers, of which each is
  shared read-only or whose provider was started read-only, the file tree of the
  provider's machine and the contents and times of its files stay the same.
\<close>

theorem remote_read_only_unchanged:
  assumes "list_all remote_readonly (sv_shares S)"
    and "clock_keeps (behind (same_tree (os_nodes (hw_net w), os_data (hw_net w)))) S"
    and "serve S inp order (newConn a b w) = (outs, s')"
  shows "os_nodes (hw_net (cn_world s')) = os_nodes (hw_net w) \<and>
    os_data (hw_net (cn_world s')) = os_data (hw_net w)"
  using serve_keeps [OF server_keeps_behind [OF assms(1,2)] _ assms(3)]
  by (simp add: behind_def same_tree_def)

lemma remote_read_only_unchanged_witness:
  "\<forall>inp. os_nodes (hw_net (cn_world (snd (serve (demo_server []
     [\<lparr>sh_name = ascii ''data'', sh_fs = httpFS_fs (demo_client True), sh_readOnly = False\<rparr>]) inp []
     (newConn 0 0 demo_hworld))))) = os_nodes demo_osw"
proof
  fix inp
  let ?S = "demo_server [] [\<lparr>sh_name = ascii ''data'', sh_fs = httpFS_fs (demo_client True), sh_readOnly = False\<rparr>]"
  have c: "hc_roundtrip (demo_client True) = via Linux \<lparr>po_Name = [], po_ReadOnly = True, po_Token = []\<rparr>
      (localFS Linux (Inr (4096, 1000, 500)) srv_root)" by (simp add: demo_client_def served_by_def)
  have "remote_readonly \<lparr>sh_name = ascii ''data'', sh_fs = httpFS_fs (demo_client True), sh_readOnly = False\<rparr>"
    by (rule remote_readonlyI [OF _ c]) simp_all
  then have "list_all remote_readonly (sv_shares ?S)" by simp
  from remote_read_only_unchanged [OF this demo_clock prod.collapse [symmetric]]
  show "os_nodes (hw_net (cn_world (snd (serve ?S inp [] (newConn 0 0 demo_hworld))))) = os_nodes demo_osw"
    by (simp add: demo_hworld_def)
qed

end
