(* ===== verification/Window.thy ===== *)
theory Window
  imports Remote
begin

text \<open>
  The read-ahead windows of the client: as long as the client is the only one to change the
  provider's files, a window that is used shows the file as it is, so \<open>ReadAt\<close> with read-ahead
  answers what \<open>/read\<close> would.
\<close>

section \<open>What is relied on of the provider's file system\<close>

text \<open>
  \<open>content n p\<close>: the bytes of the file at \<open>p\<close>. A file that is there can be read; looking,
  \<open>Mkdir\<close> and \<open>Chtimes\<close> keep the contents, and so does an operation that fails.
\<close>

locale served_files =
  fixes F :: "'n fs" and content :: "'n \<Rightarrow> gostring \<Rightarrow> bytes option"
  assumes looks: "query_backend F (\<lambda>n. content n = c)"
    and readable: "content n p = Some b \<Longrightarrow> 0 \<le> sint off \<Longrightarrow>
      \<exists>h n1. fs_OpenFile F p O_RDONLY 0 n = (Inr h, n1) \<and>
        fst (f_ReadAt F h k off n1) =
          (take k (drop (unat off) b), if length (take k (drop (unat off) b)) < k then Some EOF else None)"
    and unreadable: "content n p = None \<Longrightarrow> fs_OpenFile F p O_RDONLY 0 n = (Inr h, n1) \<Longrightarrow> 0 < k \<Longrightarrow>
      \<exists>e. snd (fst (f_ReadAt F h k off n1)) = Some e \<and> e \<noteq> EOF"
    and Mkdir: "content (snd (fs_Mkdir F p perm n)) = content n"
    and Chtimes: "content (snd (fs_Chtimes F p t n)) = content n"
    and OpenFile: "fs_OpenFile F p flag perm n = (Inl e, n1) \<Longrightarrow> content n1 = content n"
    and open_write: "content (snd (fs_OpenFile F p O_RDWR perm n)) = content n"
    and Rename: "fs_Rename F p p' n = (Some e, n1) \<Longrightarrow> content n1 = content n"
    and Remove: "fs_Remove F p n = (Some e, n1) \<Longrightarrow> content n1 = content n"
    and Truncate: "fs_Truncate F p sz n = (Some e, n1) \<Longrightarrow> content n1 = content n"
    and WriteAt: "f_WriteAt F h d off n = ((k, Some e), n1) \<Longrightarrow> content n1 = content n"

definition lfs_content :: "gostring \<Rightarrow> osw \<Rightarrow> gostring \<Rightarrow> bytes option" where
  "lfs_content root n p =
    (case resolve root p of
       Inl _ \<Rightarrow> None
     | Inr full \<Rightarrow>
         (case os_node (os_path full) n of
            Some (FileNode i) \<Rightarrow> Some (fd_bytes (os_data n i))
          | _ \<Rightarrow> None))"

lemma lfs_content_cong:
  "os_nodes n' = os_nodes n \<Longrightarrow> (\<And>i. fd_bytes (os_data n' i) = fd_bytes (os_data n i)) \<Longrightarrow>
   lfs_content root n' = lfs_content root n"
  by (rule ext) (simp add: lfs_content_def os_node_def split: sum.split option.split node.split)

lemma lfs_content_fds [simp]:
  "lfs_content root (n\<lparr>os_fds := a\<rparr>) = lfs_content root n"
  "lfs_content root (n\<lparr>os_nextfd := b\<rparr>) = lfs_content root n"
  by (rule lfs_content_cong; simp)+

lemma lfs_content_mkdir:
  "os_node q n = None \<Longrightarrow>
   lfs_content root (n\<lparr>os_nodes := AList.update q DirNode (os_nodes n)\<rparr>) = lfs_content root n"
  by (rule ext) (auto simp: lfs_content_def os_node_def update_conv split: sum.split option.split node.split)

lemma lfs_content_chtimes:
  "lfs_content root (set_data i ((os_data n i)\<lparr>fd_mtime := t\<rparr>) n) = lfs_content root n"
  by (rule lfs_content_cong) (simp_all add: set_data_def)

lemma lfs_readable:
  assumes "lfs_content root n p = Some b" and "0 \<le> sint off"
  shows "\<exists>h n1. lfs_OpenFile root p O_RDONLY 0 n = (Inr h, n1) \<and>
    fst (os_ReadAt h k off n1) =
      (take k (drop (unat off) b), if length (take k (drop (unat off) b)) < k then Some EOF else None)"
proof -
  from assms(1) obtain full i where r: "resolve root p = Inr full"
    and i: "os_node (os_path full) n = Some (FileNode i)" "fd_bytes (os_data n i) = b"
    by (auto simp: lfs_content_def split: sum.splits option.splits node.splits)
  then have "lfs_OpenFile root p O_RDONLY 0 n = new_fd (Some i) O_RDONLY n"
    by (simp add: lfs_OpenFile_def os_OpenFile_def)
  then show ?thesis using assms(2) i(2) by (simp add: new_fd_def os_ReadAt_def Let_def)
qed

lemma lfs_unreadable:
  assumes "lfs_content root n p = None" and "lfs_OpenFile root p O_RDONLY 0 n = (Inr h, n1)" and "0 < k"
  shows "\<exists>e. snd (fst (os_ReadAt h k off n1)) = Some e \<and> e \<noteq> EOF"
  using assms
  by (auto simp: lfs_content_def lfs_OpenFile_def os_OpenFile_def Let_def new_fd_def os_ReadAt_def
      split: sum.splits option.splits node.splits)

lemma lfs_looks: "query_backend (localFS goos st root) (\<lambda>n. lfs_content root n = c)"
proof -
  have same: "lfs_content root n = c \<Longrightarrow> same_tree (os_nodes n, os_data n) n' \<Longrightarrow> lfs_content root n' = c" for n n'
    by (metis lfs_content_cong same_tree_def Pair_inject)
  have refl: "same_tree (os_nodes n, os_data n) n" for n by (simp add: same_tree_def)
  show ?thesis
    by (rule query_backend.intro; erule same; rule lfs_query.q_Stat lfs_query.q_OpenFile lfs_query.q_ReadDir
      lfs_query.q_Statfs lfs_query.q_ReadAt lfs_query.q_Close lfs_query.q_Sync lfs_query.q_FStat; rule refl)
qed

lemma lfs_settled:
  "lfs_content root (snd (lfs_Mkdir root p perm n)) = lfs_content root n"
  "lfs_content root (snd (lfs_Chtimes root p t n)) = lfs_content root n"
  "lfs_OpenFile root p flag perm n = (Inl e, n1) \<Longrightarrow> n1 = n"
  "lfs_content root (snd (lfs_OpenFile root p O_RDWR perm n)) = lfs_content root n"
  "lfs_Rename root p p' n = (Some e, n1) \<Longrightarrow> n1 = n"
  "lfs_Remove root p n = (Some e, n1) \<Longrightarrow> n1 = n"
  "lfs_Truncate root p sz n = (Some e, n1) \<Longrightarrow> n1 = n"
  "os_WriteAt h d off n = ((k, Some e), n1) \<Longrightarrow> n1 = n"
proof -
  show "lfs_content root (snd (lfs_Mkdir root p perm n)) = lfs_content root n"
    by (auto simp: lfs_Mkdir_def os_Mkdir_def Let_def lfs_content_mkdir split: sum.split option.split node.split)
  show "lfs_content root (snd (lfs_Chtimes root p t n)) = lfs_content root n"
    by (auto simp: lfs_Chtimes_def os_Chtimes_def Let_def lfs_content_chtimes split: sum.split option.split node.split)
  show "lfs_content root (snd (lfs_OpenFile root p O_RDWR perm n)) = lfs_content root n"
    by (auto simp: lfs_OpenFile_def os_OpenFile_def Let_def new_fd_def split: sum.split option.split node.split)
  show "lfs_OpenFile root p flag perm n = (Inl e, n1) \<Longrightarrow> n1 = n"
    by (auto simp: lfs_OpenFile_def os_OpenFile_def Let_def new_fd_def split: sum.splits option.splits node.splits if_splits)
  show "lfs_Rename root p p' n = (Some e, n1) \<Longrightarrow> n1 = n"
    by (auto simp: lfs_Rename_def os_Rename_def Let_def split: sum.splits option.splits node.splits if_splits)
  show "lfs_Remove root p n = (Some e, n1) \<Longrightarrow> n1 = n"
    by (auto simp: lfs_Remove_def os_Remove_def Let_def split: sum.splits option.splits node.splits if_splits)
  show "lfs_Truncate root p sz n = (Some e, n1) \<Longrightarrow> n1 = n"
    by (auto simp: lfs_Truncate_def os_Truncate_def Let_def split: sum.splits option.splits node.splits if_splits)
  show "os_WriteAt h d off n = ((k, Some e), n1) \<Longrightarrow> n1 = n"
    by (auto simp: os_WriteAt_def Let_def split: option.splits prod.splits if_splits)
qed

lemma localFS_select:
  "fs_OpenFile (localFS goos st root) = lfs_OpenFile root" "fs_Mkdir (localFS goos st root) = lfs_Mkdir root"
  "fs_Rename (localFS goos st root) = lfs_Rename root" "fs_Remove (localFS goos st root) = lfs_Remove root"
  "fs_Truncate (localFS goos st root) = lfs_Truncate root" "fs_Chtimes (localFS goos st root) = lfs_Chtimes root"
  "f_ReadAt (localFS goos st root) = os_ReadAt" "f_WriteAt (localFS goos st root) = os_WriteAt"
  by (simp_all add: localFS_def)

interpretation lfs_files: served_files "localFS goos st root" "lfs_content root" for goos st root
  by (rule served_files.intro [OF lfs_looks]; unfold localFS_select)
    (erule (1) lfs_readable | erule (2) lfs_unreadable | rule lfs_settled | (drule lfs_settled(3,5-8), simp))+

section \<open>The windows of a client\<close>

text \<open>
  A window of the current generation is the contents of its file from its offset on, to the end when
  it says so. An operation \<open>frames\<close> the windows when it opens no new one and either keeps contents and
  generation or moves to a later generation.
\<close>

definition window_of :: "bytes \<Rightarrow> hfile \<Rightarrow> bytes \<Rightarrow> bool" where
  "window_of b f win \<longleftrightarrow> 0 \<le> sint (hf_winOff f) \<and>
    win = take (length win) (drop (unat (hf_winOff f)) b) \<and>
    (hf_winEOF f \<longrightarrow> length b \<le> unat (hf_winOff f) + length win)"

definition coherent :: "('n \<Rightarrow> gostring \<Rightarrow> bytes option) \<Rightarrow> 'n hworld \<Rightarrow> bool" where
  "coherent content w \<longleftrightarrow>
    (\<forall>h f win. hw_files w h = Some f \<longrightarrow> hf_win f = Some win \<longrightarrow>
       hf_winGen f \<le> hw_gen w \<and>
       (hf_winGen f = hw_gen w \<longrightarrow> (\<exists>b. content (hw_net w) (hf_path f) = Some b \<and> window_of b f win)))"

definition frames :: "('n \<Rightarrow> gostring \<Rightarrow> bytes option) \<Rightarrow> 'n hworld \<Rightarrow> 'n hworld \<Rightarrow> bool" where
  "frames content w w' \<longleftrightarrow>
    (content (hw_net w') = content (hw_net w) \<and> hw_gen w' = hw_gen w \<or> hw_gen w < hw_gen w') \<and>
    (\<forall>h f. hw_files w' h = Some f \<longrightarrow> hf_win f \<noteq> None \<longrightarrow> hw_files w h = Some f)"

lemma coherent_frames:
  assumes "coherent content w" and "frames content w w'"
  shows "coherent content w'"
  unfolding coherent_def
proof (intro allI impI)
  fix h f win
  assume f: "hw_files w' h = Some f" "hf_win f = Some win"
  then have old: "hw_files w h = Some f" using assms(2) by (simp add: frames_def)
  have c: "hf_winGen f \<le> hw_gen w"
    "hf_winGen f = hw_gen w \<Longrightarrow> \<exists>b. content (hw_net w) (hf_path f) = Some b \<and> window_of b f win"
    using assms(1) old f(2) by (simp_all add: coherent_def)
  consider "content (hw_net w') = content (hw_net w)" "hw_gen w' = hw_gen w" | "hw_gen w < hw_gen w'"
    using assms(2) by (auto simp: frames_def)
  then show "hf_winGen f \<le> hw_gen w' \<and> (hf_winGen f = hw_gen w' \<longrightarrow>
      (\<exists>b. content (hw_net w') (hf_path f) = Some b \<and> window_of b f win))"
    by cases (use c in auto)
qed

lemma frames_refl [simp]: "frames content w w"
  by (simp add: frames_def)

lemma frames_trans:
  assumes "frames content w w'" and "frames content w' w''"
  shows "frames content w w''"
proof -
  have "hw_files w h = Some f" if "hw_files w'' h = Some f" "hf_win f \<noteq> None" for h f
    using that assms by (simp add: frames_def)
  moreover have "content (hw_net w'') = content (hw_net w) \<and> hw_gen w'' = hw_gen w \<or> hw_gen w < hw_gen w''"
    using assms unfolding frames_def by (metis order_less_trans)
  ultimately show ?thesis unfolding frames_def by blast
qed

lemma frames_net: "content n = content (hw_net w) \<Longrightarrow> frames content w (w\<lparr>hw_net := n\<rparr>)"
  by (simp add: frames_def)

lemma frames_mutated:
  assumes "hw_gen w \<noteq> -1"
  shows "frames content w (mutated (w\<lparr>hw_net := n\<rparr>))"
proof -
  have "1 + hw_gen w \<noteq> 0" using assms by (simp add: add_eq_0_iff)
  from unatSuc [OF this] have "hw_gen w < hw_gen w + 1" by (simp add: word_less_nat_alt add.commute)
  then show ?thesis by (simp add: frames_def mutated_def)
qed

lemma frames_files:
  "frames content w w' \<Longrightarrow> hf_win f = None \<Longrightarrow> frames content w (w'\<lparr>hw_files := (hw_files w')(h := Some f)\<rparr>)"
  by (auto simp: frames_def)

lemma sint_bit63: "sint (x :: i64) = uint x - (if bit x 63 then 2 ^ 64 else 0)"
proof -
  have "take_bit 64 (uint x) = uint x" by (rule take_bit_int_eq_self) (use uint_lt2p [of x] in simp_all)
  then show ?thesis by (simp add: sint_uint signed_take_bit_eq_take_bit_minus bit_uint_iff)
qed

lemma sint_nonneg: "0 \<le> sint (x :: i64) \<Longrightarrow> sint x = int (unat x)"
  using uint_lt2p [of x] by (simp add: sint_bit63 split: if_splits)

lemma sint_small:
  assumes "unat (x :: i64) < 2 ^ 63"
  shows "sint x = int (unat x)"
proof -
  have "nat (uint x) < 2 ^ 63" using assms by simp
  then have u: "uint x < 2 ^ 63" by (subst (asm) nat_less_iff) simp_all
  show ?thesis
  proof (cases "bit x 63")
    case True
    then have "sint x = uint x - 2 ^ 64" by (subst sint_bit63) (simp only: if_True)
    then show ?thesis using sint_i64(1) [of x] u by simp
  next
    case False
    then have "sint x = uint x" by (subst sint_bit63) (simp only: if_False diff_zero)
    then show ?thesis by simp
  qed
qed

lemma from_window_exact:
  assumes "coherent content w" and "hw_files w h = Some f" and "content (hw_net w) (hf_path f) = Some b"
    and "length b < 2 ^ 63" and "0 \<le> sint off" and "from_window f (hw_gen w) k off = Some r"
  shows "r = (take k (drop (unat off) b), if length (take k (drop (unat off) b)) < k then Some EOF else None)"
proof -
  obtain win where win: "hf_win f = Some win" and g: "hf_winGen f = hw_gen w"
    and lo: "sint (hf_winOff f) \<le> sint off" and hi: "sint off < sint (hf_winOff f + of_nat (length win))"
    using assms(6) by (auto simp: from_window_def split: option.splits if_splits)
  let ?o = "unat (hf_winOff f)" and ?d = "unat (off - hf_winOff f)"
  have wb: "window_of b f win" using assms(1-3) win g by (fastforce simp: coherent_def)
  then have o: "0 \<le> sint (hf_winOff f)" and w: "win = take (length win) (drop ?o b)"
    by (simp_all add: window_of_def)
  have le: "?o \<le> unat off" using lo sint_nonneg [OF o] sint_nonneg [OF assms(5)] by linarith
  then have d: "?d = unat off - ?o" by (simp add: unat_sub word_le_nat_alt)
  have len: "?o + length win \<le> length b \<or> win = []"
  proof -
    have "length win \<le> length b - ?o" using w by (metis length_drop length_take min.cobounded1)
    moreover have "0 < length win \<or> win = []" by auto
    ultimately show ?thesis by linarith
  qed
  have data: "take k (drop ?d win) = take k (take (length win - ?d) (drop (unat off) b))"
    using arg_cong [OF w, of "\<lambda>x. take k (drop ?d x)"] le unfolding d by (simp add: drop_take add.commute)
  let ?r = "take k (drop ?d win)" and ?e = "take k (drop (unat off) b)"
  have r: "r = (if length ?r = k then (?r, None) else (?r, Some EOF))" "length ?r = k \<or> hf_winEOF f"
    using assms(6) win unfolding from_window_def by (auto simp only: Let_def option.case split: if_splits)
  show ?thesis
  proof (cases "length ?r = k")
    case True
    then have "k \<le> length win - ?d" unfolding data by simp
    then have "?r = ?e" unfolding data by simp
    then show ?thesis using r(1) True by simp
  next
    case False
    then have "length b \<le> ?o + length win" using r(2) wb unfolding window_of_def by blast
    then have "length b - unat off \<le> length win - ?d" using le d by linarith
    then have "?r = ?e" unfolding data by simp
    moreover have "length ?e \<le> k" by simp
    moreover have "r = (?r, Some EOF)" using r(1) False by (simp only: if_False)
    ultimately show ?thesis using False by (metis le_neq_implies_less)
  qed
qed

text \<open>How far an operation moves the generation.\<close>

lemma Do_gen [simp]: "hw_gen (snd (client_Do C r w)) = hw_gen w"
  by (simp add: client_Do_def split_beta Let_def)

lemma calls_gen:
  "hw_gen (snd (http_do C m e q b w)) = hw_gen w" "hw_gen (snd (getJSON C e q d w)) = hw_gen w"
  "hw_gen (snd (fetch C p k off w)) = hw_gen w" "hw_gen (mutated w) = hw_gen w + 1"
  by (simp_all add: http_do_def getJSON_def http_get_def fetch_def Let_def split_beta mutated_def)

lemma Stat_gen: "hw_gen (snd (hfs_Stat C p w)) = hw_gen w"
  by (simp add: hfs_Stat_def calls_gen)

lemma Truncate_gen: "hw_gen (snd (hfs_Truncate C p sz w)) \<in> {hw_gen w, hw_gen w + 1}"
  by (simp add: hfs_Truncate_def Let_def split_beta calls_gen split: option.split)

lemma open_exists_gen: "hw_gen (snd (open_exists C p flag w)) \<in> {hw_gen w, hw_gen w + 1}"
  by (simp add: open_exists_def Let_def split_beta calls_gen Stat_gen split: option.split sum.split)

lemma WriteAt_gen: "hw_gen (snd (hf_WriteAt C h d off w)) \<in> {hw_gen w, hw_gen w + 1}"
  by (simp add: hf_WriteAt_def Let_def split_beta calls_gen split: option.split sum.split httpbody.split json.split)

lemma later_gen:
  assumes "unat (x :: u64) + 2 < 2 ^ 64"
  shows "x \<noteq> -1 \<and> x + 1 \<noteq> -1"
proof -
  have "unat (x + 1) = unat x + 1" using assms by (simp add: unat_plus_if')
  then have "unat x < 2 ^ 64 - 1" "unat (x + 1) < 2 ^ 64 - 1" using assms by linarith+
  moreover have "unat (-1 :: u64) = 2 ^ 64 - 1" by (simp add: unsigned_minus_1_eq_mask mask_eq_exp_minus_1)
  ultimately show ?thesis by (metis less_irrefl)
qed

section \<open>A client of served files\<close>

locale served_client = served_files F content for F :: "'n fs" and content +
  fixes P :: platform and opt :: providerOptions and C :: "'n httpFS"
  assumes to_provider: "joined P opt F C"
begin

text \<open>A request that is not answered with 200 has changed no contents.\<close>

lemma look_keeps:
  "content (snd (fs_Stat F p n)) = content n" "content (snd (fs_ReadDir F p n)) = content n"
  "content (snd (fs_OpenFile F p O_RDONLY perm n)) = content n" "content (snd (f_ReadAt F h k off n)) = content n"
  "content (snd (f_Close F h n)) = content n" "content (snd (fs_Statfs F n)) = content n"
  by (rule query_backend.q_Stat [OF looks] query_backend.q_ReadDir [OF looks] query_backend.q_OpenFile [OF looks]
      query_backend.q_ReadAt [OF looks] query_backend.q_Close [OF looks] query_backend.q_Statfs [OF looks], simp)+

lemma fetch_exact:
  assumes "content (hw_net w) p = Some b" and "0 \<le> sint off" and "k \<le> maxReadChunk"
  shows "\<exists>n. fetch C p k off w =
      ((take k (drop (unat off) b), if length (take k (drop (unat off) b)) < k then Some EOF else None),
       w\<lparr>hw_net := n\<rparr>) \<and> content n = content (hw_net w)"
proof -
  obtain h n1 where o: "fs_OpenFile F p O_RDONLY 0 (hw_net w) = (Inr h, n1)"
    and r: "fst (f_ReadAt F h k off n1) =
      (take k (drop (unat off) b), if length (take k (drop (unat off) b)) < k then Some EOF else None)"
    using readable [OF assms(1,2)] by blast
  obtain n2 where r2: "f_ReadAt F h k off n1 =
      ((take k (drop (unat off) b), if length (take k (drop (unat off) b)) < k then Some EOF else None), n2)"
    using r by (metis prod.collapse)
  have "content n1 = content (hw_net w)" using look_keeps(3) [of p 0 "hw_net w"] by (simp add: o)
  moreover have "content n2 = content n1" using look_keeps(4) [of h k off n1] by (simp add: r2)
  moreover have "fetch C p k off w =
      ((take k (drop (unat off) b), if length (take k (drop (unat off) b)) < k then Some EOF else None),
       w\<lparr>hw_net := snd (f_Close F h n2)\<rparr>)"
    unfolding remote_fetch [OF to_provider assms(3,2)] o by (simp add: r2)
  ultimately show ?thesis using look_keeps(5) [of h n2] by auto
qed

text \<open>A request that is not answered with 200 changes no contents.\<close>

lemma answer_settled:
  assumes "\<And>e n1. r = (Some e, n1) \<Longrightarrow> content n1 = c"
  shows "rs_status (fst (answer P r)) = StatusOK \<or> content (snd (answer P r)) = c"
  using assms by (cases r; cases "fst r") (auto simp: answer_def jsonOK_def writeJSON_def)

lemma create_settled:
  "rs_status (fst (p_create P F r n)) = StatusOK \<or> content (snd (p_create P F r n)) = content n"
  using OpenFile by (auto simp: p_create_def Let_def jsonOK_def writeJSON_def split: prod.split sum.split)

lemma write_settled:
  "rs_status (fst (p_write P F r n)) = StatusOK \<or> content (snd (p_write P F r n)) = content n"
proof -
  let ?p = "query_text (rq_query r) ''path''"
  obtain res n1 where o: "fs_OpenFile F ?p O_RDWR 0x1B6 n = (res, n1)" by (metis surj_pair)
  have c1: "content n1 = content n" using open_write by (metis o snd_conv)
  show ?thesis
    using c1 look_keeps(5) WriteAt
    by (auto simp: p_write_def Let_def o writeJSON_def split: option.split prod.split sum.split)
      (metis snd_conv)
qed

lemma rename_settled:
  "rs_status (fst (p_rename P F r n)) = StatusOK \<or> content (snd (p_rename P F r n)) = content n"
proof -
  have a: "rs_status (fst (answer P (fs_Rename F p p' m))) = StatusOK \<or>
      content (snd (answer P (fs_Rename F p p' m))) = content m" for p p' m
    by (rule answer_settled) (rule Rename)
  have s: "content m = content n" if "fs_Stat F p n = (res, m)" for p res m
    using look_keeps(1) [of p n] that by simp
  show ?thesis
    using a s by (auto simp: p_rename_def Let_def split: httpbody.split json.split option.split prod.split sum.split)
      metis+
qed

lemma remove_settled:
  "rs_status (fst (p_remove P F r n)) = StatusOK \<or> content (snd (p_remove P F r n)) = content n"
proof -
  let ?p = "query_text (rq_query r) ''path''"
  obtain err n1 where e: "fs_Remove F ?p n = (err, n1)" by (metis surj_pair)
  show ?thesis
  proof (cases err)
    case None
    then show ?thesis by (simp add: p_remove_def Let_def e jsonOK_def writeJSON_def)
  next
    case (Some x)
    then have "content n1 = content n" using Remove e by metis
    then show ?thesis
      using look_keeps(1) [of ?p n1] look_keeps(2) [of ?p]
      by (auto simp: p_remove_def Let_def e Some split_beta split: sum.split)
  qed
qed

lemma truncate_settled:
  "rs_status (fst (p_truncate P F r n)) = StatusOK \<or> content (snd (p_truncate P F r n)) = content n"
proof -
  have "rs_status (fst (answer P (fs_Truncate F p sz n))) = StatusOK \<or>
      content (snd (answer P (fs_Truncate F p sz n))) = content n" for p sz
    by (rule answer_settled) (rule Truncate)
  then show ?thesis by (simp add: p_truncate_def split: option.split)
qed

lemma timeless_settled:
  "content (snd (p_mkdir P F r n)) = content n" "content (snd (p_chtimes P F r n)) = content n"
  by (simp_all add: p_mkdir_def p_chtimes_def answer_def Mkdir Chtimes split: option.split)

lemma looked:
  "content (snd (p_stat P F r n)) = content n" "content (snd (p_list P F r n)) = content n"
  "content (snd (p_read P F r n)) = content n" "content (snd (p_statfs P F r n)) = content n"
  "content (snd (p_capabilities opt F r n)) = content n"
  by (simp_all add: p_stat_def p_list_def p_read_def p_statfs_def p_capabilities_def Let_def split_beta look_keeps
      split: option.split sum.split)

lemma handler_settled:
  "rs_status (fst (provider_Handler P opt F r n)) = StatusOK \<or>
   content (snd (provider_Handler P opt F r n)) = content n"
  using create_settled write_settled rename_settled remove_settled truncate_settled
  by (simp add: provider_Handler_def mux_defs timeless_settled looked)

lemma Do_settled:
  assumes "client_Do C r w = (res, w')"
  shows "w' = w\<lparr>hw_net := hw_net w'\<rparr> \<and>
    ((\<exists>resp. res = Inr resp \<and> rs_status resp = StatusOK) \<or> content (hw_net w') = content (hw_net w))"
  using assms to_provider handler_settled [of r "hw_net w"]
  by (cases "provider_Handler P opt F r (hw_net w)") (auto simp: client_Do_def joined_def via_def)

lemma unsettled_frames:
  assumes "client_Do C r w = (res, w')" and "\<And>resp. res = Inr resp \<Longrightarrow> rs_status resp \<noteq> StatusOK"
  shows "frames content w w'"
  using Do_settled [OF assms(1)] assms(2) frames_net by metis

lemma settled_frames:
  assumes "client_Do C r w = (res, w')" and "hw_gen w \<noteq> -1"
  shows "frames content w (mutated w')"
  using Do_settled [OF assms(1)] frames_mutated [OF assms(2)] by metis

lemma checkResp_ok: "checkResp resp b = None \<longleftrightarrow> rs_status resp = StatusOK"
  by (auto simp: checkResp_def Let_def)

lemma checkResp_bad: "checkResp resp b = Some e \<Longrightarrow> rs_status resp \<noteq> StatusOK"
  by (metis checkResp_ok option.distinct(1))

lemma do_frames:
  assumes "http_do C m e q b w = (None, w')" and "hw_gen w \<noteq> -1"
  shows "frames content w (mutated w')"
  using assms by (auto simp: http_do_def Let_def split: prod.splits intro: settled_frames)

lemma do_failed_frames:
  assumes "http_do C m e q b w = (Some err, w')"
  shows "frames content w w'"
  using assms by (auto simp: http_do_def Let_def split: prod.splits sum.splits elim!: unsettled_frames dest: checkResp_bad)

lemma Stat_frames: "frames content w (snd (hfs_Stat C p w))"
  by (simp add: remote_Stat [OF to_provider] Let_def split_beta frames_net look_keeps)

lemma ReadDir_frames: "frames content w (snd (hfs_ReadDir C p w))"
  by (simp add: remote_ReadDir [OF to_provider] Let_def split_beta frames_net look_keeps)

lemma Statfs_frames: "frames content w (snd (hfs_Statfs C w))"
  by (simp add: remote_Statfs [OF to_provider] Let_def split_beta frames_net look_keeps)

lemma Mkdir_frames: "frames content w (snd (hfs_Mkdir C p perm w))"
  by (simp add: remote_Mkdir [OF to_provider] Let_def split_beta frames_net Mkdir)

lemma Chtimes_frames: "frames content w (snd (hfs_Chtimes C p t w))"
  by (simp add: remote_Chtimes [OF to_provider] Let_def split_beta frames_net Chtimes)

lemma Remove_frames: "hw_gen w \<noteq> -1 \<Longrightarrow> frames content w (snd (hfs_Remove C p w))"
  by (auto simp: hfs_Remove_def Let_def split: prod.split option.split intro: do_frames do_failed_frames)

lemma Truncate_frames: "hw_gen w \<noteq> -1 \<Longrightarrow> frames content w (snd (hfs_Truncate C p sz w))"
  by (auto simp: hfs_Truncate_def Let_def split: prod.split option.split intro: do_frames do_failed_frames)

lemma Rename_frames: "hw_gen w \<noteq> -1 \<Longrightarrow> frames content w (snd (hfs_Rename C p p' w))"
  by (auto simp: hfs_Rename_def Let_def split: prod.split option.split sum.split
      elim: settled_frames elim!: unsettled_frames dest: checkResp_bad)

lemma WriteAt_frames: "hw_gen w \<noteq> -1 \<Longrightarrow> frames content w (snd (hf_WriteAt C h d off w))"
  by (auto simp: hf_WriteAt_def Let_def split: prod.split option.split sum.split httpbody.split json.split
      elim: settled_frames elim!: unsettled_frames dest: checkResp_bad intro!: frames_files)

lemma open_exists_frames: "hw_gen w \<noteq> -1 \<Longrightarrow> frames content w (snd (open_exists C p flag w))"
  using Stat_frames
  by (auto simp: open_exists_def Let_def split: prod.split option.split sum.split
      intro: do_frames do_failed_frames) (metis snd_conv)+

lemma new_hfile_frames: "frames content w (snd (new_hfile p w))"
  by (auto simp: new_hfile_def Let_def frames_def)

lemma OpenFile_frames:
  assumes "unat (hw_gen w) + 2 < 2 ^ 64"
  shows "frames content w (snd (hfs_OpenFile C p flag perm w))"
proof -
  obtain err w1 where o: "open_exists C p flag w = (err, w1)" by (metis surj_pair)
  let ?t = "if flag AND O_TRUNC \<noteq> 0 then hfs_Truncate C p 0 w1 else (None, w1)"
  have g: "hw_gen w1 \<in> {hw_gen w, hw_gen w + 1}"
    using open_exists_gen [of C p flag w] by (simp add: o)
  have "hw_gen w \<noteq> -1" "hw_gen w1 \<noteq> -1" using g assms later_gen by auto
  then have f: "frames content w w1" "frames content w1 (snd ?t)"
    using open_exists_frames [of w p flag] Truncate_frames [of w1 p 0] by (simp_all add: o)
  from frames_trans [OF this] have t: "frames content w (snd ?t)" .
  then have "frames content w (snd (new_hfile p (snd ?t)))" using new_hfile_frames by (rule frames_trans)
  then show ?thesis using f(1) t
    by (cases "flag AND O_TRUNC = 0") (auto simp: hfs_OpenFile_def o Let_def split_beta split: option.split)
qed

lemma GET_settled:
  "rq_method r = GET \<Longrightarrow> content (hw_net (snd (client_Do C r w))) = content (hw_net w)"
  using to_provider looked
  by (simp add: client_Do_def joined_def via_def provider_Handler_def mux_defs Let_def split_beta writeGate_def)

lemma client_Do_world: "snd (client_Do C r w) = w\<lparr>hw_net := hw_net (snd (client_Do C r w))\<rparr>"
  by (simp add: client_Do_def split_beta Let_def)

lemma fetch_frames: "frames content w (snd (fetch C p k off w))"
proof -
  have "frames content w (snd (http_get C e q w))" for e q
    unfolding http_get_def
    by (subst client_Do_world, rule frames_net, rule GET_settled) (simp add: newRequest_def)
  then show ?thesis by (simp add: fetch_def Let_def split_beta)
qed

text \<open>A request that finds no file, or a negative offset, opens no window.\<close>

lemma remote_error_not_EOF: "remote_error P e \<noteq> EOF"
  by (simp add: remote_error_def)

lemma fetch_missing:
  assumes "content (hw_net w) p = None \<or> sint off < 0" and "0 < k" and "k \<le> maxReadChunk"
  shows "\<exists>e. snd (fst (fetch C p k off w)) = Some e \<and> e \<noteq> EOF"
proof (cases "sint off < 0")
  case True
  then show ?thesis
    using assms(3) sint_i64 [of off]
    by (simp add: fetch_def http_get_def client_routes [OF to_provider] query_defs p_read_def Let_def
        writeErr_def writeJSON_def checkResp_def)
next
  case False
  then have c: "content (hw_net w) p = None" "0 \<le> sint off" using assms(1) by auto
  obtain r n1 where o: "fs_OpenFile F p O_RDONLY 0 (hw_net w) = (r, n1)" by (metis surj_pair)
  show ?thesis
  proof (cases r)
    case (Inl e)
    then show ?thesis
      unfolding remote_fetch [OF to_provider assms(3) c(2)] o by (simp add: remote_error_not_EOF)
  next
    case (Inr h)
    obtain e where "snd (fst (f_ReadAt F h k off n1)) = Some e" "e \<noteq> EOF"
      using unreadable [OF c(1) o [unfolded Inr] assms(2)] by blast
    then show ?thesis
      unfolding remote_fetch [OF to_provider assms(3) c(2)] o Inr
      by (simp add: Let_def split_beta remote_error_not_EOF)
  qed
qed

lemma new_window:
  assumes "coherent content w" and "hw_files w h = Some f" and "content (hw_net w) (hf_path f) = Some b"
    and "0 \<le> sint off" and "\<not> (hc_readAhead C \<le> 0 \<or> int k \<ge> hc_readAhead C)"
    and "hc_readAhead C \<le> int maxReadChunk" and "from_window f (hw_gen w) k off = None"
  shows "\<exists>w'. hf_ReadAt C h k off w =
      ((take k (drop (unat off) b), if length (take k (drop (unat off) b)) < k then Some EOF else None), w')
    \<and> hw_gen w' = hw_gen w \<and> coherent content w'"
proof -
  let ?a = "nat (hc_readAhead C)"
  let ?d = "take ?a (drop (unat off) b)"
  have a: "?a \<le> maxReadChunk" "k < ?a" using assms(5,6) by linarith+
  obtain n where e: "fetch C (hf_path f) ?a off w =
      ((?d, if length ?d < ?a then Some EOF else None), w\<lparr>hw_net := n\<rparr>)"
    and n: "content n = content (hw_net w)" using fetch_exact [OF assms(3,4) a(1)] by blast
  let ?f = "f\<lparr>hf_win := Some ?d, hf_winOff := off, hf_winGen := hw_gen w, hf_winEOF := length ?d < ?a\<rparr>"
  let ?w = "w\<lparr>hw_net := n, hw_files := (hw_files w)(h := Some ?f)\<rparr>"
  have k: "take k ?d = take k (drop (unat off) b)" "length ?d < k \<longleftrightarrow> length (take k (drop (unat off) b)) < k"
    using a(2) by auto
  have "hf_ReadAt C h k off w =
      ((take k (drop (unat off) b), if length (take k (drop (unat off) b)) < k then Some EOF else None), ?w)"
    unfolding hf_ReadAt_def assms(2,7) option.case if_not_P [OF assms(5)] Let_def e k [symmetric]
    by (cases "length ?d < ?a") simp_all
  moreover have "take (length ?d) (drop (unat off) b) = ?d" by (simp add: min_def)
  then have "window_of b ?f ?d" using assms(4) by (auto simp: window_of_def)
  then have "coherent content ?w"
    using coherent_frames [OF assms(1) frames_net [OF n]] assms(3) n by (auto simp: coherent_def)
  ultimately show ?thesis by simp
qed

lemma ReadAt_coherent:
  assumes "coherent content w" and "hc_readAhead C \<le> int maxReadChunk"
  shows "coherent content (snd (hf_ReadAt C h k off w)) \<and> hw_gen (snd (hf_ReadAt C h k off w)) = hw_gen w"
proof (cases "hw_files w h")
  case None
  then show ?thesis using assms by (simp add: hf_ReadAt_def)
next
  case (Some f)
  have fr: "coherent content (snd (fetch C p k off w)) \<and> hw_gen (snd (fetch C p k off w)) = hw_gen w" for p k
    using coherent_frames [OF assms(1) fetch_frames] by (simp add: calls_gen)
  let ?a = "nat (hc_readAhead C)"
  consider "hc_readAhead C \<le> 0 \<or> int k \<ge> hc_readAhead C"
    | (win) "\<not> (hc_readAhead C \<le> 0 \<or> int k \<ge> hc_readAhead C)" "from_window f (hw_gen w) k off \<noteq> None"
    | (new) "\<not> (hc_readAhead C \<le> 0 \<or> int k \<ge> hc_readAhead C)" "from_window f (hw_gen w) k off = None" by blast
  then show ?thesis
  proof cases
    case 1
    then show ?thesis using fr by (simp add: hf_ReadAt_def Some)
  next
    case win
    then show ?thesis using assms(1) by (auto simp: hf_ReadAt_def Some)
  next
    case new
    have a: "0 < ?a" "?a \<le> maxReadChunk" using new(1) assms(2) by linarith+
    show ?thesis
    proof (cases "content (hw_net w) (hf_path f) = None \<or> sint off < 0")
      case True
      from fetch_missing [OF this a] obtain e where "snd (fst (fetch C (hf_path f) ?a off w)) = Some e" "e \<noteq> EOF"
        by blast
      then show ?thesis
        unfolding hf_ReadAt_def Some option.case if_not_P [OF new(1)] Let_def new(2)
        using fr by (simp add: split_beta)
    next
      case False
      then obtain b where b: "content (hw_net w) (hf_path f) = Some b" "0 \<le> sint off" by auto
      have "coherent content (snd (hf_ReadAt C h k off w))" "hw_gen (snd (hf_ReadAt C h k off w)) = hw_gen w"
        using new_window [OF assms(1) Some b new(1) assms(2) new(2)] by auto
      then show ?thesis by blast
    qed
  qed
qed

lemma window_read_exact:
  assumes "coherent content w" and "hw_files w h = Some f" and "content (hw_net w) (hf_path f) = Some b"
    and "length b < 2 ^ 63" and "0 \<le> sint off" and "k \<le> maxReadChunk" and "hc_readAhead C \<le> int maxReadChunk"
  shows "fst (hf_ReadAt C h k off w) =
    (take k (drop (unat off) b), if length (take k (drop (unat off) b)) < k then Some EOF else None)"
proof (cases "hc_readAhead C \<le> 0 \<or> int k \<ge> hc_readAhead C")
  case True
  then show ?thesis using fetch_exact [OF assms(3,5,6)] by (auto simp: hf_ReadAt_def assms(2))
next
  case False
  show ?thesis
  proof (cases "from_window f (hw_gen w) k off")
    case (Some r)
    then show ?thesis
      using False assms(2) from_window_exact [OF assms(1-5) Some] by (simp add: hf_ReadAt_def)
  next
    case None
    from new_window [OF assms(1,2,3,5) False assms(7) None] show ?thesis by (metis fst_conv)
  qed
qed

end

section \<open>Any sequence of operations\<close>

inductive client_step :: "'n httpFS \<Rightarrow> 'n hworld \<Rightarrow> 'n hworld \<Rightarrow> bool" for C where
  do_Stat: "client_step C w (snd (hfs_Stat C p w))"
| do_OpenFile: "client_step C w (snd (hfs_OpenFile C p flag perm w))"
| do_Mkdir: "client_step C w (snd (hfs_Mkdir C p perm w))"
| do_ReadDir: "client_step C w (snd (hfs_ReadDir C p w))"
| do_Rename: "client_step C w (snd (hfs_Rename C p p' w))"
| do_Remove: "client_step C w (snd (hfs_Remove C p w))"
| do_Truncate: "client_step C w (snd (hfs_Truncate C p sz w))"
| do_Chtimes: "client_step C w (snd (hfs_Chtimes C p t w))"
| do_Statfs: "client_step C w (snd (hfs_Statfs C w))"
| do_ReadAt: "client_step C w (snd (hf_ReadAt C h k off w))"
| do_WriteAt: "client_step C w (snd (hf_WriteAt C h d off w))"

lemma gen_up: "g' \<in> {g, g + 1, g + 2} \<Longrightarrow> unat (g' :: u64) \<le> unat g + 2"
  by (auto simp: unat_plus_if')

lemma ops_gen:
  "hw_gen (snd (hfs_Mkdir C p perm w)) = hw_gen w" "hw_gen (snd (hfs_ReadDir C p w)) = hw_gen w"
  "hw_gen (snd (hfs_Chtimes C p t w)) = hw_gen w" "hw_gen (snd (hfs_Statfs C w)) = hw_gen w"
  "hw_gen (snd (hfs_Rename C p p' w)) \<in> {hw_gen w, hw_gen w + 1}"
  "hw_gen (snd (hfs_Remove C p w)) \<in> {hw_gen w, hw_gen w + 1}"
  by (simp_all add: hfs_Mkdir_def hfs_ReadDir_def hfs_Chtimes_def hfs_Statfs_def hfs_Rename_def hfs_Remove_def
      Let_def split_beta calls_gen split: option.split sum.split)

lemma OpenFile_gen: "hw_gen (snd (hfs_OpenFile C p flag perm w)) \<in> {hw_gen w, hw_gen w + 1, hw_gen w + 2}"
  using open_exists_gen [of C p flag w] Truncate_gen [of C p 0 "snd (open_exists C p flag w)"]
  by (auto simp: hfs_OpenFile_def new_hfile_def Let_def split_beta split: option.split)

lemma gen_stays: "x = g \<Longrightarrow> x \<in> {g, g + 1, g + (2 :: u64)}"
  and gen_steps: "x \<in> {g, g + 1} \<Longrightarrow> x \<in> {g, g + 1, g + (2 :: u64)}"
  by auto

lemma any_gen:
  "hw_gen (snd (hfs_Stat C p w)) \<in> {hw_gen w, hw_gen w + 1, hw_gen w + 2}"
  "hw_gen (snd (hfs_OpenFile C p flag perm w)) \<in> {hw_gen w, hw_gen w + 1, hw_gen w + 2}"
  "hw_gen (snd (hfs_Mkdir C p perm w)) \<in> {hw_gen w, hw_gen w + 1, hw_gen w + 2}"
  "hw_gen (snd (hfs_ReadDir C p w)) \<in> {hw_gen w, hw_gen w + 1, hw_gen w + 2}"
  "hw_gen (snd (hfs_Rename C p p' w)) \<in> {hw_gen w, hw_gen w + 1, hw_gen w + 2}"
  "hw_gen (snd (hfs_Remove C p w)) \<in> {hw_gen w, hw_gen w + 1, hw_gen w + 2}"
  "hw_gen (snd (hfs_Truncate C p sz w)) \<in> {hw_gen w, hw_gen w + 1, hw_gen w + 2}"
  "hw_gen (snd (hfs_Chtimes C p t w)) \<in> {hw_gen w, hw_gen w + 1, hw_gen w + 2}"
  "hw_gen (snd (hfs_Statfs C w)) \<in> {hw_gen w, hw_gen w + 1, hw_gen w + 2}"
  "hw_gen (snd (hf_WriteAt C h d off w)) \<in> {hw_gen w, hw_gen w + 1, hw_gen w + 2}"
  by (rule gen_stays gen_steps OpenFile_gen, (rule ops_gen Stat_gen Truncate_gen WriteAt_gen)?)+

context served_client begin

lemma step_coherent:
  assumes "client_step C w w'" and "coherent content w" and "unat (hw_gen w) + 2 < 2 ^ 64"
    and "hc_readAhead C \<le> int maxReadChunk"
  shows "coherent content w' \<and> unat (hw_gen w') \<le> unat (hw_gen w) + 2"
proof -
  have g: "hw_gen w \<noteq> -1" using later_gen [OF assms(3)] by simp
  have by_frame: "coherent content v \<and> unat (hw_gen v) \<le> unat (hw_gen w) + 2"
    if "frames content w v" "hw_gen v \<in> {hw_gen w, hw_gen w + 1, hw_gen w + 2}" for v
    using coherent_frames [OF assms(2) that(1)] gen_up [OF that(2)] by blast
  note fr = Stat_frames Mkdir_frames ReadDir_frames Chtimes_frames Statfs_frames OpenFile_frames [OF assms(3)]
    Rename_frames [OF g] Remove_frames [OF g] Truncate_frames [OF g] WriteAt_frames [OF g]
  from assms(1) show ?thesis
  proof cases
    case (do_ReadAt h k off)
    then show ?thesis using ReadAt_coherent [OF assms(2,4)] by simp
  qed (erule ssubst, rule by_frame, rule fr, rule any_gen)+
qed

lemma steps_coherent:
  assumes "(client_step C ^^ m) w w'" and "coherent content w" and "unat (hw_gen w) + 2 * m < 2 ^ 64"
    and "hc_readAhead C \<le> int maxReadChunk"
  shows "coherent content w' \<and> unat (hw_gen w') \<le> unat (hw_gen w) + 2 * m"
  using assms(1,3)
proof (induction m arbitrary: w')
  case 0
  then show ?case using assms(2) by simp
next
  case (Suc m)
  then obtain v where v: "(client_step C ^^ m) w v" "client_step C v w'" by auto
  then have c: "coherent content v" "unat (hw_gen v) \<le> unat (hw_gen w) + 2 * m" using Suc by auto
  then have "unat (hw_gen v) + 2 < 2 ^ 64" using Suc.prems(2) by simp
  from step_coherent [OF v(2) c(1) this assms(4)] c(2) show ?case by simp
qed

end

definition writable_options :: "gostring \<Rightarrow> gostring \<Rightarrow> providerOptions" where
  "writable_options name tok = \<lparr>po_Name = name, po_ReadOnly = False, po_Token = tok\<rparr>"

interpretation lfs_client: served_client "localFS goos st root" "lfs_content root" P "writable_options name tok"
    "served_by P (writable_options name tok) (localFS goos st root) (C\<lparr>hc_token := tok\<rparr>)"
  for goos st root P name tok C
  by unfold_locales (simp add: joined_def served_by_def writable_options_def)

section \<open>Properties\<close>

text \<open>
  C26. Read-ahead is transparent: after any number of operations of the only client of a provider of a
  local directory, \<open>ReadAt\<close> on an open file returns exactly the current bytes of the file in the
  range asked for, with \<open>io.EOF\<close> exactly when the file ends inside it, whether it is answered from a
  window or by a request; for a window size of at most the provider's \<open>maxReadChunk\<close>.
\<close>

theorem read_ahead_transparent:
  assumes "joined P opt (localFS goos st root) C" and "hc_readAhead C \<le> int maxReadChunk"
    and "(client_step C ^^ m) w w'" and "hw_files w = (\<lambda>_. None)" and "unat (hw_gen w) + 2 * m < 2 ^ 64"
    and "hw_files w' h = Some f" and "lfs_content root (hw_net w') (hf_path f) = Some b"
    and "length b < 2 ^ 63" and "0 \<le> sint off" and "k \<le> maxReadChunk"
  shows "fst (hf_ReadAt C h k off w') =
    (take k (drop (unat off) b), if length (take k (drop (unat off) b)) < k then Some EOF else None)"
proof -
  have c: "served_client (localFS goos st root) (lfs_content root) P opt C"
    by (intro served_client.intro lfs_files.served_files_axioms served_client_axioms.intro assms(1))
  have "coherent (lfs_content root) w" using assms(4) by (simp add: coherent_def)
  then have "coherent (lfs_content root) w'"
    using served_client.steps_coherent [OF c assms(3) _ assms(5,2)] by blast
  from served_client.window_read_exact [OF c this assms(6-10,2)] show ?thesis .
qed

lemma read_ahead_transparent_witness:
  "fst (hf_ReadAt (demo_client False) 0 5 1
      (snd (hfs_OpenFile (demo_client False) (ascii ''a'') O_RDONLY 0 demo_hworld))) = ([2, 3], Some EOF)"
proof -
  let ?C = "demo_client False" and ?F = "localFS Linux (Inr (4096, 1000, 500)) srv_root"
  let ?w = "snd (hfs_OpenFile ?C (ascii ''a'') O_RDONLY 0 demo_hworld)"
  have r: "resolve srv_root (ascii ''a'') = Inr (ascii ''/srv/a'')"
    and q: "os_path (ascii ''/srv/a'') = [ascii ''srv'', ascii ''a'']" by code_simp+
  note r = r [simplified] and q = q [simplified]
  have s: "fs_Stat ?F (ascii ''a'') demo_osw =
      (Inr (node_info (ascii ''a'') (FileNode 0) demo_osw), demo_osw)"
    by (simp add: localFS_def lfs_Stat_def r q os_Stat_def os_node_def demo_osw_def base_name_def)
  have "hfs_OpenFile ?C (ascii ''a'') O_RDONLY 0 demo_hworld = map_prod Inr id (new_hfile (ascii ''a'') demo_hworld)"
    by (subst remote_OpenFile_plain [OF demo_client_joined])
      (use s in \<open>simp_all add: demo_hworld_def node_info_def\<close>)
  then have w: "?w = snd (new_hfile (ascii ''a'') demo_hworld)" by simp
  have "(client_step ?C ^^ 1) demo_hworld ?w" by (subst relpowp_1) (rule do_OpenFile)
  moreover have "hw_files ?w 0 = Some \<lparr>hf_path = ascii ''a'', hf_win = None, hf_winOff = 0, hf_winGen = 0, hf_winEOF = False\<rparr>"
    unfolding w by (simp add: new_hfile_def demo_hworld_def Let_def)
  moreover have "lfs_content srv_root (hw_net ?w) (ascii ''a'') = Some [1, 2, 3]"
    unfolding w by (simp add: new_hfile_def demo_hworld_def Let_def lfs_content_def r q os_node_def demo_osw_def)
  ultimately show ?thesis
    using read_ahead_transparent [OF demo_client_joined, of 1 demo_hworld ?w 0 _ "[1, 2, 3]" 1 5]
    by (simp add: demo_client_def served_by_def demo_hworld_def)
qed

lemma fetch_clamped:
  assumes "joined P opt F C" and "int k < 2 ^ 63" and "0 \<le> sint off"
  shows "fetch C p k off w =
    (case fs_OpenFile F p O_RDONLY 0 (hw_net w) of
       (Inl e, n) \<Rightarrow> (([], Some (remote_error P e)), w\<lparr>hw_net := n\<rparr>)
     | (Inr h, n) \<Rightarrow>
         let ((buf, err), n) = f_ReadAt F h (min k maxReadChunk) off n; n = snd (f_Close F h n)
         in (if err = None \<or> err = Some EOF then (take k buf, if length buf < k then Some EOF else None)
             else ([], Some (remote_error P (the err))), w\<lparr>hw_net := n\<rparr>))"
  using assms(2,3) sint_i64 [of off]
  by (simp add: fetch_def http_get_def client_routes [OF assms(1)] query_defs p_read_def Let_def body_bytes_def
      split: prod.split sum.split)

text \<open>
  A read-ahead larger than the provider's \<open>maxReadChunk\<close> breaks it: the provider answers at most
  that much, the client takes the short answer for the end of the file, and a later read that
  crosses the end of the window returns fewer bytes with \<open>io.EOF\<close> in the middle of the file.
\<close>

theorem read_ahead_too_large:
  assumes "joined P opt (localFS goos st root) C" and "int maxReadChunk < hc_readAhead C"
    and "hc_readAhead C < 2 ^ 63" and "hw_files w h = Some f" and "hf_win f = None"
    and "lfs_content root (hw_net w) (hf_path f) = Some b" and "maxReadChunk < length b"
  shows "fst (hf_ReadAt C h 2 (of_nat (maxReadChunk - 1)) (snd (hf_ReadAt C h 1 0 w))) =
    ([b ! (maxReadChunk - 1)], Some EOF)"
proof -
  let ?a = "nat (hc_readAhead C)" and ?F = "localFS goos st root" and ?d = "take maxReadChunk b"
  have a: "maxReadChunk < ?a" "int ?a = hc_readAhead C" using assms(2) by simp_all
  obtain fh n1 where o: "fs_OpenFile ?F (hf_path f) O_RDONLY 0 (hw_net w) = (Inr fh, n1)"
    and r: "fst (f_ReadAt ?F fh maxReadChunk 0 n1) = (?d, None)"
    using lfs_files.readable [OF assms(6), of 0 goos st maxReadChunk] assms(7) by auto
  obtain n2 where r2: "f_ReadAt ?F fh maxReadChunk 0 n1 = ((?d, None), n2)"
    using r by (metis prod.collapse)
  let ?w = "w\<lparr>hw_net := snd (f_Close ?F fh n2)\<rparr>"
  let ?f = "f\<lparr>hf_win := Some ?d, hf_winOff := 0, hf_winGen := hw_gen w, hf_winEOF := True\<rparr>"
  have k: "int ?a < 2 ^ 63" "min ?a maxReadChunk = maxReadChunk" "take ?a ?d = ?d" "length ?d < ?a"
    using a assms(3,7) by simp_all
  have e: "fetch C (hf_path f) ?a 0 w = ((?d, Some EOF), ?w)"
    using fetch_clamped [OF assms(1) k(1), of 0 "hf_path f" w] unfolding o k(2)
    by (simp add: r2 k(3,4) del: take_take length_take)
  have n: "from_window f (hw_gen w) 1 0 = None" by (simp add: from_window_def assms(5))
  have ra: "\<not> (hc_readAhead C \<le> 0 \<or> int 1 \<ge> hc_readAhead C)" "\<not> (hc_readAhead C \<le> 0 \<or> int 2 \<ge> hc_readAhead C)"
    using assms(2) by simp_all
  have w1: "snd (hf_ReadAt C h 1 0 w) = ?w\<lparr>hw_files := (hw_files w)(h := Some ?f)\<rparr>"
    unfolding hf_ReadAt_def assms(4) option.case if_not_P [OF ra(1)] Let_def n e by simp
  have "length ?d = maxReadChunk" using assms(7) by simp
  moreover have "take 2 (drop (maxReadChunk - 1) ?d) = [b ! (maxReadChunk - 1)]"
    using assms(7) by (simp add: drop_take take_Suc_conv_app_nth Cons_nth_drop_Suc [symmetric])
  ultimately have "from_window ?f (hw_gen w) 2 (of_nat (maxReadChunk - 1)) = Some ([b ! (maxReadChunk - 1)], Some EOF)"
    by (simp add: from_window_def Let_def)
  then show ?thesis
    unfolding w1 using assms(2) by (simp add: hf_ReadAt_def)
qed

definition demo_big :: "osw hworld" where
  "demo_big = snd (new_hfile (ascii ''a'') (demo_hworld\<lparr>hw_net := set_bytes 0 (replicate (maxReadChunk + 2) 7) demo_osw\<rparr>))"

lemma read_ahead_too_large_witness:
  "let C = demo_client False\<lparr>hc_readAhead := 0x1000000\<rparr>
   in fst (hf_ReadAt C 0 2 (of_nat (maxReadChunk - 1)) (snd (hf_ReadAt C 0 1 0 demo_big))) = ([7], Some EOF)"
proof -
  let ?C = "demo_client False\<lparr>hc_readAhead := 0x1000000\<rparr>"
  let ?b = "replicate (maxReadChunk + 2) (7 :: byte)"
  have r: "resolve srv_root (ascii ''a'') = Inr (ascii ''/srv/a'')"
    and q: "os_path (ascii ''/srv/a'') = [ascii ''srv'', ascii ''a'']" by code_simp+
  note r = r [simplified] and q = q [simplified]
  have j: "joined Linux \<lparr>po_Name = [], po_ReadOnly = False, po_Token = []\<rparr>
      (localFS Linux (Inr (4096, 1000, 500)) srv_root) ?C"
    using demo_client_joined by (simp add: joined_def)
  have f: "hw_files demo_big 0 = Some \<lparr>hf_path = ascii ''a'', hf_win = None, hf_winOff = 0, hf_winGen = 0, hf_winEOF = False\<rparr>"
    by (simp add: demo_big_def new_hfile_def demo_hworld_def Let_def)
  have "lfs_content srv_root (hw_net demo_big) (ascii ''a'') = Some ?b"
    by (simp add: demo_big_def new_hfile_def demo_hworld_def Let_def lfs_content_def r q os_node_def demo_osw_def
        set_bytes_def set_data_def del: replicate_add replicate_Suc)
  then have "lfs_content srv_root (hw_net demo_big) (hf_path \<lparr>hf_path = ascii ''a'', hf_win = None, hf_winOff = 0,
      hf_winGen = 0, hf_winEOF = False\<rparr>) = Some ?b" by (simp only: hfile.select_convs)
  from read_ahead_too_large [OF j _ _ f _ this] have
    "fst (hf_ReadAt ?C 0 2 (of_nat (maxReadChunk - 1)) (snd (hf_ReadAt ?C 0 1 0 demo_big))) =
      ([?b ! (maxReadChunk - 1)], Some EOF)" by (simp del: replicate_add replicate_Suc)
  moreover have "?b ! (maxReadChunk - 1) = 7" by (rule nth_replicate) simp
  ultimately show ?thesis unfolding Let_def by (simp only:)
qed

end
