(* ===== verification/Pipeline.thy ===== *)
theory Pipeline
  imports Connection "HOL-Library.Sublist"
begin

text \<open>
  The two goroutines of \<open>conn.serve\<close> in \<open>internal/smb/server.go\<close>: the reader, which dispatches
  requests and hands each response to the channel \<open>outbound\<close>, and the writer, which puts them on
  the wire. \<open>Server\<close> runs them as one loop; here they are the steps of a transition relation,
  and the lemmas show that what reaches the wire is the same.
\<close>

section \<open>States and steps\<close>

abbreviation outboundDepth :: nat where "outboundDepth \<equiv> 8"

text \<open>
  \<open>Holding m\<close>: the reader has the response \<open>m\<close> in hand for the channel; \<open>Waiting\<close>: \<open>outbound\<close> is closed and it
  waits on \<open>writerDone\<close>. \<open>pp_conn\<close> is the connection the reader works on, \<open>pp_open\<close> says that the
  socket is. Three fields are history: \<open>pp_in\<close>, the bytes that were read, \<open>pp_handed\<close>, the
  responses handed over, and \<open>pp_broken\<close>, a write has failed.
\<close>

datatype reader = Reading | Holding bytes | Waiting | Returned

datatype writer = Writing | Draining | Ended

record 'w pipe =
  pp_conn :: "'w conn"
  pp_in :: bytes
  pp_handed :: "bytes list"
  pp_chan :: "bytes list"
  pp_wire :: bytes
  pp_open :: bool
  pp_reader :: reader
  pp_writer :: writer
  pp_broken :: bool

definition pipe_start :: "'w conn \<Rightarrow> 'w pipe" where
  "pipe_start s =
    \<lparr>pp_conn = s, pp_in = [], pp_handed = [], pp_chan = [], pp_wire = [], pp_open = True, pp_reader = Reading,
     pp_writer = Writing, pp_broken = False\<rparr>"

text \<open>The body of the reader's loop for a message.\<close>

definition after_message :: "'w server \<Rightarrow> bytes \<Rightarrow> 'w pipe \<Rightarrow> 'w pipe" where
  "after_message S msg c =
    (if length msg < smb2HeaderSize then c
     else
       (case dispatch S msg (pp_conn c) of
          (Inl _, s) \<Rightarrow> c\<lparr>pp_conn := s, pp_reader := Waiting\<rparr>
        | (Inr None, s) \<Rightarrow> c\<lparr>pp_conn := s\<rparr>
        | (Inr (Some m), s) \<Rightarrow> c\<lparr>pp_conn := s, pp_reader := Holding m\<rparr>))"

text \<open>What a failed write may have put on the wire.\<close>

definition partial_write :: "bytes \<Rightarrow> bytes \<Rightarrow> bool" where
  "partial_write m p \<longleftrightarrow> (case writeMessage m of Inl _ \<Rightarrow> p = [] | Inr w \<Rightarrow> prefix p w)"

text \<open>
  The peer may send any frame \<open>f\<close> at any time, for as long as the socket is open, and stop at any time
  (or send what is no frame); the socket may be closed at any time, by \<open>Shutdown\<close>.
\<close>

inductive pipe_step :: "'w server \<Rightarrow> 'w pipe \<Rightarrow> 'w pipe \<Rightarrow> bool" for S :: "'w server" where
  receive:
    "pp_reader c = Reading \<Longrightarrow> pp_open c \<Longrightarrow> readMessage f = Inr (msg, []) \<Longrightarrow>
     pipe_step S c (after_message S msg (c\<lparr>pp_in := pp_in c @ f\<rparr>))"
| hand_over:
    "pp_reader c = Holding m \<Longrightarrow> length (pp_chan c) < outboundDepth \<Longrightarrow>
     pipe_step S c (c\<lparr>pp_reader := Reading, pp_handed := pp_handed c @ [m], pp_chan := pp_chan c @ [m]\<rparr>)"
| read_ends:
    "pp_reader c = Reading \<Longrightarrow> pipe_step S c (c\<lparr>pp_reader := Waiting\<rparr>)"
| wrote:
    "pp_writer c = Writing \<Longrightarrow> pp_chan c = m # q \<Longrightarrow> pp_open c \<Longrightarrow> writeMessage m = Inr w \<Longrightarrow>
     pipe_step S c (c\<lparr>pp_chan := q, pp_wire := pp_wire c @ w\<rparr>)"
| write_fails:
    "pp_writer c = Writing \<Longrightarrow> pp_chan c = m # q \<Longrightarrow> partial_write m p \<Longrightarrow>
     pipe_step S c (c\<lparr>pp_chan := q, pp_wire := pp_wire c @ p, pp_open := False, pp_writer := Draining,
       pp_broken := True\<rparr>)"
| drain:
    "pp_writer c = Draining \<Longrightarrow> pp_chan c = m # q \<Longrightarrow> pipe_step S c (c\<lparr>pp_chan := q\<rparr>)"
| write_ends:
    "pp_writer c \<noteq> Ended \<Longrightarrow> pp_reader c = Waiting \<Longrightarrow> pp_chan c = [] \<Longrightarrow>
     pipe_step S c (c\<lparr>pp_writer := Ended\<rparr>)"
| left:
    "pp_reader c = Waiting \<Longrightarrow> pp_writer c = Ended \<Longrightarrow>
     pipe_step S c (c\<lparr>pp_reader := Returned, pp_conn := closeAllHandles order (pp_conn c), pp_open := False\<rparr>)"
| closed:
    "pp_open c \<Longrightarrow> pipe_step S c (c\<lparr>pp_open := False\<rparr>)"

section \<open>What is on the wire\<close>

lemma write_messages_append:
  "write_messages (xs @ ys) =
    (case write_messages xs of Inl e \<Rightarrow> Inl e | Inr u \<Rightarrow> map_sum id ((@) u) (write_messages ys))"
proof (induction xs)
  case Nil
  then show ?case by (cases "write_messages ys") simp_all
next
  case (Cons x xs)
  then show ?case by (cases "write_messages ys") (auto split: sum.split)
qed

lemma written_prefix:
  assumes "write_messages (xs @ m # ys) = Inr w" and "write_messages xs = Inr u" and "partial_write m p"
  shows "prefix (u @ p) w"
  using assms
  by (cases "write_messages ys")
    (auto simp: write_messages_append partial_write_def prefix_def split: sum.splits)

lemma write_partial: "writeMessage m = Inr w \<Longrightarrow> partial_write m w"
  by (simp add: partial_write_def)

lemma write_messages_front:
  "write_messages (xs @ ys) = Inr w \<Longrightarrow> \<exists>u. write_messages xs = Inr u \<and> prefix u w"
  by (cases "write_messages ys") (auto simp: write_messages_append prefix_def split: sum.splits)

text \<open>
  The responses that were handed over are on the wire or in the channel, in this order, until a write
  fails; then the wire stays a prefix of them, framed.
\<close>

definition wire_ok :: "'w pipe \<Rightarrow> bool" where
  "wire_ok c \<longleftrightarrow>
    length (pp_chan c) \<le> outboundDepth \<and>
    (\<not> pp_broken c \<longrightarrow> (\<exists>sent. pp_handed c = sent @ pp_chan c \<and> write_messages sent = Inr (pp_wire c))) \<and>
    (\<forall>w. write_messages (pp_handed c) = Inr w \<longrightarrow> prefix (pp_wire c) w) \<and>
    (pp_broken c \<longrightarrow> pp_writer c \<noteq> Writing \<and> \<not> pp_open c) \<and> (pp_writer c = Draining \<longrightarrow> pp_broken c) \<and>
    (pp_writer c = Ended \<longrightarrow> pp_chan c = [] \<and> pp_reader c \<in> {Waiting, Returned}) \<and>
    (pp_reader c = Returned \<longrightarrow> pp_writer c = Ended \<and> \<not> pp_open c \<and> cn_handles (pp_conn c) = [])"

lemma wire_start_ok: "wire_ok (pipe_start s)"
  by (simp add: wire_ok_def pipe_start_def)

lemma after_message_fields [simp]:
  "pp_in (after_message S msg c) = pp_in c" "pp_handed (after_message S msg c) = pp_handed c"
  "pp_chan (after_message S msg c) = pp_chan c" "pp_wire (after_message S msg c) = pp_wire c"
  "pp_open (after_message S msg c) = pp_open c" "pp_writer (after_message S msg c) = pp_writer c"
  "pp_broken (after_message S msg c) = pp_broken c"
  by (simp_all add: after_message_def split: prod.split sum.split option.split)

lemma after_message_reader:
  "pp_reader c = Reading \<Longrightarrow> pp_reader (after_message S msg c) \<noteq> Returned"
  by (simp add: after_message_def split: prod.split sum.split option.split)

lemma wire_step_ok:
  assumes "pipe_step S c c'" and "wire_ok c"
  shows "wire_ok c'"
  using assms
proof cases
  case (receive f msg)
  then show ?thesis using assms(2) after_message_reader [of "c\<lparr>pp_in := pp_in c @ f\<rparr>" S msg] by (auto simp: wire_ok_def)
next
  case (hand_over m)
  have "prefix (pp_wire c) w" if "write_messages (pp_handed c @ [m]) = Inr w" for w
    using write_messages_front [OF that] assms(2) by (auto simp: wire_ok_def intro: prefix_order.trans)
  then show ?thesis using assms(2) hand_over by (auto simp: wire_ok_def)
next
  case (wrote m q w)
  then have nb: "\<not> pp_broken c" using assms(2) by (auto simp: wire_ok_def)
  then obtain sent where d: "pp_handed c = sent @ m # q" "write_messages sent = Inr (pp_wire c)"
    using assms(2) wrote(3) by (auto simp: wire_ok_def)
  have "write_messages (sent @ [m]) = Inr (pp_wire c @ w)"
    using d(2) wrote(5) by (simp add: write_messages_append)
  moreover have "pp_handed c = (sent @ [m]) @ q" using d(1) by simp
  moreover have "prefix (pp_wire c @ w) v" if "write_messages (pp_handed c) = Inr v" for v
    using written_prefix [of sent m q v] that d write_partial [OF wrote(5)] by simp
  ultimately show ?thesis using assms(2) nb wrote by (auto simp: wire_ok_def)
next
  case (write_fails m q p)
  then have nb: "\<not> pp_broken c" using assms(2) by (auto simp: wire_ok_def)
  then obtain sent where d: "pp_handed c = sent @ m # q" "write_messages sent = Inr (pp_wire c)"
    using assms(2) write_fails(3) by (auto simp: wire_ok_def)
  have "prefix (pp_wire c @ p) v" if "write_messages (pp_handed c) = Inr v" for v
    using written_prefix [of sent m q v] that d write_fails(4) by simp
  then show ?thesis using assms(2) write_fails by (auto simp: wire_ok_def)
next
  case (left order)
  then show ?thesis using assms(2) by (auto simp: wire_ok_def closeAllHandles_def Let_def)
qed (auto simp: wire_ok_def)

lemma wire_steps_ok: "(pipe_step S)\<^sup>*\<^sup>* c c' \<Longrightarrow> wire_ok c \<Longrightarrow> wire_ok c'"
  by (induction rule: rtranclp_induct) (auto intro: wire_step_ok)

section \<open>The reader is the loop of the server\<close>

lemma readMessage_append:
  assumes "readMessage f = Inr (msg, [])"
  shows "readMessage (f @ rest) = Inr (msg, rest)"
proof -
  have rf: "ReadFull n r = Inr (x, y) \<Longrightarrow> ReadFull n (r @ rest) = Inr (x, y @ rest)" for n r x y
    by (auto simp: ReadFull_def split: if_splits)
  obtain hdr r where h: "ReadFull 4 f = Inr (hdr, r)"
    using assms by (cases "ReadFull 4 f") (auto simp: readMessage_def)
  show ?thesis
    using assms rf [of _ r msg "[]"] unfolding readMessage_def h rf [OF h] sum.case prod.case Let_def
    by (simp split: if_splits)
qed

lemma serve_loop_empty: "serve_loop S [] outs s = (outs, s)"
  by (subst serve_loop.simps) (simp add: readMessage_def ReadFull_def)

definition held :: "reader \<Rightarrow> bytes list" where
  "held r = (case r of Holding m \<Rightarrow> [m] | _ \<Rightarrow> [])"

text \<open>
  As long as the reader reads, the loop of \<open>serve\<close> on what was read goes on from where the reader is;
  afterwards it has come to its end on it.
\<close>

definition reader_ok :: "'w server \<Rightarrow> 'w conn \<Rightarrow> 'w pipe \<Rightarrow> bool" where
  "reader_ok S s c \<longleftrightarrow>
    (case pp_reader c of
       Waiting \<Rightarrow> serve_loop S (pp_in c) [] s = (pp_handed c, pp_conn c)
     | Returned \<Rightarrow> \<exists>s1 order. serve_loop S (pp_in c) [] s = (pp_handed c, s1) \<and> pp_conn c = closeAllHandles order s1
     | r \<Rightarrow> \<forall>rest. serve_loop S (pp_in c @ rest) [] s = serve_loop S rest (pp_handed c @ held r) (pp_conn c))"

lemma reader_start_ok: "reader_ok S s (pipe_start s)"
  by (simp add: reader_ok_def pipe_start_def held_def)

lemma reader_step_ok:
  assumes "pipe_step S c c'" and ok: "reader_ok S s c"
  shows "reader_ok S s c'"
  using assms(1)
proof cases
  case (receive f msg)
  let ?c = "c\<lparr>pp_in := pp_in c @ f\<rparr>"
  have go: "serve_loop S ((pp_in c @ f) @ rest) [] s =
      (if length msg < smb2HeaderSize then serve_loop S rest (pp_handed c) (pp_conn c)
       else case dispatch S msg (pp_conn c) of
          (Inl _, s) \<Rightarrow> (pp_handed c, s)
        | (Inr out, s) \<Rightarrow> serve_loop S rest (case out of Some m \<Rightarrow> pp_handed c @ [m] | None \<Rightarrow> pp_handed c) s)" for rest
  proof -
    have "serve_loop S (pp_in c @ (f @ rest)) [] s = serve_loop S (f @ rest) (pp_handed c) (pp_conn c)"
      using ok receive(2) by (simp add: reader_ok_def held_def)
    then show ?thesis by (subst (asm) (2) serve_loop.simps) (simp add: readMessage_append [OF receive(4)])
  qed
  show ?thesis
    using go [of "[]"] go receive(2)
    by (auto simp: receive(1) reader_ok_def after_message_def held_def split: prod.splits sum.splits option.splits)
next
  case (hand_over m)
  then show ?thesis using ok by (simp add: reader_ok_def held_def)
next
  case read_ends
  then show ?thesis using ok by (auto simp: reader_ok_def held_def serve_loop_empty dest: spec [of _ "[]"])
next
  case (left order)
  then show ?thesis using ok by (auto simp: reader_ok_def)
qed (use ok in \<open>auto simp: reader_ok_def split: reader.splits\<close>)

lemma reader_steps_ok: "(pipe_step S)\<^sup>*\<^sup>* c c' \<Longrightarrow> reader_ok S s c \<Longrightarrow> reader_ok S s c'"
  by (induction rule: rtranclp_induct) (auto intro: reader_step_ok)

lemma reader_serves:
  assumes "reader_ok S s c"
  shows "fst (serve S (pp_in c) order s) = pp_handed c @ held (pp_reader c)"
    and "pp_reader c = Returned \<Longrightarrow> \<exists>order. pp_conn c = snd (serve S (pp_in c) order s)"
proof -
  have "serve_loop S (pp_in c) [] s = (pp_handed c @ held (pp_reader c), pp_conn c)" if "pp_reader c \<noteq> Returned"
    using assms that
    by (cases "pp_reader c") (auto simp: reader_ok_def held_def serve_loop_empty dest: spec [of _ "[]"])
  then show "fst (serve S (pp_in c) order s) = pp_handed c @ held (pp_reader c)"
    using assms by (cases "pp_reader c = Returned") (auto simp: serve_def reader_ok_def held_def)
  show "pp_reader c = Returned \<Longrightarrow> \<exists>order. pp_conn c = snd (serve S (pp_in c) order s)"
    using assms by (auto simp: serve_def reader_ok_def)
qed

section \<open>Progress\<close>

lemma pipe_progress:
  assumes "wire_ok c" and "pp_reader c \<noteq> Returned"
  shows "\<exists>c'. pipe_step S c c'"
proof (cases "pp_chan c")
  case Nil
  then show ?thesis
    using assms(2) read_ends [of c S] hand_over [of c _ S] write_ends [of c S] left [of c S]
    by (cases "pp_reader c"; cases "pp_writer c = Ended") auto
next
  case (Cons m q)
  then have "pp_writer c \<noteq> Ended" using assms(1) by (auto simp: wire_ok_def)
  moreover have "partial_write m []" by (simp add: partial_write_def split: sum.split)
  ultimately show ?thesis using Cons write_fails drain by (cases "pp_writer c") blast+
qed

text \<open>
  Once the reader gets no more messages, every step uses up a response, a state of a goroutine or
  the socket.
\<close>

definition no_more :: "'w pipe \<Rightarrow> bool" where
  "no_more c \<longleftrightarrow> \<not> pp_open c \<or> pp_reader c \<in> {Waiting, Returned}"

fun reader_rank :: "reader \<Rightarrow> nat" where
  "reader_rank (Holding m) = 4" | "reader_rank Reading = 2" | "reader_rank Waiting = 1" | "reader_rank Returned = 0"

fun writer_rank :: "writer \<Rightarrow> nat" where
  "writer_rank Writing = 2" | "writer_rank Draining = 1" | "writer_rank Ended = 0"

definition pipe_rank :: "'w pipe \<Rightarrow> nat" where
  "pipe_rank c = length (pp_chan c) + reader_rank (pp_reader c) + writer_rank (pp_writer c) + (if pp_open c then 1 else 0)"

lemma no_more_step: "pipe_step S c c' \<Longrightarrow> no_more c \<Longrightarrow> no_more c' \<and> pipe_rank c' < pipe_rank c"
  by (induction rule: pipe_step.induct)
    (auto simp: no_more_def pipe_rank_def intro: gr0I split: writer.split elim!: writer_rank.elims)

lemma no_more_runs_end:
  assumes "no_more (f 0)" and "\<forall>i. pipe_step S (f i) (f (Suc i))"
  shows False
proof -
  have n: "no_more (f i)" for i using assms no_more_step by (induction i) blast+
  have "pipe_rank (f (Suc i)) < pipe_rank (f i)" for i using no_more_step assms(2) n by blast
  moreover have "wf (measure pipe_rank :: ('a pipe \<times> 'a pipe) set)" by (rule wf_measure)
  ultimately show False unfolding wf_iff_no_infinite_down_chain by (meson in_measure)
qed

text \<open>
  The phases of the writer are ordered, and a step never goes back; a writer that has met an error, or
  has ended, puts nothing more on the wire.
\<close>

lemma rank_eq: "writer_rank s = writer_rank s' \<longleftrightarrow> s = s'"
  by (cases s; cases s'; simp)

instantiation writer :: linorder
begin

definition less_eq_writer :: "writer \<Rightarrow> writer \<Rightarrow> bool" where
  "s \<le> s' \<longleftrightarrow> writer_rank s' \<le> writer_rank s"

definition less_writer :: "writer \<Rightarrow> writer \<Rightarrow> bool" where
  "s < s' \<longleftrightarrow> writer_rank s' < writer_rank s"

instance
  by intro_classes (auto simp: less_eq_writer_def less_writer_def simp flip: rank_eq)

end

lemma pipe_step_phases: "pipe_step S c c' \<Longrightarrow> pp_writer c \<le> pp_writer c'"
  by (induction rule: pipe_step.induct) (auto simp: less_eq_writer_def)

lemma pipe_steps_phases: "(pipe_step S)\<^sup>*\<^sup>* c c' \<Longrightarrow> pp_writer c \<le> pp_writer c'"
  by (induction rule: rtranclp_induct) (auto dest: pipe_step_phases)

lemma silent_writer:
  "(pipe_step S)\<^sup>*\<^sup>* c c' \<Longrightarrow> Writing < pp_writer c \<Longrightarrow> pp_wire c' = pp_wire c"
proof (induction rule: rtranclp_induct)
  case (step d e)
  have "Writing < pp_writer d" using step pipe_steps_phases [OF step(1)] by (meson less_le_trans)
  with step(2) have "pp_wire e = pp_wire d" by cases (auto simp: less_writer_def)
  with step show ?case by simp
qed simp

section \<open>Properties\<close>

text \<open>
  C14. However reader, writer and peer are interleaved, and however much the peer sends: with the responses
  that \<open>serve\<close> gives to the bytes read so far, the wire holds a prefix of them, framed and in
  order, never more than \<open>outboundDepth\<close> of them wait, and a connection that has not ended can
  go on; once it has ended, with no write failed, every response is on the wire, and the
  connection is as \<open>serve\<close> leaves it; after a failed write nothing more is sent.
\<close>

theorem responses_in_order:
  assumes "(pipe_step S)\<^sup>*\<^sup>* (pipe_start s) c" and "serve S (pp_in c) order s = (outs, s')"
    and "write_messages outs = Inr w"
  shows "prefix (pp_wire c) w \<and> length (pp_chan c) \<le> outboundDepth \<and>
    ((\<exists>c'. pipe_step S c c') \<or> pp_reader c = Returned) \<and>
    (pp_reader c \<noteq> Returned \<or>
      (pp_broken c \<or> pp_wire c = w) \<and> (\<exists>order. pp_conn c = snd (serve S (pp_in c) order s))) \<and>
    (pp_broken c \<longrightarrow> (\<forall>c'. (pipe_step S)\<^sup>*\<^sup>* c c' \<longrightarrow> pp_wire c' = pp_wire c))"
proof -
  have ok: "wire_ok c" by (rule wire_steps_ok [OF assms(1) wire_start_ok])
  have r: "reader_ok S s c" by (rule reader_steps_ok [OF assms(1) reader_start_ok])
  have outs: "outs = pp_handed c @ held (pp_reader c)" using reader_serves(1) [OF r, of order] assms(2) by simp
  obtain u where u: "write_messages (pp_handed c) = Inr u" "prefix u w"
    using write_messages_front assms(3) unfolding outs by blast
  have "prefix (pp_wire c) w" "length (pp_chan c) \<le> outboundDepth"
    using ok u by (auto simp: wire_ok_def intro: prefix_order.trans)
  moreover have "pp_broken c \<or> pp_wire c = w" if "pp_reader c = Returned"
    using ok that assms(3) by (auto simp: outs held_def wire_ok_def)
  moreover have "Writing < pp_writer c" if "pp_broken c"
    using ok that by (cases "pp_writer c") (auto simp: wire_ok_def less_writer_def)
  then have "pp_broken c \<longrightarrow> (\<forall>c'. (pipe_step S)\<^sup>*\<^sup>* c c' \<longrightarrow> pp_wire c' = pp_wire c)"
    using silent_writer by blast
  ultimately show ?thesis using pipe_progress [OF ok] reader_serves(2) [OF r] by blast
qed

text \<open>
  C15. A connection ends: once the peer has stopped sending, or the socket was closed (by \<open>Shutdown\<close>, or
  after a failed write), the goroutines cannot go on for ever, and wherever they stop both have
  returned, with the channel empty, the socket closed and every open of the connection closed.
\<close>

theorem connection_ends:
  assumes "(pipe_step S)\<^sup>*\<^sup>* (pipe_start s) c" and "\<not> pp_open c \<or> pp_reader c \<in> {Waiting, Returned}"
  shows "\<not> (\<exists>f. f 0 = c \<and> (\<forall>i. pipe_step S (f i) (f (Suc i)))) \<and>
    (\<forall>c'. (pipe_step S)\<^sup>*\<^sup>* c c' \<longrightarrow> (\<exists>c''. pipe_step S c' c'') \<or>
      pp_reader c' = Returned \<and> pp_writer c' = Ended \<and> pp_chan c' = [] \<and> \<not> pp_open c' \<and> cn_handles (pp_conn c') = [])"
proof (intro conjI allI impI)
  have "no_more c" using assms(2) by (simp add: no_more_def)
  then show "\<not> (\<exists>f. f 0 = c \<and> (\<forall>i. pipe_step S (f i) (f (Suc i))))" using no_more_runs_end by blast
  fix c' assume "(pipe_step S)\<^sup>*\<^sup>* c c'"
  then have ok: "wire_ok c'" using wire_steps_ok [OF rtranclp_trans [OF assms(1)] wire_start_ok] by blast
  have "pp_reader c' = Returned \<Longrightarrow> pp_writer c' = Ended \<and> pp_chan c' = [] \<and> \<not> pp_open c' \<and> cn_handles (pp_conn c') = []"
    using ok by (auto simp: wire_ok_def)
  then show "(\<exists>c''. pipe_step S c' c'') \<or>
      pp_reader c' = Returned \<and> pp_writer c' = Ended \<and> pp_chan c' = [] \<and> \<not> pp_open c' \<and> cn_handles (pp_conn c') = []"
    using pipe_progress [OF ok] by blast
qed

text \<open>A connection with one request, an SMB1 negotiate, from its first step to its last.\<close>

definition demo_smb1 :: bytes where
  "demo_smb1 = [0, 0, 0, 64, 0xFF, 0x53, 0x4D, 0x42, 0x72] @ mk 59"

lemma demo_smb1_read: "readMessage demo_smb1 = Inr ([0xFF, 0x53, 0x4D, 0x42, 0x72] @ mk 59, [])"
  using readMessage_frame [of "[0xFF, 0x53, 0x4D, 0x42, 0x72] @ mk 59" demo_smb1 "[]"]
  by (simp add: writeMessage_def Let_def demo_smb1_def drop_bit_eq_div)

lemma demo_smb1_dispatched:
  "\<exists>m s'. dispatch (demo_server [] []) ([0xFF, 0x53, 0x4D, 0x42, 0x72] @ mk 59) (newConn 0 0 ()) = (Inr (Some m), s') \<and>
     length m = 128"
proof -
  obtain r s1 where n: "smb1NegotiateResponse (demo_server [] []) (newConn 0 0 ()) = (r, s1)" by (metis surj_pair)
  then have "length r = 128" by (auto simp: smb1NegotiateResponse_def Let_def split: prod.splits)
  then show ?thesis by (simp add: dispatch_def n slice_def)
qed

lemma one_response:
  assumes "dispatch S msg s = (Inr (Some m), s')" and "readMessage f = Inr (msg, [])" and "smb2HeaderSize \<le> length msg"
    and "writeMessage m = Inr w"
  shows "(pipe_step S)\<^sup>*\<^sup>* (pipe_start s) \<lparr>pp_conn = s', pp_in = f, pp_handed = [m], pp_chan = [], pp_wire = w,
     pp_open = True, pp_reader = Waiting, pp_writer = Writing, pp_broken = False\<rparr>"
proof -
  note steps = converse_rtranclp_into_rtranclp
  let ?c = "\<lparr>pp_conn = s', pp_in = f, pp_handed = [m], pp_chan = [], pp_wire = w, pp_open = True,
     pp_reader = Waiting, pp_writer = Writing, pp_broken = False\<rparr>"
  let ?c1 = "\<lparr>pp_conn = s', pp_in = f, pp_handed = [], pp_chan = [], pp_wire = [], pp_open = True, pp_reader = Holding m,
     pp_writer = Writing, pp_broken = False\<rparr>"
  have "after_message S msg ((pipe_start s)\<lparr>pp_in := pp_in (pipe_start s) @ f\<rparr>) = ?c1"
    using assms(1,3) by (simp add: after_message_def pipe_start_def)
  then have "pipe_step S (pipe_start s) ?c1"
    using receive [of "pipe_start s" f msg S] assms(2) by (simp add: pipe_start_def)
  moreover have "(pipe_step S)\<^sup>*\<^sup>* ?c1 ?c"
    by (rule steps, rule hand_over, simp, simp, simp, rule steps, rule wrote, simp, simp, simp,
      rule assms(4), simp, rule steps, rule read_ends, simp) simp
  ultimately show ?thesis by (rule converse_rtranclp_into_rtranclp)
qed

lemma one_response_ends:
  "(pipe_step S)\<^sup>*\<^sup>* \<lparr>pp_conn = s', pp_in = f, pp_handed = hs, pp_chan = [], pp_wire = w,
     pp_open = True, pp_reader = Waiting, pp_writer = Writing, pp_broken = False\<rparr>
   \<lparr>pp_conn = closeAllHandles [] s', pp_in = f, pp_handed = hs, pp_chan = [], pp_wire = w,
     pp_open = False, pp_reader = Returned, pp_writer = Ended, pp_broken = False\<rparr>"
proof -
  note steps = converse_rtranclp_into_rtranclp
  show ?thesis by (rule steps, rule write_ends, simp, simp, simp, rule steps, rule left [where order = "[]"], simp, simp) simp
qed

lemma demo_smb1_run:
  obtains m w s' where "writeMessage m = Inr w"
    and "(pipe_step (demo_server [] []))\<^sup>*\<^sup>* (pipe_start (newConn 0 0 ())) \<lparr>pp_conn = s', pp_in = demo_smb1,
     pp_handed = [m], pp_chan = [], pp_wire = w, pp_open = True, pp_reader = Waiting, pp_writer = Writing, pp_broken = False\<rparr>"
proof -
  obtain m s' where d: "dispatch (demo_server [] []) ([0xFF, 0x53, 0x4D, 0x42, 0x72] @ mk 59) (newConn 0 0 ()) = (Inr (Some m), s')"
    and l: "length m = 128" using demo_smb1_dispatched by blast
  obtain w where w: "writeMessage m = Inr w" using l by (auto simp: writeMessage_def Let_def)
  show thesis by (rule that [OF w one_response [OF d demo_smb1_read _ w]]) simp
qed

lemma responses_in_order_witness:
  "\<exists>c w. (pipe_step (demo_server [] []))\<^sup>*\<^sup>* (pipe_start (newConn 0 0 ())) c \<and> pp_in c = demo_smb1 \<and>
     pp_reader c = Returned \<and> write_messages (fst (serve (demo_server [] []) demo_smb1 [] (newConn 0 0 ()))) = Inr w \<and>
     pp_wire c = w"
proof -
  let ?S = "demo_server [] []" and ?s = "newConn 0 0 ()"
  obtain m w s' where w: "writeMessage m = Inr w" and r: "(pipe_step ?S)\<^sup>*\<^sup>* (pipe_start ?s) \<lparr>pp_conn = s', pp_in = demo_smb1,
     pp_handed = [m], pp_chan = [], pp_wire = w, pp_open = True, pp_reader = Waiting, pp_writer = Writing, pp_broken = False\<rparr>"
    by (rule demo_smb1_run)
  let ?c = "\<lparr>pp_conn = closeAllHandles [] s', pp_in = demo_smb1, pp_handed = [m], pp_chan = [], pp_wire = w,
     pp_open = False, pp_reader = Returned, pp_writer = Ended, pp_broken = False\<rparr>"
  have c: "(pipe_step ?S)\<^sup>*\<^sup>* (pipe_start ?s) ?c" by (rule rtranclp_trans [OF r one_response_ends])
  have outs: "fst (serve ?S demo_smb1 [] ?s) = [m]"
    using reader_serves(1) [OF reader_steps_ok [OF c reader_start_ok], of "[]"] by (simp add: held_def)
  then have s: "serve ?S (pp_in ?c) [] ?s = ([m], snd (serve ?S demo_smb1 [] ?s))" by (metis pipe.select_convs(2) prod.collapse)
  have ms: "write_messages [m] = Inr w" using w by simp
  from responses_in_order [OF c s ms] show ?thesis using c outs ms by (intro exI [of _ ?c] exI [of _ w]) simp
qed

lemma connection_ends_witness:
  "\<exists>c. (pipe_step (demo_server [] []))\<^sup>*\<^sup>* (pipe_start (newConn 0 0 ())) c \<and> pp_reader c = Waiting \<and>
     \<not> (\<exists>f. f 0 = c \<and> (\<forall>i. pipe_step (demo_server [] []) (f i) (f (Suc i))))"
proof -
  obtain m w s' where r: "(pipe_step (demo_server [] []))\<^sup>*\<^sup>* (pipe_start (newConn 0 0 ())) \<lparr>pp_conn = s', pp_in = demo_smb1,
     pp_handed = [m], pp_chan = [], pp_wire = w, pp_open = True, pp_reader = Waiting, pp_writer = Writing, pp_broken = False\<rparr>"
    by (rule demo_smb1_run)
  from connection_ends [OF r] r show ?thesis by (intro exI conjI) (rule r, simp, simp)
qed

end
