(* ===== verification/Protocol.thy ===== *)
theory Protocol
  imports Connection
begin

text \<open>
  What the server promises about a connection, without packets: a session that is negotiated, logs in,
  connects trees and opens files. The states are abstract sessions, the steps say which command
  may change what, and when. The theorems show that every command the server runs is such a
  step, and what holds of every session.
\<close>

section \<open>The abstract session\<close>

record 'w entry =
  en_share :: "'w share"
  en_path :: gostring
  en_isDir :: bool
  en_marked :: bool

text \<open>\<open>ss_opens\<close>: the open files by number; \<open>ss_count\<close> is the last number given out.\<close>

record 'w session =
  ss_dialect :: u16
  ss_challenge :: bytes
  ss_key :: "bytes option"
  ss_authed :: "u64 set"
  ss_trees :: "u32 \<Rightarrow> 'w share option"
  ss_pipes :: "u32 set"
  ss_opens :: "u64 \<Rightarrow> 'w entry option"
  ss_count :: u64

definition new_session :: "'w session" where
  "new_session = \<lparr>ss_dialect = 0, ss_challenge = mk 8, ss_key = None, ss_authed = {}, ss_trees = (\<lambda>_. None),
     ss_pipes = {}, ss_opens = (\<lambda>_. None), ss_count = 0\<rparr>"

text \<open>A path below the root of a share: plain components joined by slashes.\<close>

definition inside :: "gostring \<Rightarrow> bool" where
  "inside p \<longleftrightarrow> (\<exists>cs. p = join_with slash cs \<and> (\<forall>c \<in> set cs. plain_component c \<and> backslash \<notin> set c))"

definition may :: "'w server \<Rightarrow> u64 \<Rightarrow> 'w session \<Rightarrow> bool" where
  "may S sid a \<longleftrightarrow> opt_User S = [] \<or> sid \<in> ss_authed a"

text \<open>The signing key an accepted AUTHENTICATE message gives.\<close>

definition token_key :: "'w server \<Rightarrow> u16 \<Rightarrow> bytes \<Rightarrow> bytes" where
  "token_key S dialect token =
    (case parseNTLMAuthenticate token of
       None \<Rightarrow> []
     | Some auth \<Rightarrow>
         signingKey (sv_C S) dialect
           (exportedSessionKey (sv_C S)
             (ntowfv2 (sv_C S) (sv_U S) (opt_User S) (opt_Pass S) (au_domain auth))
             (take 16 (au_ntResponse auth)) (au_flags auth) (au_encSessionKey auth)))"

text \<open>
  The steps, for a command on a session id: what each may change, and under which condition. Only
  NEGOTIATE and SESSION_SETUP change a session without being allowed to by \<open>may\<close>.
\<close>

inductive session_step :: "'w server \<Rightarrow> u16 \<Rightarrow> u64 \<Rightarrow> 'w session \<Rightarrow> 'w session \<Rightarrow> bool"
  for S :: "'w server" and cmd :: u16 and sid :: u64 and a :: "'w session" where
  idle: "session_step S cmd sid a a"
| negotiate:
    "cmd = cmdNegotiate \<Longrightarrow> d \<in> set supportedDialects \<Longrightarrow> session_step S cmd sid a (a\<lparr>ss_dialect := d\<rparr>)"
| challenge: "cmd = cmdSessionSetup \<Longrightarrow> session_step S cmd sid a (a\<lparr>ss_challenge := c\<rparr>)"
| login:
    "cmd = cmdSessionSetup \<Longrightarrow> opt_User S \<noteq> [] \<Longrightarrow> proves_password S (ss_challenge a) token \<Longrightarrow>
     session_step S cmd sid a
       (a\<lparr>ss_authed := insert i (ss_authed a), ss_key := Some (token_key S (ss_dialect a) token)\<rparr>)"
| tree:
    "cmd = cmdTreeConnect \<Longrightarrow> may S sid a \<Longrightarrow> sh \<in> set (sv_shares S) \<Longrightarrow>
     session_step S cmd sid a (a\<lparr>ss_trees := (ss_trees a)(t := Some sh)\<rparr>)"
| pipe:
    "cmd = cmdTreeConnect \<Longrightarrow> may S sid a \<Longrightarrow> session_step S cmd sid a (a\<lparr>ss_pipes := insert t (ss_pipes a)\<rparr>)"
| leave:
    "cmd = cmdTreeDisconnect \<Longrightarrow> may S sid a \<Longrightarrow>
     session_step S cmd sid a (a\<lparr>ss_trees := (ss_trees a)(t := None), ss_pipes := ss_pipes a - {t}\<rparr>)"
| open_file:
    "cmd = cmdCreate \<Longrightarrow> may S sid a \<Longrightarrow> ss_trees a t = Some sh \<Longrightarrow> t \<notin> ss_pipes a \<Longrightarrow>
     card (dom (ss_opens a)) < maxOpenFiles \<Longrightarrow> ss_opens a (ss_count a + 1) = None \<Longrightarrow>
     en_share e = sh \<Longrightarrow> inside (en_path e) \<Longrightarrow> \<not> (sh_readOnly sh \<and> en_marked e) \<Longrightarrow>
     session_step S cmd sid a
       (a\<lparr>ss_opens := (ss_opens a)(ss_count a + 1 := Some e), ss_count := ss_count a + 1\<rparr>)"
| close_file:
    "cmd = cmdClose \<Longrightarrow> may S sid a \<Longrightarrow> session_step S cmd sid a (a\<lparr>ss_opens := (ss_opens a)(i := None)\<rparr>)"
| mark:
    "cmd = cmdSetInfo \<Longrightarrow> may S sid a \<Longrightarrow> ss_opens a i = Some e \<Longrightarrow> \<not> (sh_readOnly (en_share e) \<and> m) \<Longrightarrow>
     session_step S cmd sid a (a\<lparr>ss_opens := (ss_opens a)(i := Some (e\<lparr>en_marked := m\<rparr>))\<rparr>)"
| rename_file:
    "cmd = cmdSetInfo \<Longrightarrow> may S sid a \<Longrightarrow> ss_opens a i = Some e \<Longrightarrow> \<not> sh_readOnly (en_share e) \<Longrightarrow> inside p \<Longrightarrow>
     session_step S cmd sid a (a\<lparr>ss_opens := (ss_opens a)(i := Some (e\<lparr>en_path := p\<rparr>))\<rparr>)"

section \<open>The session of a connection\<close>

definition abs_entry :: "'w openFile \<Rightarrow> 'w entry" where
  "abs_entry f = \<lparr>en_share = of_share f, en_path = of_path f, en_isDir = of_isDir f, en_marked = of_deleteOnClose f\<rparr>"

definition abs_conn :: "'w conn \<Rightarrow> 'w session" where
  "abs_conn s =
    \<lparr>ss_dialect = cn_dialect s, ss_challenge = cn_authChallenge s, ss_key = cn_signKey s,
     ss_authed = cn_authedSessions s, ss_trees = cn_diskTrees s, ss_pipes = cn_pipeTrees s,
     ss_opens = (\<lambda>i. map_option abs_entry (get_key (file_id i) s)), ss_count = cn_handleCtr s\<rparr>"

lemma abs_newConn: "abs_conn (newConn x y w) = new_session"
  by (simp add: abs_conn_def newConn_def new_session_def get_key_def)

lemma abs_fields [simp]:
  "ss_dialect (abs_conn s) = cn_dialect s" "ss_challenge (abs_conn s) = cn_authChallenge s"
  "ss_authed (abs_conn s) = cn_authedSessions s" "ss_trees (abs_conn s) = cn_diskTrees s"
  "ss_pipes (abs_conn s) = cn_pipeTrees s" "ss_count (abs_conn s) = cn_handleCtr s"
  by (simp_all add: abs_conn_def)

lemma abs_opens: "get_key (file_id i) s = Some f \<Longrightarrow> ss_opens (abs_conn s) i = Some (abs_entry f)"
  by (simp add: abs_conn_def)

lemma abs_world: "world_step I s s' \<Longrightarrow> abs_conn s' = abs_conn s"
  by (auto simp: world_step_def abs_conn_def get_key_def)

lemma abs_irrelevant [simp]:
  "abs_conn (s\<lparr>cn_world := w\<rparr>) = abs_conn s" "abs_conn (s\<lparr>cn_aapl := b\<rparr>) = abs_conn s"
  "abs_conn (s\<lparr>cn_warnedWindowsGuest := b\<rparr>) = abs_conn s" "abs_conn (s\<lparr>cn_sessionCtr := n\<rparr>) = abs_conn s"
  "abs_conn (s\<lparr>cn_treeCtr := t\<rparr>) = abs_conn s"
  by (simp_all add: abs_conn_def get_key_def)

lemma abs_add:
  "of_fileID f = file_id i \<Longrightarrow>
   abs_conn (addHandle f s) = (abs_conn s)\<lparr>ss_opens := (ss_opens (abs_conn s))(i := Some (abs_entry f))\<rparr>"
  by (auto simp: abs_conn_def get_key_addHandle fun_eq_iff) (simp_all add: addHandle_def)

text \<open>The FileId of an open in the table is that of its number.\<close>

lemma handle_number:
  assumes "handles_ok s" and "getHandle fid s = Some f"
  obtains i where "of_fileID f = file_id i" "get_key (file_id i) s = Some f"
proof -
  have g: "get_key (fileIDKey fid) s = Some f" using assms(2) by (simp add: getHandle_def get_key_def)
  with handles_ok_get [OF assms(1) this] that show thesis by (auto simp: fid_issued_def)
qed

lemma card_opens:
  assumes "handles_ok s"
  shows "card (dom (ss_opens (abs_conn s))) = length (cn_handles s)"
proof -
  have keys: "fst ` set (cn_handles s) \<subseteq> range file_id" using assms by (fastforce simp: handles_ok_def)
  have "dom (ss_opens (abs_conn s)) = file_id -` (fst ` set (cn_handles s))"
    by (auto simp: abs_conn_def get_key_def dom_def map_of_eq_None_iff vimage_def)
  moreover have "card (file_id -` (fst ` set (cn_handles s))) = card (fst ` set (cn_handles s))"
    by (rule card_vimage_inj [OF _ keys]) (auto intro: injI)
  moreover have "card (fst ` set (cn_handles s)) = length (cn_handles s)"
    using assms by (simp add: handles_ok_def distinct_card [of "map fst (cn_handles s)", simplified])
  ultimately show ?thesis by simp
qed

lemma inside_nameToPath: "inside (nameToPath name)"
  unfolding inside_def nameToPath_components
  using path_components_plain path_components_no_backslash by blast

section \<open>Every command is a step\<close>

lemma abs_cls:
  assumes "handles_ok s"
  shows "\<exists>i. abs_conn (cls_key (fileIDKey fid) s) = (abs_conn s)\<lparr>ss_opens := (ss_opens (abs_conn s))(i := None)\<rparr>
    \<or> abs_conn (cls_key (fileIDKey fid) s) = abs_conn s"
proof (cases "getHandle fid s")
  case None
  then have "get_key (fileIDKey fid) s = None" by (simp add: getHandle_def get_key_def)
  then have "abs_conn (cls_key (fileIDKey fid) s) = abs_conn s"
    by (auto simp: abs_conn_def cls_key_def get_key_def delete_conv' fun_eq_iff)
  then show ?thesis by blast
next
  case (Some f)
  obtain i where "get_key (fileIDKey fid) s = Some f" "of_fileID f = file_id i"
    using handle_number [OF assms Some] Some by (metis getHandle_def get_key_def)
  then have "fileIDKey fid = file_id i" using handles_ok_get [OF assms] by metis
  then have "abs_conn (cls_key (fileIDKey fid) s) = (abs_conn s)\<lparr>ss_opens := (ss_opens (abs_conn s))(i := None)\<rparr>"
    by (auto simp: abs_conn_def cls_key_def get_key_def delete_conv' fun_eq_iff)
  then show ?thesis by blast
qed

lemma negotiate_refines:
  assumes "handleNegotiate S body s = (r, s')"
  shows "session_step S cmdNegotiate sid (abs_conn s) (abs_conn s')"
proof (cases "chooseDialect body")
  case None
  then show ?thesis using assms by (auto simp: handleNegotiate_def intro: session_step.idle)
next
  case (Some d)
  have "abs_conn s' = (abs_conn s)\<lparr>ss_dialect := d\<rparr>"
    using assms Some by (auto simp: handleNegotiate_def Let_def call_def abs_conn_def get_key_def split: prod.splits)
  then show ?thesis using negotiate [of cmdNegotiate d] chooseDialect_Some [OF Some] by simp
qed

lemma authenticate_login:
  assumes "authenticate S token s = ((fl, True), s')" and "opt_User S \<noteq> []"
  shows "proves_password S (cn_authChallenge s) token"
    and "s' = s\<lparr>cn_signKey := Some (token_key S (cn_dialect s) token)\<rparr>"
  using authenticate_user [OF assms(2), of token s] assms(1)
  by (auto simp: authenticate_def assms(2) token_key_def Let_def split: option.splits if_splits)

lemma session_setup_refines:
  assumes "handleSessionSetup S h body s = ((st, i, b), s')"
  shows "session_step S cmdSessionSetup sid (abs_conn s) (abs_conn s')"
proof (cases "length body < 24")
  case True
  then show ?thesis using assms by (auto simp: handleSessionSetup_def intro: session_step.idle)
next
  case False
  obtain raw token where t: "ntlm_token (case bufferAt body (get16 body 12) (get16 body 14) of
      Some b \<Rightarrow> b | None \<Rightarrow> []) = (raw, token)" by fastforce
  obtain j s1 where j: "(if h_sessionID h = 0 then nextSessionID s else (h_sessionID h, s)) = (j, s1)"
    by fastforce
  then have s1: "abs_conn s1 = abs_conn s" by (auto simp: nextSessionID_def Let_def split: if_splits)
  have s1f: "cn_authChallenge s1 = cn_authChallenge s" "cn_dialect s1 = cn_dialect s"
    using arg_cong [OF s1, of ss_challenge] arg_cong [OF s1, of ss_dialect] by simp_all
  note H = assms [unfolded handleSessionSetup_def Let_def t j prod.case if_not_P [OF False]]
  show ?thesis
  proof (cases "ntlmMessageType token = ntlmTypeAuthenticate")
    case True
    obtain fl ok s2 where a: "authenticate S token s1 = ((fl, ok), s2)" by (metis surj_pair)
    note H = H [unfolded if_P [OF True] a prod.case]
    show ?thesis
    proof (cases "ok \<and> opt_User S \<noteq> []")
      case True
      then have u: "opt_User S \<noteq> []" and a: "authenticate S token s1 = ((fl, True), s2)" using a by auto
      have "s' = maybeWarnWindowsGuest S token (s2\<lparr>cn_authedSessions := insert j (cn_authedSessions s2)\<rparr>)"
        using H True by auto
      moreover have "abs_conn (maybeWarnWindowsGuest S token x) = abs_conn x" for x
        by (auto simp: maybeWarnWindowsGuest_def split: option.splits)
      ultimately have "abs_conn s' = (abs_conn s1)\<lparr>ss_authed := insert j (ss_authed (abs_conn s1)),
          ss_key := Some (token_key S (ss_dialect (abs_conn s1)) token)\<rparr>"
        using authenticate_login(2) [OF a u] by (simp add: abs_conn_def get_key_def)
      then show ?thesis
        using login [OF _ u, of cmdSessionSetup "abs_conn s" token sid j] authenticate_login(1) [OF a u]
        by (simp add: s1 s1f)
    next
      case False
      have "s2 = s1" using a False by (auto simp: authenticate_def Let_def split: if_splits option.splits)
      moreover have "abs_conn (maybeWarnWindowsGuest S token x) = abs_conn x" for x
        by (auto simp: maybeWarnWindowsGuest_def split: option.splits)
      ultimately have "abs_conn s' = abs_conn s1" using H False by (auto split: if_splits)
      then show ?thesis using session_step.idle [of S _ _ "abs_conn s"] s1 by simp
    qed
  next
    case notauth: False
    obtain rb s3 where r: "call (sv_rand S 8) s1 = (rb, s3)" by fastforce
    obtain now s4 where n: "call (sv_now S)
        (s3\<lparr>cn_authChallenge := copy_at (cn_authChallenge s3) 0 rb\<rparr>) = (now, s4)" by fastforce
    have "s' = s4" using H notauth r n by auto
    moreover have "abs_conn s4 = (abs_conn s1)\<lparr>ss_challenge := copy_at (cn_authChallenge s1) 0 rb\<rparr>"
      using r n by (auto simp: call_def abs_conn_def get_key_def split: prod.splits)
    ultimately show ?thesis using challenge [of cmdSessionSetup S sid "abs_conn s"] s1 by simp
  qed
qed

lemma tree_connect_refines:
  assumes "handleTreeConnect S body s = ((st, tid, b), s')" and "may S sid (abs_conn s)"
  shows "session_step S cmdTreeConnect sid (abs_conn s) (abs_conn s')"
proof -
  let ?name = "shareFromPath (case bufferAt body (get16 body 4) (get16 body 6) of
    None \<Rightarrow> [] | Some buf \<Rightarrow> utf16leToString buf)"
  consider "s' = s" | t sh where "findShare S ?name = Some sh"
      "abs_conn s' = (abs_conn s)\<lparr>ss_trees := (ss_trees (abs_conn s))(t := Some sh)\<rparr>"
    | t where "abs_conn s' = (abs_conn s)\<lparr>ss_pipes := insert t (ss_pipes (abs_conn s))\<rparr>"
  proof (cases "length body < 8 \<or> findShare S ?name = None \<and> \<not> EqualFold (sv_U S) ?name (ascii ''IPC$'')")
    case True
    then have "s' = s" using assms(1) by (auto simp: handleTreeConnect_def Let_def split: if_splits)
    then show thesis using that(1) by blast
  next
    case ok: False
    show thesis
    proof (cases "findShare S ?name")
      case None
      then have "s' = s\<lparr>cn_treeCtr := cn_treeCtr s + 1, cn_pipeTrees := insert (cn_treeCtr s + 1) (cn_pipeTrees s)\<rparr>"
        using assms(1) ok by (auto simp: handleTreeConnect_def Let_def nextTreeID_def)
      then show thesis using that(3) by (simp add: abs_conn_def get_key_def)
    next
      case (Some sh)
      then have "s' = s\<lparr>cn_treeCtr := cn_treeCtr s + 1, cn_diskTrees := (cn_diskTrees s)(cn_treeCtr s + 1 := Some sh)\<rparr>"
        using assms(1) ok by (auto simp: handleTreeConnect_def Let_def nextTreeID_def)
      then show thesis using that(2) [OF Some] by (simp add: abs_conn_def get_key_def)
    qed
  qed
  then show ?thesis
  proof cases
    case (2 t sh)
    then show ?thesis using tree [OF _ assms(2) findShare_in [OF 2(1)]] by simp
  next
    case (3 t)
    then show ?thesis using pipe [OF _ assms(2)] by simp
  qed (simp add: session_step.idle)
qed

lemma create_refines:
  assumes "handleCreate S body t s = ((st, resp), s')" and sf: "shares_from S s" and ok: "handles_ok s"
    and ctr: "cn_handleCtr s \<noteq> - 1" and may: "may S sid (abs_conn s)" and t: "t \<notin> cn_pipeTrees s"
  shows "session_step S cmdCreate sid (abs_conn s) (abs_conn s')"
  using assms(1)
proof (cases rule: handleCreate_cases)
  case refused
  have "world_step (\<lambda>_. True) s s'" using refused(3) [OF _ sf] by simp
  then show ?thesis by (simp add: abs_world session_step.idle)
next
  case (success f)
  let ?i = "cn_handleCtr s + 1"
  from success(2) show ?thesis
  proof (cases rule: create_succeeds_open)
    case (1 sh f1 s2 s4 b)
    note w = 1(9) [OF share_keeps_True]
    have "abs_conn s' = abs_conn (addHandle f (s2\<lparr>cn_handleCtr := ?i\<rparr>))"
      using abs_world [OF w [THEN conjunct2]] 1(8) by simp
    also have "\<dots> = (abs_conn s)\<lparr>ss_opens := (ss_opens (abs_conn s))(ss_count (abs_conn s) + 1 := Some (abs_entry f)),
        ss_count := ss_count (abs_conn s) + 1\<rparr>"
      using abs_world [OF w [THEN conjunct1]] by (simp add: abs_add 1(6)) (simp add: abs_conn_def get_key_def)
    finally have a: "abs_conn s' = \<dots>" .
    have "\<not> fid_issued (file_id ?i) s" using not_issued_next [OF ctr] .
    then have "get_key (file_id ?i) s = None"
      using handles_ok_get [OF ok, of "file_id ?i"] by (cases "get_key (file_id ?i) s") auto
    then have "ss_opens (abs_conn s) (ss_count (abs_conn s) + 1) = None" by (simp add: abs_conn_def)
    moreover have "en_share (abs_entry f) = sh" "en_path (abs_entry f) = nameToPath (create_name body)"
      "\<not> (sh_readOnly sh \<and> en_marked (abs_entry f))"
      using 1(3-6) by (auto simp: abs_entry_def)
    ultimately show ?thesis
      unfolding a using 1(1,2) may t card_opens [OF ok]
      by (intro open_file [where t = t and sh = sh]) (simp_all add: inside_nameToPath)
  qed
qed

lemma close_refines:
  assumes "handleClose S body s = (r, s')" and "shares_from S s" and "handles_ok s" and "may S sid (abs_conn s)"
  shows "session_step S cmdClose sid (abs_conn s) (abs_conn s')"
proof (cases "length body < 24")
  case True
  then show ?thesis using assms(1) by (auto simp: handleClose_def intro: session_step.idle)
next
  case False
  then have "abs_conn s' = abs_conn (cls_key (fileIDKey (slice body 8 24)) s)"
    using abs_world [OF handleClose_step [OF assms(1) server_keeps_True assms(2)]] by simp
  then show ?thesis
    using abs_cls [OF assms(3), of "slice body 8 24"] session_step.close_file [OF refl assms(4)] session_step.idle
    by metis
qed

lemma abs_update:
  assumes "handles_ok s" and "getHandle fid s = Some f" and "world_step I s s1" and "of_fileID f' = of_fileID f"
  shows "\<exists>i. ss_opens (abs_conn s) i = Some (abs_entry f) \<and>
    abs_conn (addHandle f' s1) = (abs_conn s)\<lparr>ss_opens := (ss_opens (abs_conn s))(i := Some (abs_entry f'))\<rparr>"
proof -
  obtain i where "of_fileID f = file_id i" "get_key (file_id i) s = Some f" by (rule handle_number [OF assms(1,2)])
  then show ?thesis using abs_add [of f' i s1] assms(4) abs_world [OF assms(3)] abs_opens by metis
qed

lemma query_directory_refines:
  assumes "handleQueryDirectory S body s = (r, s')" and "handles_ok s"
  shows "abs_conn s' = abs_conn s"
  using assms(1)
proof (cases rule: handleQueryDirectory_cases)
  case (listed f g s1)
  then have "abs_entry g = abs_entry f" "of_fileID g = of_fileID f" by (simp_all add: same_open_def abs_entry_def)
  then show ?thesis
    using abs_update [OF assms(2) listed(1) listed(4) [OF share_keeps_True], of g] listed(3) by (auto simp: fun_upd_idem)
qed simp

lemma disposition_refines:
  assumes "set_disposition S f buf s = (r, s')" and g: "getHandle fid s = Some f" and ok: "handles_ok s"
    and may: "may S sid (abs_conn s)"
  shows "session_step S cmdSetInfo sid (abs_conn s) (abs_conn s')"
  using assms(1)
proof (cases rule: set_disposition_cases)
  case kept
  then show ?thesis using abs_world [OF kept [OF share_keeps_True]] by (simp add: session_step.idle)
next
  case (marked s1 del)
  have e: "abs_entry (f\<lparr>of_deleteOnClose := del\<rparr>) = (abs_entry f)\<lparr>en_marked := del\<rparr>" by (simp add: abs_entry_def)
  obtain i where i: "ss_opens (abs_conn s) i = Some (abs_entry f)"
    "abs_conn s' = (abs_conn s)\<lparr>ss_opens := (ss_opens (abs_conn s))(i := Some ((abs_entry f)\<lparr>en_marked := del\<rparr>))\<rparr>"
    using abs_update [OF ok g marked(3) [OF share_keeps_True], of "f\<lparr>of_deleteOnClose := del\<rparr>"] marked(1) e by auto
  then show ?thesis using session_step.mark [OF refl may i(1), of del] marked(2) by (auto simp: abs_entry_def)
qed

lemma rename_refines:
  assumes "set_rename S f buf s = (r, s')" and g: "getHandle fid s = Some f" and ok: "handles_ok s"
    and may: "may S sid (abs_conn s)"
  shows "session_step S cmdSetInfo sid (abs_conn s) (abs_conn s')"
  using assms(1)
proof (cases rule: set_rename_cases)
  case kept
  then show ?thesis using abs_world [OF kept [OF share_keeps_True]] by (simp add: session_step.idle)
next
  case (renamed s1 name)
  let ?p = "nameToPath name"
  have e: "abs_entry (f\<lparr>of_path := ?p\<rparr>) = (abs_entry f)\<lparr>en_path := ?p\<rparr>" by (simp add: abs_entry_def)
  obtain i where i: "ss_opens (abs_conn s) i = Some (abs_entry f)"
    "abs_conn s' = (abs_conn s)\<lparr>ss_opens := (ss_opens (abs_conn s))(i := Some ((abs_entry f)\<lparr>en_path := ?p\<rparr>))\<rparr>"
    using abs_update [OF ok g renamed(3) [OF share_keeps_True], of "f\<lparr>of_path := ?p\<rparr>"] renamed(1) e by auto
  then show ?thesis
    using session_step.rename_file [OF refl may i(1), of ?p] renamed(2) inside_nameToPath by (auto simp: abs_entry_def)
qed

lemma set_info_refines:
  assumes "handleSetInfo S body s = (r, s')" and ok: "handles_ok s" and may: "may S sid (abs_conn s)"
  shows "session_step S cmdSetInfo sid (abs_conn s) (abs_conn s')"
proof (cases "getHandle (slice body 16 32) s")
  case None
  then show ?thesis using assms(1) by (auto simp: handleSetInfo_def Let_def intro: session_step.idle split: if_splits)
next
  case (Some f)
  have world: "session_step S cmdSetInfo sid (abs_conn s) (abs_conn x)" if "world_step (\<lambda>_. True) s x" for x
    using abs_world [OF that] by (simp add: session_step.idle)
  note k = share_keeps_True [of "of_share f"]
  show ?thesis
    using assms(1) Some world [OF set_eof_step [OF _ k]] world [OF set_allocation_step [OF _ k]]
      world [OF set_basic_step [OF _ k]] disposition_refines [OF _ Some ok may] rename_refines [OF _ Some ok may]
    by (auto simp: handleSetInfo_def Let_def intro: session_step.idle split: if_splits)
qed

text \<open>The handlers that only read the connection.\<close>

lemmas reader_worlds = handleRead_world [OF _ server_keeps_True] handleWrite_world [OF _ server_keeps_True]
  handleFlush_world [OF _ server_keeps_True] handleQueryInfo_world [OF _ server_keeps_True]

lemma run_command_refines:
  assumes "run_command S h body sid t ctx s = (r, ctx', s')" and sf: "shares_from S s" and ok: "handles_ok s"
    and ctr: "cn_handleCtr s \<noteq> - 1"
    and may: "h_command h \<noteq> cmdNegotiate \<Longrightarrow> h_command h \<noteq> cmdSessionSetup \<Longrightarrow> may S sid (abs_conn s)"
  shows "session_step S (h_command h) sid (abs_conn s) (abs_conn s')"
proof -
  have world: "session_step S c sid (abs_conn s) (abs_conn x)" if "world_step (\<lambda>_. True) s x" for x c
    using abs_world [OF that] by (simp add: session_step.idle)
  have same: "session_step S c sid (abs_conn s) (abs_conn x)" if "abs_conn x = abs_conn s" for x c
    using that by (simp add: session_step.idle)
  have off: "session_step S cmdTreeDisconnect sid (abs_conn s)
      (abs_conn (s\<lparr>cn_pipeTrees := cn_pipeTrees s - {t}, cn_diskTrees := (cn_diskTrees s)(t := None)\<rparr>))"
    if "may S sid (abs_conn s)"
    using session_step.leave [OF refl that, of t] by (simp add: abs_conn_def get_key_def)
  have ioctl: "s' = s" if "handleIoctl S body s = (q, s')" for q
    using handleIoctl_state [of S body s] that by simp
  show ?thesis
    using assms(1) may off
    by (auto simp: run_command_def Let_def split: if_splits prod.splits
        intro: session_step.idle negotiate_refines session_setup_refines tree_connect_refines
          create_refines [OF _ sf ok ctr] close_refines [OF _ sf ok] set_info_refines [OF _ ok]
          world [OF reader_worlds(1) [OF _ sf]] world [OF reader_worlds(2) [OF _ sf]]
          world [OF reader_worlds(3) [OF _ sf]] world [OF reader_worlds(4) [OF _ sf]]
          same [OF query_directory_refines [OF _ ok]] dest: ioctl)
qed

lemma handleCommand_refines:
  assumes "handleCommand S h seg ctx s = (out, ctx', s')" and "shares_from S s" and "handles_ok s"
    and "cn_handleCtr s \<noteq> - 1"
  shows "session_step S (h_command h) (gate_session h ctx) (abs_conn s) (abs_conn s')"
proof -
  let ?sid = "gate_session h ctx"
  define rel where "rel \<longleftrightarrow> h_flags h AND flagsRelatedOps \<noteq> 0"
  obtain tid ctx1 where x: "(if rel then (cx_sessionID ctx, cx_treeID ctx, ctx)
      else (h_sessionID h, h_treeID h,
        ctx\<lparr>cx_sessionID := h_sessionID h, cx_treeID := h_treeID h\<rparr>)) = (?sid, tid, ctx1)"
    by (cases rel) (simp_all add: gate_session_def rel_def)
  obtain ref where g: "gate S h seg ?sid s = (ref, seg)" using gate_seg by (metis surj_pair snd_conv)
  define body where "body = (case cx_fileID ctx1 of
      Some fid \<Rightarrow> if rel then substituteFileID (h_command h) (drop smb2HeaderSize seg) fid
        else drop smb2HeaderSize seg
    | None \<Rightarrow> drop smb2HeaderSize seg)"
  obtain r ctx2 s2 where rc: "run_command S h body ?sid tid ctx1 s = (r, ctx2, s2)" by (metis surj_pair)
  have s': "s' = (case ref of Some _ \<Rightarrow> s | None \<Rightarrow> s2)"
    using assms(1) x g rc
    unfolding handleCommand_def Let_def rel_def [symmetric] body_def
    by (auto split: option.splits)
  show ?thesis
  proof (cases ref)
    case None
    have "may S ?sid (abs_conn s)" if "h_command h \<noteq> cmdNegotiate" "h_command h \<noteq> cmdSessionSetup"
      using g None that by (auto simp: gate_def may_def split: if_splits)
    from run_command_refines [OF rc assms(2-4) this] show ?thesis using s' None by simp
  qed (simp add: s' session_step.idle)
qed

section \<open>What holds of every session\<close>

definition session_run :: "'w server \<Rightarrow> 'w session \<Rightarrow> 'w session \<Rightarrow> bool" where
  "session_run S = (\<lambda>a a'. \<exists>cmd sid. session_step S cmd sid a a')\<^sup>*\<^sup>*"

definition session_ok :: "'w server \<Rightarrow> 'w session \<Rightarrow> bool" where
  "session_ok S a \<longleftrightarrow>
    (ss_authed a = {} \<longleftrightarrow> ss_key a = None) \<and>
    (opt_User S = [] \<or> ss_authed a \<noteq> {} \<or>
       ss_trees a = (\<lambda>_. None) \<and> ss_pipes a = {} \<and> ss_opens a = (\<lambda>_. None)) \<and>
    (\<forall>t sh. ss_trees a t = Some sh \<longrightarrow> sh \<in> set (sv_shares S)) \<and>
    (\<forall>i e. ss_opens a i = Some e \<longrightarrow>
       en_share e \<in> set (sv_shares S) \<and> inside (en_path e) \<and> \<not> (sh_readOnly (en_share e) \<and> en_marked e))"

lemma new_session_ok: "session_ok S new_session"
  by (simp add: session_ok_def new_session_def)

lemma session_step_ok: "session_step S cmd sid a a' \<Longrightarrow> session_ok S a \<Longrightarrow> session_ok S a'"
proof (induction rule: session_step.induct)
  case (tree sh t)
  then show ?case by (auto simp: session_ok_def may_def)
next
  case (open_file t sh e)
  then show ?case by (auto simp: session_ok_def may_def)
next
  case (mark i e m)
  then show ?case by (auto simp: session_ok_def may_def)
next
  case (rename_file i e p)
  then show ?case by (auto simp: session_ok_def may_def)
qed (auto simp: session_ok_def may_def)

lemma session_run_ok: "session_run S a a' \<Longrightarrow> session_ok S a \<Longrightarrow> session_ok S a'"
  unfolding session_run_def by (induction rule: rtranclp_induct) (auto intro: session_step_ok)

interpretation refines: command_relation S
    "\<lambda>b s s'. shares_from S s \<longrightarrow> handles_ok s \<longrightarrow> unat (cn_handleCtr s) + length b < 2 ^ 64 \<longrightarrow>
       session_run S (abs_conn s) (abs_conn s') \<and> steps_ok S (\<lambda>_. True) (length b) s s'" for S
proof (unfold_locales, goal_cases)
  case (1 b s)
  then show ?case by (simp add: session_run_def steps_ok_refl)
next
  case (2 a s s1 b s2)
  show ?case
  proof (intro impI)
    assume h: "shares_from S s" "handles_ok s" "unat (cn_handleCtr s) + length (a @ b) < 2 ^ 64"
    with 2(1) have r1: "session_run S (abs_conn s) (abs_conn s1)" "steps_ok S (\<lambda>_. True) (length a) s s1" by simp_all
    then have "shares_from S s1" "unat (cn_handleCtr s1) \<le> unat (cn_handleCtr s) + length a" "ht.tstep\<^sup>*\<^sup>* s s1"
      using h by (simp_all add: steps_ok_def)
    moreover from ht.tsteps_ok [OF this(3) h(2)] have "handles_ok s1" .
    ultimately have r2: "session_run S (abs_conn s1) (abs_conn s2)" "steps_ok S (\<lambda>_. True) (length b) s1 s2"
      using 2(2) h(3) by simp_all
    from r1(1) r2(1) have "session_run S (abs_conn s) (abs_conn s2)" unfolding session_run_def by (rule rtranclp_trans)
    moreover from r1(2) r2(2) have "steps_ok S (\<lambda>_. True) (length (a @ b)) s s2" by (rule steps_ok_trans) simp
    ultimately show "session_run S (abs_conn s) (abs_conn s2) \<and> steps_ok S (\<lambda>_. True) (length (a @ b)) s s2" ..
  qed
next
  case (3 a s s' b)
  have "length a \<le> length b" using 3(2) by (rule sublist_length_le)
  with 3(1) show ?case by (auto elim: steps_ok_mono)
next
  case (4 h seg ctx s pdu ctx' s')
  show ?case
  proof (intro impI)
    assume a: "shares_from S s" "handles_ok s" "unat (cn_handleCtr s) + length seg < 2 ^ 64"
    have "cn_handleCtr s \<noteq> - 1" using a(3) by (rule not_last) (use 4(2) in auto)
    from handleCommand_refines [OF 4(1) a(1,2) this] have "session_run S (abs_conn s) (abs_conn s')"
      unfolding session_run_def by blast
    moreover have "steps_ok S (\<lambda>_. True) (length seg) s s'"
      using steps_ok_mono [OF step_ok_steps [OF handleCommand_step [OF 4(1) server_keeps_True a(1)]]] 4(2) by simp
    ultimately show "session_run S (abs_conn s) (abs_conn s') \<and> steps_ok S (\<lambda>_. True) (length seg) s s'" ..
  qed
next
  case (5 s out s' b)
  note w = smb1_step [OF 5 server_keeps_True]
  show ?case using abs_world [OF w] world_step_steps_ok [OF _ w] by (simp add: session_run_def)
qed

section \<open>Properties\<close>

text \<open>
  C6. Every command is a step of the abstract session: whatever the request, the server changes the
  session only as \<open>session_step\<close> allows. A password must be proved against the current challenge
  to log in, and gives the signing key of its token; trees are only connected to the server's shares, and
  only on an authenticated session; files are only opened through a disk tree, under a number
  never used before, within the limit, at a path inside the share; an open is renamed or
  marked only by SET_INFO and never on a read-only share.
\<close>

theorem command_refines_session:
  assumes "handleCommand S h seg ctx s = (out, ctx', s')" and "shares_from S s" and "handles_ok s"
    and "cn_handleCtr s \<noteq> - 1"
  shows "session_step S (h_command h) (gate_session h ctx) (abs_conn s) (abs_conn s')"
  by (rule handleCommand_refines [OF assms])

lemma command_refines_session_witness:
  "let S = demo_server [] [demo_share False];
       h = \<lparr>h_creditCharge = 0, h_command = cmdClose, h_creditReqResp = 1, h_flags = 0,
            h_nextCommand = 0, h_messageID = 1, h_treeID = 0, h_sessionID = 7\<rparr>;
       seg = mk 72 @ file_id 1
   in session_step S cmdClose 7 (abs_conn demo_open) (abs_conn (snd (snd (handleCommand S h seg newCtx demo_open))))"
proof -
  let ?S = "demo_server [] [demo_share False]"
  let ?h = "\<lparr>h_creditCharge = 0, h_command = cmdClose, h_creditReqResp = 1, h_flags = 0,
            h_nextCommand = 0, h_messageID = 1, h_treeID = 0, h_sessionID = 7\<rparr>"
  obtain out ctx s' where c: "handleCommand ?S ?h (mk 72 @ file_id 1) newCtx demo_open = (out, ctx, s')" by (metis surj_pair)
  from command_refines_session [OF c demo_open_ok(2,1)] show ?thesis
    by (simp add: c demo_open_ok(4) gate_session_def)
qed

text \<open>
  C5. The whole of a connection is a run of the abstract session, and so, whatever bytes arrived: with a user
  configured nothing is connected or open until a session is authenticated; a signing key is there exactly
  when one is; and every tree and open is on a share of the server, every open at a path inside
  its share, and none of a read-only share is marked to be deleted.
\<close>

theorem connection_is_session:
  assumes "length inp < 2 ^ 64" and "serve_loop S inp [] (newConn x y w) = (outs, s')"
  shows "session_run S new_session (abs_conn s') \<and> session_ok S (abs_conn s')"
proof -
  have "session_run S (abs_conn (newConn x y w)) (abs_conn s')"
    using refines.connection [OF assms(2)] newConn_ok(1) [of x y w] newConn_ok(2) [of S x y w] assms(1) by (simp add: newConn_def)
  then show ?thesis using session_run_ok [OF _ new_session_ok] by (simp add: abs_newConn)
qed

lemma connection_is_session_witness:
  "session_ok (demo_server [0x62] [demo_share False])
     (abs_conn (snd (serve_loop (demo_server [0x62] [demo_share False]) demo_request [] (newConn 0 0 demo_osw))))"
proof -
  have "length demo_request < 2 ^ 64" by (simp add: demo_request_def smb2Magic_def)
  from connection_is_session [OF this prod.collapse [symmetric], THEN conjunct2] show ?thesis .
qed

end
