(* ===== verification/Lifecycle.thy ===== *)
theory Lifecycle
  imports Connection
begin

text \<open>
  \<open>NewServer\<close>, \<open>Serve\<close> and \<open>Shutdown\<close> of \<open>internal/smb/server.go\<close>: the checks on the options, and
  the accept loop, the goroutine of each connection and a shutdown as the steps of a transition
  relation. The lemmas show that a shutdown leaves no connection behind.
\<close>

section \<open>NewServer\<close>

text \<open>
  A \<open>ShareDef\<close>; \<open>None\<close> stands for a nil \<open>FS\<close>. The GUID and the listener, which the system
  provides, are left to \<open>server\<close>.
\<close>

record 'w shareDef =
  sd_Name :: gostring
  sd_FS :: "'w fs option"
  sd_ReadOnly :: bool

datatype optionError =
    PasswordRequired | NoShares | ShareIncomplete | NameReserved | DuplicateName gostring

fun add_shares :: "unicode \<Rightarrow> 'w shareDef list \<Rightarrow> 'w share list \<Rightarrow> optionError + 'w share list" where
  "add_shares U [] shares = Inr shares"
| "add_shares U (def # defs) shares =
    (if sd_Name def = [] \<or> sd_FS def = None then Inl ShareIncomplete
     else if EqualFold U (sd_Name def) (ascii ''IPC$'') then Inl NameReserved
     else if find_share U shares (sd_Name def) \<noteq> None then Inl (DuplicateName (sd_Name def))
     else add_shares U defs
       (shares @ [\<lparr>sh_name = sd_Name def, sh_fs = the (sd_FS def), sh_readOnly = sd_ReadOnly def\<rparr>]))"

definition NewServer ::
    "unicode \<Rightarrow> gostring \<Rightarrow> gostring \<Rightarrow> 'w shareDef list \<Rightarrow> optionError + 'w share list" where
  "NewServer U user pass defs =
    (if user \<noteq> [] \<and> pass = [] then Inl PasswordRequired
     else if defs = [] then Inl NoShares
     else add_shares U defs [])"

definition share_of_def :: "'w shareDef \<Rightarrow> 'w share" where
  "share_of_def def = \<lparr>sh_name = sd_Name def, sh_fs = the (sd_FS def), sh_readOnly = sd_ReadOnly def\<rparr>"

definition folded :: "unicode \<Rightarrow> gostring \<Rightarrow> nat list" where
  "folded U s = map (fold_rune U) (runes s)"

lemma EqualFold_folded: "EqualFold U s t \<longleftrightarrow> folded U s = folded U t"
  by (simp add: EqualFold_def folded_def)

definition good_def :: "unicode \<Rightarrow> 'w shareDef \<Rightarrow> bool" where
  "good_def U def \<longleftrightarrow> sd_Name def \<noteq> [] \<and> sd_FS def \<noteq> None \<and> \<not> EqualFold U (sd_Name def) (ascii ''IPC$'')"

lemma find_share_None: "find_share U shs name = None \<longleftrightarrow> folded U name \<notin> folded U ` sh_name ` set shs"
  by (induction shs) (auto simp: EqualFold_folded)

lemma add_shares_iff:
  "add_shares U defs shares = Inr shs \<longleftrightarrow>
    list_all (good_def U) defs \<and>
    distinct (map (folded U \<circ> sd_Name) defs) \<and>
    (folded U \<circ> sd_Name) ` set defs \<inter> folded U ` sh_name ` set shares = {} \<and>
    shs = shares @ map share_of_def defs"
proof (induction defs arbitrary: shares)
  case Nil
  then show ?case by auto
next
  case (Cons d ds)
  let ?s = "\<lparr>sh_name = sd_Name d, sh_fs = the (sd_FS d), sh_readOnly = sd_ReadOnly d\<rparr>"
  show ?case
  proof (cases "good_def U d \<and> find_share U shares (sd_Name d) = None")
    case True
    then have "add_shares U (d # ds) shares = add_shares U ds (shares @ [?s])"
      by (auto simp: good_def_def)
    then show ?thesis
      using True unfolding find_share_None by (auto simp: Cons.IH share_of_def_def)
  next
    case False
    then have "\<not> (\<exists>x. add_shares U (d # ds) shares = Inr x)" by (auto simp: good_def_def)
    then show ?thesis using False unfolding find_share_None by auto
  qed
qed

lemma find_share_nth:
  "distinct (map (folded U \<circ> sh_name) shs) \<Longrightarrow> i < length shs \<Longrightarrow> EqualFold U name (sh_name (shs ! i)) \<Longrightarrow>
   find_share U shs name = Some (shs ! i)"
  by (induction shs arbitrary: i) (auto simp: EqualFold_folded nth_Cons' split: if_splits)

section \<open>Retrying a failed Accept\<close>

text \<open>The pause before the next attempt, in milliseconds; a success sets it back to 0.\<close>

definition next_acceptDelay :: "nat \<Rightarrow> nat" where
  "next_acceptDelay acceptDelay =
    (let d = (if acceptDelay = 0 then 5 else acceptDelay * 2) in if d > 1000 then 1000 else d)"

fun acceptDelays :: "nat \<Rightarrow> bool list \<Rightarrow> nat" where
  "acceptDelays d [] = d"
| "acceptDelays d (ok # oks) = acceptDelays (if ok then 0 else next_acceptDelay d) oks"

text \<open>The pauses double from 5 ms and never exceed a second.\<close>

lemma acceptDelays_append: "acceptDelays d (xs @ ys) = acceptDelays (acceptDelays d xs) ys"
  by (induction xs arbitrary: d) auto

lemma acceptDelay_doubles: "acceptDelays 0 (replicate (Suc n) False) = min 1000 (5 * 2 ^ n)"
proof (induction n)
  case (Suc n)
  have "replicate (Suc (Suc n)) False = replicate (Suc n) False @ [False]" by (simp add: replicate_append_same)
  then show ?case using Suc.IH by (simp only: acceptDelays_append) (auto simp: next_acceptDelay_def)
qed (simp add: next_acceptDelay_def)

lemma acceptDelay_bounded: "d \<le> 1000 \<Longrightarrow> acceptDelays d oks \<le> 1000"
  by (induction oks arbitrary: d) (auto simp: next_acceptDelay_def Let_def)

section \<open>Serve and Shutdown\<close>

text \<open>
  \<open>Got c\<close>: \<open>Accept\<close> returned \<open>c\<close>, which is not registered yet. \<open>lc_running\<close> are the connections
  whose goroutine is in \<open>c.serve\<close>, \<open>lc_leaving\<close> those that have unregistered but not yet called
  \<open>wg.Done\<close>, \<open>lc_sockets\<close> the sockets that are open; \<open>serve\<close>
  ends, and closes its socket, when the peer hangs up or the socket was closed under it. \<open>Snapshot\<close>: \<open>Shutdown\<close> has marked the server as
  closing and copied \<open>conns\<close>; \<open>Awaiting\<close>: it is in \<open>wg.Wait\<close>. \<open>lc_callers\<close> are the calls of \<open>Shutdown\<close> that
  are still to come: the first closes the server, and \<open>lc_early\<close> counts the later ones, which find it
  closing and return at once. A failing \<open>Accept\<close> of a server that
  is not closing is retried, which changes nothing here.
\<close>

datatype acceptor = Accepting | Got nat | Stopped

datatype shutdown = NotCalled | Snapshot "nat set" | Awaiting | Complete

record lifecycle =
  lc_acceptor :: acceptor
  lc_listening :: bool
  lc_closing :: bool
  lc_conns :: "nat set"
  lc_wg :: nat
  lc_running :: "nat set"
  lc_leaving :: "nat set"
  lc_sockets :: "nat set"
  lc_shutdown :: shutdown
  lc_callers :: nat
  lc_early :: nat
  lc_next :: nat

definition life_start :: "nat \<Rightarrow> lifecycle" where
  "life_start callers =
    \<lparr>lc_acceptor = Accepting, lc_listening = True, lc_closing = False, lc_conns = {}, lc_wg = 0,
     lc_running = {}, lc_leaving = {}, lc_sockets = {}, lc_shutdown = NotCalled,
     lc_callers = callers, lc_early = 0, lc_next = 0\<rparr>"

inductive life_step :: "lifecycle \<Rightarrow> lifecycle \<Rightarrow> bool" where
  accept:
    "lc_acceptor l = Accepting \<Longrightarrow> lc_listening l \<Longrightarrow>
     life_step l (l\<lparr>lc_acceptor := Got (lc_next l), lc_next := lc_next l + 1,
       lc_sockets := insert (lc_next l) (lc_sockets l)\<rparr>)"
| accept_fails:
    "lc_acceptor l = Accepting \<Longrightarrow> \<not> lc_listening l \<Longrightarrow> lc_closing l \<Longrightarrow>
     life_step l (l\<lparr>lc_acceptor := Stopped\<rparr>)"
| register:
    "lc_acceptor l = Got c \<Longrightarrow> \<not> lc_closing l \<Longrightarrow>
     life_step l (l\<lparr>lc_acceptor := Accepting, lc_conns := insert c (lc_conns l), lc_wg := lc_wg l + 1,
       lc_running := insert c (lc_running l)\<rparr>)"
| turn_away:
    "lc_acceptor l = Got c \<Longrightarrow> lc_closing l \<Longrightarrow>
     life_step l (l\<lparr>lc_acceptor := Stopped, lc_sockets := lc_sockets l - {c}\<rparr>)"
| hang_up:
    "c \<in> lc_running l \<Longrightarrow> c \<in> lc_sockets l \<Longrightarrow> life_step l (l\<lparr>lc_sockets := lc_sockets l - {c}\<rparr>)"
| unregister:
    "c \<in> lc_running l \<Longrightarrow> c \<notin> lc_sockets l \<Longrightarrow>
     life_step l (l\<lparr>lc_running := lc_running l - {c}, lc_conns := lc_conns l - {c},
       lc_leaving := insert c (lc_leaving l)\<rparr>)"
| wg_done:
    "c \<in> lc_leaving l \<Longrightarrow>
     life_step l (l\<lparr>lc_leaving := lc_leaving l - {c}, lc_wg := lc_wg l - 1\<rparr>)"
| begin_shutdown:
    "lc_callers l = Suc n \<Longrightarrow> lc_shutdown l = NotCalled \<Longrightarrow> \<not> lc_closing l \<Longrightarrow>
     life_step l (l\<lparr>lc_callers := n, lc_closing := True, lc_shutdown := Snapshot (lc_conns l)\<rparr>)"
| shutdown_again:
    "lc_callers l = Suc n \<Longrightarrow> lc_closing l \<Longrightarrow>
     life_step l (l\<lparr>lc_callers := n, lc_early := lc_early l + 1\<rparr>)"
| close_all:
    "lc_shutdown l = Snapshot cs \<Longrightarrow>
     life_step l (l\<lparr>lc_listening := False, lc_sockets := lc_sockets l - cs, lc_shutdown := Awaiting\<rparr>)"
| wait:
    "lc_shutdown l = Awaiting \<Longrightarrow> lc_wg l = 0 \<Longrightarrow> life_step l (l\<lparr>lc_shutdown := Complete\<rparr>)"

inductive_cases life_stepE: "life_step l l'"

definition life_ok :: "lifecycle \<Rightarrow> bool" where
  "life_ok l \<longleftrightarrow>
    finite (lc_running l) \<and> finite (lc_leaving l) \<and> lc_running l \<inter> lc_leaving l = {} \<and>
    lc_conns l = lc_running l \<and> lc_wg l = card (lc_running l) + card (lc_leaving l) \<and>
    (\<forall>c \<in> lc_running l \<union> lc_leaving l \<union> lc_sockets l. c < lc_next l) \<and>
    (\<forall>c. lc_acceptor l = Got c \<longrightarrow> c < lc_next l \<and> c \<notin> lc_running l \<union> lc_leaving l) \<and>
    lc_sockets l \<subseteq> lc_running l \<union> {c. lc_acceptor l = Got c} \<and>
    (lc_closing l \<longleftrightarrow> lc_shutdown l \<noteq> NotCalled) \<and>
    (lc_listening l \<longleftrightarrow> lc_shutdown l \<notin> {Awaiting, Complete}) \<and>
    (\<forall>cs. lc_shutdown l = Snapshot cs \<longrightarrow> lc_running l \<subseteq> cs) \<and>
    (lc_shutdown l \<in> {Awaiting, Complete} \<longrightarrow> lc_running l \<inter> lc_sockets l = {}) \<and>
    (lc_shutdown l = Complete \<longrightarrow> lc_wg l = 0)"

lemma life_start_ok: "life_ok (life_start n)"
  by (simp add: life_ok_def life_start_def)

lemma card_move:
  assumes "finite A" and "finite B" and "A \<inter> B = {}" and "c \<in> A"
  shows "card (A - {c}) + card (insert c B) = card A + card B"
  using assms card_Suc_Diff1 [of A c] by (subst card_insert_disjoint) auto

lemma life_step_ok:
  assumes "life_step l l'" and ok: "life_ok l"
  shows "life_ok l'"
  using assms(1)
proof cases
  case (unregister c)
  have "card (lc_running l - {c}) + card (insert c (lc_leaving l)) = lc_wg l"
    using ok unregister(2) card_move [of "lc_running l" "lc_leaving l" c] by (simp add: life_ok_def)
  then show ?thesis using ok unregister(2,3) unfolding unregister(1) life_ok_def
    by (intro conjI allI impI ballI) auto
next
  case (hang_up c)
  then show ?thesis using ok unfolding hang_up(1) life_ok_def by (intro conjI allI impI ballI) auto
next
  case (wg_done c)
  then have "card (lc_leaving l - {c}) + card (lc_running l) = lc_wg l - 1"
    using ok card_Suc_Diff1 [of "lc_leaving l" c] by (simp add: life_ok_def)
  then show ?thesis using ok wg_done(2) unfolding wg_done(1) life_ok_def
    by (intro conjI allI impI ballI) auto
next
  case accept
  then show ?thesis using ok unfolding accept(1) life_ok_def
    by (intro conjI allI impI ballI) (auto intro: less_SucI)
next
  case accept_fails
  then show ?thesis using ok unfolding accept_fails(1) life_ok_def by (intro conjI allI impI ballI) auto
next
  case (register c)
  then show ?thesis using ok unfolding register(1) life_ok_def by (intro conjI allI impI ballI) auto
next
  case (turn_away c)
  then show ?thesis using ok unfolding turn_away(1) life_ok_def by (intro conjI allI impI ballI) auto
next
  case begin_shutdown
  then show ?thesis using ok unfolding begin_shutdown(1) life_ok_def by (intro conjI allI impI ballI) auto
next
  case shutdown_again
  then show ?thesis using ok unfolding shutdown_again(1) life_ok_def by (intro conjI allI impI ballI) auto
next
  case (close_all cs)
  then show ?thesis using ok unfolding close_all(1) life_ok_def by (intro conjI allI impI ballI) auto
next
  case wait
  then show ?thesis using ok unfolding wait(1) life_ok_def by (intro conjI allI impI ballI) auto
qed

lemma life_steps_ok: "life_step\<^sup>*\<^sup>* l l' \<Longrightarrow> life_ok l \<Longrightarrow> life_ok l'"
  by (induction rule: rtranclp_induct) (auto intro: life_step_ok)

lemma complete_stays: "life_step l l' \<Longrightarrow> lc_shutdown l = Complete \<Longrightarrow> lc_shutdown l' = Complete"
  by (induction rule: life_step.induct) auto

lemma complete_forever: "life_step\<^sup>*\<^sup>* l l' \<Longrightarrow> lc_shutdown l = Complete \<Longrightarrow> lc_shutdown l' = Complete"
  by (induction rule: rtranclp_induct) (auto dest: complete_stays)

text \<open>Once the server is closing, every step takes it further.\<close>

fun acceptor_rank :: "acceptor \<Rightarrow> nat" where
  "acceptor_rank Accepting = 2" | "acceptor_rank (Got c) = 1" | "acceptor_rank Stopped = 0"

fun shutdown_rank :: "shutdown \<Rightarrow> nat" where
  "shutdown_rank NotCalled = 3" | "shutdown_rank (Snapshot cs) = 2" | "shutdown_rank Awaiting = 1"
| "shutdown_rank Complete = 0"

definition life_rank :: "lifecycle \<Rightarrow> nat" where
  "life_rank l = acceptor_rank (lc_acceptor l) + shutdown_rank (lc_shutdown l)
     + 2 * card (lc_running l) + card (lc_leaving l) + card (lc_running l \<inter> lc_sockets l) + lc_callers l"

lemma closing_step:
  assumes "life_step l l'" and ok: "life_ok l" and "lc_closing l"
  shows "lc_closing l' \<and> life_rank l' < life_rank l"
proof -
  have fin: "finite (lc_running l)" "finite (lc_leaving l)" "lc_running l \<inter> lc_leaving l = {}"
    using ok by (simp_all add: life_ok_def)
  then have sub: "card (lc_running l \<inter> A) \<le> card (lc_running l \<inter> lc_sockets l)" if "A \<subseteq> lc_sockets l" for A
    using that by (intro card_mono) auto
  from assms(1) show ?thesis
  proof cases
    case accept
    have "lc_next l \<notin> lc_running l" using ok by (auto simp: life_ok_def)
    then show ?thesis using assms(3) accept(2) unfolding accept(1) life_rank_def by simp
  next
    case (hang_up c)
    then have "card (lc_running l \<inter> (lc_sockets l - {c})) < card (lc_running l \<inter> lc_sockets l)"
      using fin by (intro psubset_card_mono) auto
    then show ?thesis using assms(3) unfolding hang_up(1) life_rank_def by simp
  next
    case (unregister c)
    have "card (lc_running l - {c}) + card (insert c (lc_leaving l)) = card (lc_running l) + card (lc_leaving l)"
      by (rule card_move [OF fin unregister(2)])
    moreover have "card (lc_running l - {c}) < card (lc_running l)"
      using fin unregister(2) by (intro card_Diff1_less)
    moreover have "(lc_running l - {c}) \<inter> lc_sockets l = lc_running l \<inter> lc_sockets l" using unregister(3) by auto
    ultimately show ?thesis using assms(3) unfolding unregister(1) life_rank_def by simp
  next
    case (wg_done c)
    have "card (lc_leaving l - {c}) < card (lc_leaving l)" using fin wg_done(2) by (intro card_Diff1_less)
    then show ?thesis using assms(3) unfolding wg_done(1) life_rank_def by simp
  next
    case (turn_away c)
    then show ?thesis using assms(3) sub [of "lc_sockets l - {c}"] unfolding turn_away(1) life_rank_def by simp
  next
    case (close_all cs)
    then show ?thesis using assms(3) sub [of "lc_sockets l - cs"] unfolding close_all(1) life_rank_def by simp
  qed (use assms(3) in \<open>auto simp: life_rank_def\<close>)
qed

lemma closing_progress:
  assumes "life_ok l" and "lc_closing l" and "\<not> (\<exists>l'. life_step l l')"
  shows "lc_shutdown l = Complete \<and> lc_acceptor l = Stopped \<and> lc_callers l = 0"
proof -
  have "lc_running l = {}" "lc_leaving l = {}" using assms(3) unregister hang_up wg_done by blast+
  then have "lc_wg l = 0" using assms(1) by (simp add: life_ok_def)
  then have s: "lc_shutdown l = Complete"
    using assms(1,2,3) close_all wait by (cases "lc_shutdown l") (auto simp: life_ok_def)
  then have "\<not> lc_listening l" using assms(1) by (simp add: life_ok_def)
  then have "lc_acceptor l = Stopped"
    using assms(2,3) accept_fails turn_away by (cases "lc_acceptor l") auto
  moreover have "lc_callers l = 0" using assms(2,3) shutdown_again by (cases "lc_callers l") auto
  ultimately show ?thesis using s by blast
qed

lemma closing_steps:
  "life_step\<^sup>*\<^sup>* l l' \<Longrightarrow> life_ok l \<Longrightarrow> lc_closing l \<Longrightarrow> lc_closing l'"
proof (induction rule: rtranclp_induct)
  case (step y z)
  then show ?case using closing_step [OF step(2)] life_steps_ok by blast
qed

lemma closing_reaches:
  assumes "life_ok l" and "lc_closing l"
  shows "\<exists>l'. life_step\<^sup>*\<^sup>* l l' \<and> lc_shutdown l' = Complete \<and> lc_acceptor l' = Stopped"
  using assms
proof (induction "life_rank l" arbitrary: l rule: less_induct)
  case less
  show ?case
  proof (cases "\<exists>l'. life_step l l'")
    case True
    then obtain l' where l': "life_step l l'" ..
    then show ?thesis
      using less(1) [of l'] closing_step [OF l' less(2,3)] life_step_ok [OF l' less(2)]
      by (meson converse_rtranclp_into_rtranclp)
  next
    case False
    then show ?thesis using closing_progress [OF less(2,3)] by blast
  qed
qed

section \<open>Properties\<close>

text \<open>
  C16. Whatever connections arrive, end and are closed around it, and however often \<open>Shutdown\<close> is called: once
  the call that closed the server has returned, the server has no registered connection, none of
  their goroutines runs and none of their sockets is open, also not later. A socket that is open
  then is of a connection accepted meanwhile, which was never served and is closed by the next
  step of \<open>Serve\<close>; when \<open>Serve\<close> has returned too, none is.
\<close>

theorem shutdown_leaves_nothing:
  assumes "life_step\<^sup>*\<^sup>* (life_start n) l" and "lc_shutdown l = Complete" and "life_step\<^sup>*\<^sup>* l l'"
  shows "lc_conns l' = {} \<and> lc_running l' = {} \<and> lc_leaving l' = {} \<and> \<not> lc_listening l' \<and>
    (\<forall>c \<in> lc_sockets l'. lc_acceptor l' = Got c \<and>
      life_step l' (l'\<lparr>lc_acceptor := Stopped, lc_sockets := {}\<rparr>) \<and>
      (\<forall>l''. life_step l' l'' \<longrightarrow> c \<notin> lc_running l'' \<and> (c \<notin> lc_sockets l'' \<or> lc_acceptor l'' = Got c))) \<and>
    (lc_acceptor l' \<noteq> Stopped \<or> lc_sockets l' = {})"
proof -
  have ok: "life_ok l'" using life_steps_ok [OF assms(3) life_steps_ok [OF assms(1) life_start_ok]] .
  have c: "lc_shutdown l' = Complete" by (rule complete_forever [OF assms(3,2)])
  from ok c have idle: "lc_conns l' = {}" "lc_running l' = {}" "lc_leaving l' = {}" "\<not> lc_listening l'"
    "lc_sockets l' \<subseteq> {c. lc_acceptor l' = Got c}" "lc_closing l'" by (auto simp: life_ok_def)
  have "life_step l' (l'\<lparr>lc_acceptor := Stopped, lc_sockets := {}\<rparr>)" if "lc_acceptor l' = Got k" for k
  proof -
    have e: "lc_sockets l' - {k} = {}" using idle(5) that by auto
    from turn_away [OF that idle(6)] show ?thesis unfolding e .
  qed
  moreover have "k \<notin> lc_running l'' \<and> (k \<notin> lc_sockets l'' \<or> lc_acceptor l'' = Got k)"
    if "life_step l' l''" "lc_acceptor l' = Got k" for k l''
    using that idle by (cases rule: life_step.cases) auto
  ultimately show ?thesis using idle(1-5) by auto
qed

text \<open>
  A later call of \<open>Shutdown\<close> gives no such promise: it returns while a connection is still served.
\<close>

theorem second_shutdown_early:
  "\<exists>l. life_step\<^sup>*\<^sup>* (life_start 2) l \<and> lc_early l = 1 \<and> lc_running l \<noteq> {} \<and> lc_sockets l \<noteq> {}"
proof -
  note steps = converse_rtranclp_into_rtranclp
  let ?l = "\<lparr>lc_acceptor = Accepting, lc_listening = True, lc_closing = True, lc_conns = {0}, lc_wg = 1,
     lc_running = {0}, lc_leaving = {}, lc_sockets = {0}, lc_shutdown = Snapshot {0}, lc_callers = 0, lc_early = 1, lc_next = 1\<rparr>"
  have "life_step\<^sup>*\<^sup>* (life_start 2) ?l"
    unfolding life_start_def
    by (rule steps, rule accept, simp, simp, simp, rule steps, rule register, simp, simp, simp,
      rule steps, rule begin_shutdown [where n = 1], simp, simp, simp, simp, rule steps, rule shutdown_again [where n = 0], simp, simp) simp
  then show ?thesis by (intro exI [of _ ?l]) simp
qed

text \<open>
  C17. A \<open>Shutdown\<close> that has begun returns, and \<open>Serve\<close> with it: from every state of a closing server a
  state is reached in which both are done, every step leads closer to it, and no other state is
  final; and while \<open>Shutdown\<close> waits, every connection it waits for has its socket closed, so no peer can hold it up.
\<close>

theorem shutdown_completes:
  assumes "life_step\<^sup>*\<^sup>* (life_start n) l" and "lc_closing l"
  shows "(\<exists>l'. life_step\<^sup>*\<^sup>* l l' \<and> lc_shutdown l' = Complete \<and> lc_acceptor l' = Stopped) \<and>
    (\<forall>l'. life_step l l' \<longrightarrow> lc_closing l' \<and> life_rank l' < life_rank l) \<and>
    ((\<exists>l'. life_step l l') \<or> lc_shutdown l = Complete \<and> lc_acceptor l = Stopped) \<and>
    (lc_shutdown l \<noteq> Awaiting \<or> lc_running l \<inter> lc_sockets l = {})"
proof -
  have ok: "life_ok l" by (rule life_steps_ok [OF assms(1) life_start_ok])
  then have "lc_shutdown l \<noteq> Awaiting \<or> lc_running l \<inter> lc_sockets l = {}" by (simp add: life_ok_def)
  then show ?thesis
    using closing_reaches [OF ok assms(2)] closing_step [OF _ ok assms(2)] closing_progress [OF ok assms(2)]
    by blast
qed

text \<open>A server that is shut down with one connection registered and another just accepted.\<close>

definition demo_closing :: lifecycle where
  "demo_closing =
    \<lparr>lc_acceptor = Got 1, lc_listening = True, lc_closing = True, lc_conns = {0}, lc_wg = 1,
     lc_running = {0}, lc_leaving = {}, lc_sockets = {0, 1}, lc_shutdown = Snapshot {0},
     lc_callers = 0, lc_early = 0, lc_next = 2\<rparr>"

lemma demo_closing_reached: "life_step\<^sup>*\<^sup>* (life_start 1) demo_closing"
proof -
  note steps = converse_rtranclp_into_rtranclp
  show ?thesis
    unfolding life_start_def demo_closing_def
    by (rule steps, rule accept, simp, simp, simp, rule steps, rule register, simp, simp, simp,
      rule steps, rule accept, simp, simp, simp, rule steps, rule begin_shutdown [where n = 0], simp, simp, simp)
      (simp add: insert_commute numeral_2_eq_2)
qed

lemma shutdown_completes_witness:
  "\<exists>l'. life_step\<^sup>*\<^sup>* demo_closing l' \<and> lc_shutdown l' = Complete \<and> lc_acceptor l' = Stopped"
  by (rule shutdown_completes [OF demo_closing_reached, THEN conjunct1]) (simp add: demo_closing_def)

lemma shutdown_leaves_nothing_witness:
  "\<exists>l. life_step\<^sup>*\<^sup>* demo_closing l \<and> lc_shutdown l = Complete \<and> lc_conns l = {} \<and>
    (lc_acceptor l \<noteq> Stopped \<or> lc_sockets l = {})"
proof -
  have "life_ok demo_closing" by (rule life_steps_ok [OF demo_closing_reached life_start_ok])
  then obtain l where l: "life_step\<^sup>*\<^sup>* demo_closing l" "lc_shutdown l = Complete"
    using closing_reaches [of demo_closing] by (auto simp: demo_closing_def)
  from shutdown_leaves_nothing [OF rtranclp_trans [OF demo_closing_reached l(1)] l(2) rtranclp.rtrancl_refl]
  show ?thesis using l by blast
qed

text \<open>
  \<open>NewServer\<close> accepts its options exactly when a user has a password and there is at least one share,
  each with a name and a filesystem, none named IPC$ and no two of the same name, in any case; it
  then exports the shares in their order, with their read-only flags.
\<close>

theorem new_server_accepts:
  "NewServer U user pass defs = Inr shs \<longleftrightarrow>
    (user = [] \<or> pass \<noteq> []) \<and> defs \<noteq> [] \<and> list_all (good_def U) defs \<and>
    distinct (map (folded U \<circ> sd_Name) defs) \<and> shs = map share_of_def defs"
  by (auto simp: NewServer_def add_shares_iff)

text \<open>The share a TREE_CONNECT asks for.\<close>

definition tree_share_name :: "bytes \<Rightarrow> gostring" where
  "tree_share_name body = shareFromPath
    (case bufferAt body (get16 body 4) (get16 body 6) of None \<Rightarrow> [] | Some buf \<Rightarrow> utf16leToString buf)"

text \<open>
  C13. A TREE_CONNECT to any of the shares \<open>NewServer\<close> accepted, its name in any case, succeeds: the tree
  it creates is on exactly this share, and the access it grants is the read-only one just when
  the share is.
\<close>

theorem tree_connect_reaches_share:
  assumes "NewServer (sv_U S) user pass defs = Inr (sv_shares S)" and "i < length defs"
    and "EqualFold (sv_U S) (tree_share_name body) (sd_Name (defs ! i))" and "8 \<le> length body"
    and "handleTreeConnect S body s = ((status, tid, rb), s')"
  shows "status = statusSuccess \<and> cn_diskTrees s' tid = Some (share_of_def (defs ! i)) \<and>
    get32 rb 12 = (if sd_ReadOnly (defs ! i) then 0x001200A9 else 0x001F01FF)"
proof -
  have "sv_shares S = map share_of_def defs" "distinct (map (folded (sv_U S) \<circ> sd_Name) defs)"
    using assms(1) by (auto simp: NewServer_def add_shares_iff split: if_splits)
  moreover have "map (folded U \<circ> sh_name) (map share_of_def defs) = map (folded U \<circ> sd_Name) defs" for U
    by (simp add: share_of_def_def)
  ultimately have "distinct (map (folded (sv_U S) \<circ> sh_name) (sv_shares S))" "sv_shares S ! i = share_of_def (defs ! i)"
    "i < length (sv_shares S)"
    using assms(2) by (simp_all only: nth_map length_map)
  then have "find_share (sv_U S) (sv_shares S) (tree_share_name body) = Some (share_of_def (defs ! i))"
    using find_share_nth [of "sv_U S" "sv_shares S" i "tree_share_name body"] assms(3)
    by (simp add: share_of_def_def)
  then show ?thesis
    using assms(4,5)
    by (auto simp: handleTreeConnect_def Let_def findShare_def nextTreeID_def tree_share_name_def share_of_def_def)
qed

definition demo_def :: "osw shareDef" where
  "demo_def = \<lparr>sd_Name = ascii ''data'', sd_FS = Some (localFS Linux (Inr (4096, 1000, 500)) srv_root),
     sd_ReadOnly = False\<rparr>"

text \<open>A TREE_CONNECT to \<open>H\DATA\<close>.\<close>

definition demo_unc :: gostring where
  "demo_unc = [0x5C, 0x5C, 0x48, 0x5C, 0x44, 0x41, 0x54, 0x41]"

definition demo_tree_connect :: bytes where
  "demo_tree_connect = [9, 0, 0, 0, 72, 0, 16, 0] @ stringToUTF16le demo_unc"

lemma demo_tree_connect_fields: "8 \<le> length demo_tree_connect" "tree_share_name demo_tree_connect = ascii ''DATA''"
proof -
  have a: "\<forall>b \<in> set demo_unc. unat b < 128" by (simp add: demo_unc_def)
  have l: "length (stringToUTF16le demo_unc) = 16"
    using length_stringToUTF16le_ascii [OF a] by (simp add: demo_unc_def)
  then show "8 \<le> length demo_tree_connect" by (simp add: demo_tree_connect_def)
  have "get16 demo_tree_connect 4 = 72" "get16 demo_tree_connect 6 = 16"
    by (simp_all add: demo_tree_connect_def un16_def)
  then have "bufferAt demo_tree_connect (get16 demo_tree_connect 4) (get16 demo_tree_connect 6) =
      Some (stringToUTF16le demo_unc)"
    using l by (simp add: bufferAt_def demo_tree_connect_def slice_def)
  moreover have "utf16leToString (stringToUTF16le demo_unc) = demo_unc"
    using runes_ascii [OF a] by (simp add: utf16le_roundtrip) (simp add: demo_unc_def string_of_runes_def utf8_encode_def)
  ultimately show "tree_share_name demo_tree_connect = ascii ''DATA''"
    by (simp add: tree_share_name_def) (simp add: demo_unc_def shareFromPath_def)
qed

lemma tree_connect_reaches_share_witness:
  "\<exists>tid. cn_diskTrees (snd (handleTreeConnect (demo_server [] [demo_share False]) demo_tree_connect
     (newConn 0 0 demo_osw))) tid = Some (share_of_def demo_def)"
proof -
  let ?S = "demo_server [] [demo_share False]"
  obtain st tid rb s' where e: "handleTreeConnect ?S demo_tree_connect (newConn 0 0 demo_osw) = ((st, tid, rb), s')"
    by (metis surj_pair)
  have r: "runes (ascii ''data'') = [100, 97, 116, 97]" "runes (ascii ''DATA'') = [68, 65, 84, 65]"
    "runes (ascii ''IPC$'') = [73, 80, 67, 36]" by code_simp+
  note r = r [simplified]
  have "\<not> EqualFold (sv_U ?S) (ascii ''data'') (ascii ''IPC$'')"
    by (simp add: EqualFold_def r fold_rune_def ascii_lower_def)
  then have "good_def (sv_U ?S) demo_def" by (simp add: good_def_def demo_def_def)
  moreover have "sv_shares ?S = [share_of_def demo_def]"
    by (simp add: demo_server_def share_of_def_def demo_def_def demo_share_def)
  ultimately have n: "NewServer (sv_U ?S) [] [] [demo_def] = Inr (sv_shares ?S)"
    by (simp add: NewServer_def add_shares_iff del: add_shares.simps demo_server_simps(6))
  have "EqualFold (sv_U ?S) (tree_share_name demo_tree_connect) (sd_Name ([demo_def] ! 0))"
    by (simp add: demo_tree_connect_fields demo_def_def EqualFold_def r fold_rune_def ascii_lower_def)
  from tree_connect_reaches_share [OF n _ this _ e] show ?thesis
    using e demo_tree_connect_fields(1) by auto
qed

end
