(* ===== verification/CommandLine.thy ===== *)
theory CommandLine
  imports Lifecycle
begin

text \<open>
  \<open>main.go\<close>: the flags that name the shares, the names of shares that were not named, and the
  options the server is started with, on a Unix system. The working directory, URLs, and the
  two ways to open a source are parameters.
\<close>

section \<open>The share flags\<close>

record shareArg =
  sa_folder :: gostring
  sa_vfs :: gostring
  sa_name :: gostring

definition source :: "shareArg \<Rightarrow> gostring" where
  "source a = (if sa_vfs a \<noteq> [] then sa_vfs a else sa_folder a)"

datatype flagError = EmptyShareName | ShareWithoutSource | AlreadyNamed gostring gostring

definition folderFlag_Set :: "gostring \<Rightarrow> shareArg list \<Rightarrow> flagError + shareArg list" where
  "folderFlag_Set v args = Inr (args @ [\<lparr>sa_folder = v, sa_vfs = [], sa_name = []\<rparr>])"

definition vfsFlag_Set :: "gostring \<Rightarrow> shareArg list \<Rightarrow> flagError + shareArg list" where
  "vfsFlag_Set v args = Inr (args @ [\<lparr>sa_folder = [], sa_vfs = v, sa_name = []\<rparr>])"

definition shareNameFlag_Set :: "gostring \<Rightarrow> shareArg list \<Rightarrow> flagError + shareArg list" where
  "shareNameFlag_Set v args =
    (if v = [] then Inl EmptyShareName
     else if args = [] then Inl ShareWithoutSource
     else if sa_name (last args) \<noteq> [] then Inl (AlreadyNamed (source (last args)) (sa_name (last args)))
     else Inr (butlast args @ [last args\<lparr>sa_name := v\<rparr>]))"

text \<open>The flag package calls \<open>Set\<close> in the order of the arguments, and stops at an error.\<close>

datatype shareFlag = Folder gostring | Vfs gostring | Share gostring

fun flag_Set :: "shareFlag \<Rightarrow> shareArg list \<Rightarrow> flagError + shareArg list" where
  "flag_Set (Folder v) = folderFlag_Set v"
| "flag_Set (Vfs v) = vfsFlag_Set v"
| "flag_Set (Share v) = shareNameFlag_Set v"

fun flag_Parse :: "shareFlag list \<Rightarrow> shareArg list \<Rightarrow> flagError + shareArg list" where
  "flag_Parse [] args = Inr args"
| "flag_Parse (f # fs) args =
    (case flag_Set f args of Inl e \<Rightarrow> Inl e | Inr args \<Rightarrow> flag_Parse fs args)"

text \<open>How a share is written on the command line.\<close>

definition written :: "shareArg \<Rightarrow> shareFlag list" where
  "written a = (if sa_vfs a \<noteq> [] then Vfs (sa_vfs a) else Folder (sa_folder a)) #
     (if sa_name a = [] then [] else [Share (sa_name a)])"

definition one_source :: "shareArg \<Rightarrow> bool" where
  "one_source a \<longleftrightarrow> sa_folder a = [] \<or> sa_vfs a = []"

lemma flag_Parse_append:
  "flag_Parse (fs @ gs) args = (case flag_Parse fs args of Inl e \<Rightarrow> Inl e | Inr args \<Rightarrow> flag_Parse gs args)"
  by (induction fs args rule: flag_Parse.induct) (auto split: sum.split)

lemma flag_Parse_written: "one_source a \<Longrightarrow> flag_Parse (written a) args = Inr (args @ [a])"
  by (cases a) (auto simp: written_def one_source_def folderFlag_Set_def vfsFlag_Set_def shareNameFlag_Set_def)

lemma flag_Parse_all:
  "list_all one_source as \<Longrightarrow> flag_Parse (concat (map written as)) args = Inr (args @ as)"
  by (induction as arbitrary: args) (simp_all add: flag_Parse_append flag_Parse_written)

section \<open>Names for shares\<close>

text \<open>\<open>wd\<close> is \<open>filepath.Abs\<close>, which depends on the working directory and can fail.\<close>

type_synonym absolute = "gostring \<Rightarrow> goerror + gostring"

definition abs_or :: "absolute \<Rightarrow> gostring \<Rightarrow> gostring" where
  "abs_or wd folder = (case wd folder of Inl _ \<Rightarrow> folder | Inr a \<Rightarrow> a)"

definition baseName :: "absolute \<Rightarrow> gostring \<Rightarrow> gostring" where
  "baseName wd folder =
    (let base = path_Base (abs_or wd folder)
     in if base = dot \<or> base = [slash] \<or> last base = 0x3A then [] else base)"

fun FieldsFunc :: "(byte \<Rightarrow> bool) \<Rightarrow> gostring \<Rightarrow> gostring \<Rightarrow> gostring list" where
  "FieldsFunc sep acc [] = (if acc = [] then [] else [acc])"
| "FieldsFunc sep acc (b # s) =
    (if sep b then (if acc = [] then [] else [acc]) @ FieldsFunc sep [] s
     else FieldsFunc sep (acc @ [b]) s)"

definition flattenName :: "unicode \<Rightarrow> absolute \<Rightarrow> gostring \<Rightarrow> gostring" where
  "flattenName U wd folder =
    (let s = ToLower U (abs_or wd folder);
         s = filter (\<lambda>b. b \<noteq> 0x3A) s
     in join_with 0x5F (FieldsFunc (\<lambda>b. b = backslash \<or> b = slash) [] s))"

text \<open>\<open>host\<close>: the host of a URL that parses and has one.\<close>

definition flattenHost :: "unicode \<Rightarrow> (gostring \<Rightarrow> gostring option) \<Rightarrow> gostring \<Rightarrow> gostring" where
  "flattenHost U host rawURL =
    (let s = ToLower U (case host rawURL of Some h \<Rightarrow> h | None \<Rightarrow> rawURL)
     in string_of_runes (map (\<lambda>r. if 97 \<le> r \<and> r \<le> 122 \<or> 48 \<le> r \<and> r \<le> 57 then r else 0x5F) (runes s)))"

definition candidate :: "absolute \<Rightarrow> shareArg \<Rightarrow> gostring" where
  "candidate wd a = (if sa_name a = [] then baseName wd (sa_folder a) else sa_name a)"

definition nameCount :: "unicode \<Rightarrow> absolute \<Rightarrow> shareArg list \<Rightarrow> gostring \<Rightarrow> nat \<Rightarrow> nat" where
  "nameCount U wd args name skip =
    length (filter (\<lambda>i. i \<noteq> skip \<and> EqualFold U (candidate wd (args ! i)) name) [0..<length args])"

definition assign_name :: "unicode \<Rightarrow> absolute \<Rightarrow> nat \<Rightarrow> shareArg list \<Rightarrow> shareArg list" where
  "assign_name U wd i args =
    (if sa_name (args ! i) \<noteq> [] then args
     else
       let base = baseName wd (sa_folder (args ! i))
       in args[i := (args ! i)\<lparr>sa_name :=
            (if base = [] \<or> nameCount U wd args base i > 0
             then flattenName U wd (sa_folder (args ! i)) else base)\<rparr>])"

text \<open>The check for duplicates, by lower-cased name; \<open>fatalf\<close> ends the program.\<close>

fun used_twice :: "unicode \<Rightarrow> shareArg list \<Rightarrow> gostring list \<Rightarrow> gostring option" where
  "used_twice U [] seen = None"
| "used_twice U (a # as) seen =
    (if ToLower U (sa_name a) \<in> set seen then Some (sa_name a)
     else used_twice U as (ToLower U (sa_name a) # seen))"

definition assignShareNames :: "unicode \<Rightarrow> absolute \<Rightarrow> shareArg list \<Rightarrow> gostring + shareArg list" where
  "assignShareNames U wd args =
    (let args = fold (assign_name U wd) [0..<length args] args
     in case used_twice U args [] of Some name \<Rightarrow> Inl name | None \<Rightarrow> Inr args)"

section \<open>Starting the server\<close>

text \<open>
  What \<open>httpvfs.NewWithOptions\<close> gives for a URL: the name and read-only flag the provider declares,
  and the filesystem; \<open>localfs.New\<close> gives a filesystem for a folder.
\<close>

record 'w remoteFS =
  rf_Name :: gostring
  rf_ReadOnly :: bool
  rf_FS :: "'w fs"

record 'w platformEnv =
  pe_U :: unicode
  pe_Getwd :: "goerror + gostring"
  pe_abs :: absolute
  pe_host :: "gostring \<Rightarrow> gostring option"
  pe_connect :: "gostring \<Rightarrow> goerror + 'w remoteFS"
  pe_localfs :: "gostring \<Rightarrow> goerror + 'w fs"

record flags =
  fl_user :: gostring
  fl_pass :: gostring
  fl_guest :: bool
  fl_readonly :: bool

datatype mainError =
    BadWorkingDir goerror | ProviderError goerror | NameTwice gostring | FolderError gostring goerror
  | BadOptions optionError

definition default_args :: "'w platformEnv \<Rightarrow> shareArg list \<Rightarrow> mainError + shareArg list" where
  "default_args E args =
    (if args = [] then
       (case pe_Getwd E of
          Inl e \<Rightarrow> Inl (BadWorkingDir e)
        | Inr cwd \<Rightarrow> Inr [\<lparr>sa_folder = cwd, sa_vfs = [], sa_name = ascii ''data''\<rparr>])
     else Inr args)"

text \<open>The connected providers, beside the arguments with the names they gave.\<close>

fun connect_vfs :: "'w platformEnv \<Rightarrow> shareArg list \<Rightarrow> mainError + (shareArg \<times> 'w remoteFS option) list" where
  "connect_vfs E [] = Inr []"
| "connect_vfs E (a # as) =
    (if sa_vfs a = [] then map_sum id ((#) (a, None)) (connect_vfs E as)
     else
       (case pe_connect E (sa_vfs a) of
          Inl e \<Rightarrow> Inl (ProviderError e)
        | Inr f \<Rightarrow>
            let name = (if sa_name a = [] then rf_Name f else sa_name a);
                name = (if name = [] then flattenHost (pe_U E) (pe_host E) (sa_vfs a) else name)
            in map_sum id ((#) (a\<lparr>sa_name := name\<rparr>, Some f)) (connect_vfs E as)))"

fun share_defs :: "'w platformEnv \<Rightarrow> bool \<Rightarrow> (shareArg \<times> 'w remoteFS option) list \<Rightarrow> mainError + 'w shareDef list" where
  "share_defs E ro [] = Inr []"
| "share_defs E ro ((a, Some f) # as) =
    map_sum id ((#) \<lparr>sd_Name = sa_name a, sd_FS = Some (rf_FS f), sd_ReadOnly = (ro \<or> rf_ReadOnly f)\<rparr>)
      (share_defs E ro as)"
| "share_defs E ro ((a, None) # as) =
    (case pe_localfs E (sa_folder a) of
       Inl e \<Rightarrow> Inl (FolderError (sa_name a) e)
     | Inr F \<Rightarrow> map_sum id ((#) \<lparr>sd_Name = sa_name a, sd_FS = Some F, sd_ReadOnly = ro\<rparr>) (share_defs E ro as))"

definition main :: "'w platformEnv \<Rightarrow> flags \<Rightarrow> shareArg list \<Rightarrow> mainError + gostring \<times> gostring \<times> 'w share list" where
  "main E fl args =
    (case default_args E args of
       Inl e \<Rightarrow> Inl e
     | Inr args \<Rightarrow>
         (case connect_vfs E args of
            Inl e \<Rightarrow> Inl e
          | Inr cs \<Rightarrow>
              (case assignShareNames (pe_U E) (pe_abs E) (map fst cs) of
                 Inl name \<Rightarrow> Inl (NameTwice name)
               | Inr args \<Rightarrow>
                   let user = (if fl_guest fl then [] else fl_user fl);
                       pass = (if fl_guest fl then [] else fl_pass fl)
                   in case share_defs E (fl_readonly fl) (zip args (map snd cs)) of
                        Inl e \<Rightarrow> Inl e
                      | Inr defs \<Rightarrow>
                          (case NewServer (pe_U E) user pass defs of
                             Inl e \<Rightarrow> Inl (BadOptions e)
                           | Inr shs \<Rightarrow> Inr (user, pass, shs)))))"

section \<open>Lemmas on names\<close>

lemma length_assign_name [simp]: "length (assign_name U wd i args) = length args"
  by (simp add: assign_name_def Let_def)

lemma length_assign_names [simp]: "length (fold (assign_name U wd) is args) = length args"
  by (induction "is" arbitrary: args) simp_all

text \<open>The name of the share at \<open>i\<close>, given the names of the others at that time.\<close>

definition chosen_name :: "unicode \<Rightarrow> absolute \<Rightarrow> shareArg list \<Rightarrow> nat \<Rightarrow> gostring" where
  "chosen_name U wd args i =
    (let base = baseName wd (sa_folder (args ! i))
     in if sa_name (args ! i) \<noteq> [] then sa_name (args ! i)
        else if base = [] \<or> nameCount U wd args base i > 0 then flattenName U wd (sa_folder (args ! i))
        else base)"

lemma assign_name_chosen:
  "assign_name U wd i args = args[i := (args ! i)\<lparr>sa_name := chosen_name U wd args i\<rparr>]"
  by (simp add: assign_name_def chosen_name_def Let_def)

lemma assign_names:
  "k \<le> length args \<Longrightarrow>
   let out = fold (assign_name U wd) [0..<k] args
   in drop k out = drop k args \<and>
     (\<forall>j < k. out ! j = (args ! j)\<lparr>sa_name := chosen_name U wd (take j out @ drop j args) j\<rparr>)"
proof (induction k)
  case (Suc k)
  let ?o = "fold (assign_name U wd) [0..<k] args"
  let ?n = "chosen_name U wd ?o k"
  have len: "length ?o = length args" by simp
  have d: "drop k ?o = drop k args"
    and f: "\<forall>j < k. ?o ! j = (args ! j)\<lparr>sa_name := chosen_name U wd (take j ?o @ drop j args) j\<rparr>"
    using Suc by (simp_all add: Let_def)
  have ok: "?o ! k = args ! k" using d Suc.prems len by (metis Cons_nth_drop_Suc Suc_le_lessD list.inject)
  have o: "fold (assign_name U wd) [0..<Suc k] args = ?o[k := (args ! k)\<lparr>sa_name := ?n\<rparr>]"
    by (simp add: assign_name_chosen ok)
  have "take k ?o @ drop k args = ?o" using d by (metis append_take_drop_id)
  then have "?o[k := (args ! k)\<lparr>sa_name := ?n\<rparr>] ! j =
      (args ! j)\<lparr>sa_name := chosen_name U wd (take j (?o[k := (args ! k)\<lparr>sa_name := ?n\<rparr>]) @ drop j args) j\<rparr>"
    if "j < Suc k" for j
    using f that Suc.prems len by (cases "j = k") auto
  moreover have "drop (Suc k) (?o[k := (args ! k)\<lparr>sa_name := ?n\<rparr>]) = drop (Suc k) args"
    using d by (metis drop_Suc drop_update_cancel lessI tl_drop)
  ultimately show ?case unfolding o Let_def by blast
qed simp

lemma used_twice_None:
  "used_twice U as seen = None \<longleftrightarrow>
    distinct (map (ToLower U \<circ> sa_name) as) \<and> (ToLower U \<circ> sa_name) ` set as \<inter> set seen = {}"
  by (induction as arbitrary: seen) auto

section \<open>Properties\<close>

text \<open>
  The share flags pair up: each -folder or -vfs, with the -share after it when it has one, gives one
  share with that source and name, in the order of the command line; a -share before any source, a
  second -share for the same source and an empty name are errors.
\<close>

theorem share_flags_pair:
  assumes "list_all one_source args"
  shows "flag_Parse (concat (map written args)) [] = Inr args \<and>
    flag_Parse (Share v # fs) [] = Inl (if v = [] then EmptyShareName else ShareWithoutSource) \<and>
    (args = [] \<or> sa_name (last args) = [] \<or> v = [] \<or>
      flag_Parse (concat (map written args) @ [Share v]) [] =
        Inl (AlreadyNamed (source (last args)) (sa_name (last args))))"
  using flag_Parse_all [OF assms, of "[]"]
  by (auto simp: flag_Parse_append shareNameFlag_Set_def)

lemma share_flags_pair_witness:
  "flag_Parse [Folder (ascii ''/a''), Share (ascii ''x''), Vfs (ascii ''http://h'')] [] =
    Inr [\<lparr>sa_folder = ascii ''/a'', sa_vfs = [], sa_name = ascii ''x''\<rparr>,
         \<lparr>sa_folder = [], sa_vfs = ascii ''http://h'', sa_name = []\<rparr>]"
  using share_flags_pair [of "[\<lparr>sa_folder = ascii ''/a'', sa_vfs = [], sa_name = ascii ''x''\<rparr>,
    \<lparr>sa_folder = [], sa_vfs = ascii ''http://h'', sa_name = []\<rparr>]", THEN conjunct1]
  by (simp add: one_source_def written_def del: flag_Parse.simps)

lemma names_assigned:
  assumes "assignShareNames U wd args = Inr out"
  shows "length out = length args" "distinct (map (ToLower U \<circ> sa_name) out)"
    and "\<And>j. j < length args \<Longrightarrow> out ! j = (args ! j)\<lparr>sa_name := chosen_name U wd (take j out @ drop j args) j\<rparr>"
  using assms assign_names [of "length args" args U wd]
  by (auto simp: assignShareNames_def Let_def used_twice_None split: option.splits)

lemma nameCount_pos:
  "nameCount U wd args name skip > 0 \<longleftrightarrow>
    (\<exists>i < length args. i \<noteq> skip \<and> EqualFold U (candidate wd (args ! i)) name)"
  unfolding nameCount_def length_greater_0_conv filter_empty_conv by auto

text \<open>The name that the share at \<open>j\<close> has in the end, \<open>out\<close>, among the sources \<open>args\<close>.\<close>

definition well_named :: "unicode \<Rightarrow> absolute \<Rightarrow> shareArg list \<Rightarrow> shareArg list \<Rightarrow> nat \<Rightarrow> bool" where
  "well_named U wd args out j =
    (let a = args ! j; b = out ! j; base = baseName wd (sa_folder a) in
       sa_folder b = sa_folder a \<and> sa_vfs b = sa_vfs a \<and>
       (if sa_name a \<noteq> [] then sa_name b = sa_name a
        else sa_name b \<in> {base, flattenName U wd (sa_folder a)} \<and>
          (base = [] \<or> (\<exists>i < length args. i \<noteq> j \<and> (j < i \<or> sa_name (args ! i) \<noteq> []) \<and>
             EqualFold U (candidate wd (args ! i)) base) \<longrightarrow> sa_name b = flattenName U wd (sa_folder a)) \<and>
          (base \<noteq> [] \<and> (\<forall>i < length args. i \<noteq> j \<longrightarrow>
             \<not> EqualFold U (candidate wd (args ! i)) base \<and> \<not> EqualFold U (candidate wd (out ! i)) base) \<longrightarrow>
           sa_name b = base)))"

lemma name_kept:
  assumes "assignShareNames U wd args = Inr out" and "i < length args" and "sa_name (args ! i) \<noteq> []"
  shows "out ! i = args ! i"
proof -
  have "(take i out @ drop i args) ! i = args ! i"
    using assms(2) names_assigned(1) [OF assms(1)] by (simp add: nth_append)
  then show ?thesis using names_assigned(3) [OF assms(1,2)] assms(3) by (simp add: chosen_name_def)
qed

lemma share_well_named:
  assumes "assignShareNames U wd args = Inr out" and j: "j < length args"
  shows "well_named U wd args out j"
proof -
  note o = names_assigned [OF assms(1)] and named = name_kept [OF assms(1)]
  let ?L = "take j out @ drop j args" and ?base = "baseName wd (sa_folder (args ! j))"
  have L: "length ?L = length args" "?L ! j = args ! j" using j o(1) by (simp_all add: nth_append)
  have nth: "?L ! i = (if i < j then out ! i else args ! i)" if "i < length args" for i
    using that j o(1) by (simp add: nth_append)
  have n: "sa_name (out ! j) = chosen_name U wd ?L j" "sa_folder (out ! j) = sa_folder (args ! j)"
    "sa_vfs (out ! j) = sa_vfs (args ! j)" using o(3) [OF j] by simp_all
  have c: "nameCount U wd ?L ?base j > 0 \<longleftrightarrow>
      (\<exists>i < length args. i \<noteq> j \<and> EqualFold U (candidate wd (if i < j then out ! i else args ! i)) ?base)"
    unfolding nameCount_pos L(1) using nth by (intro ex_cong1 conj_cong refl) simp
  have name: "chosen_name U wd ?L j = (if sa_name (args ! j) \<noteq> [] then sa_name (args ! j)
      else if ?base = [] \<or> nameCount U wd ?L ?base j > 0 then flattenName U wd (sa_folder (args ! j)) else ?base)"
    unfolding chosen_name_def Let_def L(2) ..
  have later: "nameCount U wd ?L ?base j > 0"
    if "\<exists>i < length args. i \<noteq> j \<and> (j < i \<or> sa_name (args ! i) \<noteq> []) \<and> EqualFold U (candidate wd (args ! i)) ?base"
  proof -
    from that obtain i where i: "i < length args" "i \<noteq> j" "j < i \<or> sa_name (args ! i) \<noteq> []"
      "EqualFold U (candidate wd (args ! i)) ?base" by blast
    then have "(if i < j then out ! i else args ! i) = args ! i" using named by auto
    with i show ?thesis unfolding c by metis
  qed
  have free: "\<not> nameCount U wd ?L ?base j > 0"
    if "\<forall>i < length args. i \<noteq> j \<longrightarrow>
      \<not> EqualFold U (candidate wd (args ! i)) ?base \<and> \<not> EqualFold U (candidate wd (out ! i)) ?base"
    unfolding c using that by auto
  let ?flat = "flattenName U wd (sa_folder (args ! j))"
  have unnamed: "sa_name (out ! j) = (if ?base = [] \<or> nameCount U wd ?L ?base j > 0 then ?flat else ?base)"
    if "sa_name (args ! j) = []" using that unfolding n name by simp
  have kept: "sa_name (out ! j) = sa_name (args ! j)" if "sa_name (args ! j) \<noteq> []"
    using that unfolding n name by simp
  show ?thesis
  proof (cases "sa_name (args ! j) = []")
    case True
    then have nt: "\<not> sa_name (args ! j) \<noteq> []" by simp
    show ?thesis
      unfolding well_named_def Let_def n(2,3) if_not_P [OF nt] unnamed [OF True]
    proof (intro conjI impI, rule refl, rule refl, simp, goal_cases)
      case 1
      then have "?base = [] \<or> nameCount U wd ?L ?base j > 0" by (elim disjE) (rule disjI1, assumption, rule disjI2, rule later)
      then show ?case by (rule if_P)
    next
      case 2
      show ?case by (rule if_not_P) (use 2 free in blast)
    qed
  next
    case False
    then show ?thesis by (simp add: well_named_def Let_def kept [OF False] n(2,3))
  qed
qed

text \<open>
  C32. The names of the shares: when \<open>assignShareNames\<close> accepts them they are pairwise different in any
  case, every source is as it was and every given name is kept; a share without a name
  gets the base name of its folder or the flattened path: the flattened path when there is no
  base name, or a later source or a given name claims the same one, and the base name when nobody
  else does.
\<close>

theorem share_names_assigned:
  assumes "assignShareNames U wd args = Inr out"
  shows "length out = length args \<and> distinct (map (ToLower U \<circ> sa_name) out) \<and>
    (\<forall>j < length args. well_named U wd args out j)"
  using names_assigned [OF assms] share_well_named [OF assms] by blast

text \<open>Two unnamed folders with the same base name.\<close>

definition demo_folder :: "byte \<Rightarrow> shareArg" where
  "demo_folder d = \<lparr>sa_folder = [slash, d, slash, 0x54], sa_vfs = [], sa_name = []\<rparr>"

lemma demo_folder_names:
  assumes "d \<in> {0x64, 0x65}"
  shows "baseName Inr (sa_folder (demo_folder d)) = [0x54]" "flattenName U Inr (sa_folder (demo_folder d)) = [d, 0x5F, 0x74]"
proof -
  have d: "unat d < 128" "d \<noteq> slash" "d \<noteq> 0x3A" "d \<noteq> backslash" using assms by auto
  show "baseName Inr (sa_folder (demo_folder d)) = [0x54]"
    by (simp add: baseName_def abs_or_def demo_folder_def path_Base_def)
  have "ToLower U [slash, d, slash, 0x54] = [slash, d, slash, 0x74]"
  proof -
    have "runes [slash, d, slash, 0x54] = map unat [slash, d, slash, 0x54]" using d(1) by (intro runes_ascii) simp
    moreover have "ascii_lower (unat d) = unat d" using assms by (auto simp: ascii_lower_def)
    moreover have "string_of_runes [47, unat d, 47, 116] = [slash, d, slash, 0x74]"
      using d(1) by (simp add: string_of_runes_def utf8_encode_def)
    ultimately show ?thesis using d(1) by (simp add: ToLower_def ascii_lower_def)
  qed
  then show "flattenName U Inr (sa_folder (demo_folder d)) = [d, 0x5F, 0x74]"
    using d by (simp add: flattenName_def abs_or_def demo_folder_def)
qed

lemma demo_names_differ:
  "\<not> EqualFold U [0x64, 0x5F, 0x74] [0x54]" "ToLower U [0x64, 0x5F, 0x74] \<noteq> ToLower U [0x54]"
proof -
  have r: "runes [0x64, 0x5F, 0x74] = [100, 95, 116]" "runes [0x54] = [84]"
    using runes_ascii [of "[0x64, 0x5F, 0x74]"] runes_ascii [of "[0x54]"] by simp_all
  then show "\<not> EqualFold U [0x64, 0x5F, 0x74] [0x54]" by (simp add: EqualFold_def)
  show "ToLower U [0x64, 0x5F, 0x74] \<noteq> ToLower U [0x54]"
    by (simp add: ToLower_def r ascii_lower_def string_of_runes_def utf8_encode_def)
qed

text \<open>
  Two unnamed folders with the same base name do not both get flattened names: the first
  does, and the second, which no longer collides, keeps the base name, so \<open>/d/T\<close> and \<open>/e/T\<close>
  are exported as \<open>d_t\<close> and \<open>T\<close> and not as \<open>d_t\<close> and \<open>e_t\<close>.
\<close>

theorem one_of_two_flattened:
  "assignShareNames U Inr [demo_folder 0x64, demo_folder 0x65] =
    Inr [(demo_folder 0x64)\<lparr>sa_name := [0x64, 0x5F, 0x74]\<rparr>, (demo_folder 0x65)\<lparr>sa_name := [0x54]\<rparr>]"
proof -
  have n: "sa_name (demo_folder d) = []" for d by (simp add: demo_folder_def)
  have c: "candidate Inr (demo_folder 0x65) = [0x54]" by (simp add: candidate_def n demo_folder_names)
  have one: "assign_name U Inr 0 [demo_folder 0x64, demo_folder 0x65] =
      [(demo_folder 0x64)\<lparr>sa_name := [0x64, 0x5F, 0x74]\<rparr>, demo_folder 0x65]"
    by (simp add: assign_name_def n demo_folder_names nameCount_def c)
  have two: "assign_name U Inr 1 [(demo_folder 0x64)\<lparr>sa_name := [0x64, 0x5F, 0x74]\<rparr>, demo_folder 0x65] =
      [(demo_folder 0x64)\<lparr>sa_name := [0x64, 0x5F, 0x74]\<rparr>, (demo_folder 0x65)\<lparr>sa_name := [0x54]\<rparr>]"
    by (simp add: assign_name_def n demo_folder_names nameCount_def candidate_def demo_names_differ)
  have i: "[0..<length [demo_folder 0x64, demo_folder 0x65]] = [0, 1]" by (simp add: upt_rec)
  show ?thesis
    unfolding assignShareNames_def Let_def i using demo_names_differ(2) [of U]
    by (simp add: one two [unfolded One_nat_def])
qed

lemma share_names_assigned_witness:
  "distinct (map (ToLower demo_unicode \<circ> sa_name)
    [(demo_folder 0x64)\<lparr>sa_name := [0x64, 0x5F, 0x74]\<rparr>, (demo_folder 0x65)\<lparr>sa_name := [0x54]\<rparr>])"
  by (rule share_names_assigned [of demo_unicode Inr "[demo_folder 0x64, demo_folder 0x65]", THEN conjunct2, THEN conjunct1])
    (rule one_of_two_flattened)

lemma share_names_count: "assignShareNames U wd args = Inr out \<Longrightarrow> length out = length args"
  by (auto simp: assignShareNames_def Let_def split: option.splits)

lemma map_sum_Inr: "map_sum f g x = Inr y \<longleftrightarrow> (\<exists>z. x = Inr z \<and> y = g z)"
  by (cases x) auto

text \<open>A source after its provider was asked, and the share that is defined for it.\<close>

definition source_connected :: "'w platformEnv \<Rightarrow> shareArg \<Rightarrow> shareArg \<times> 'w remoteFS option \<Rightarrow> bool" where
  "source_connected E a c \<longleftrightarrow>
    (if sa_vfs a = [] then c = (a, None)
     else \<exists>g. pe_connect E (sa_vfs a) = Inr g \<and>
       c = (a\<lparr>sa_name := (if sa_name a \<noteq> [] then sa_name a else if rf_Name g \<noteq> [] then rf_Name g
         else flattenHost (pe_U E) (pe_host E) (sa_vfs a))\<rparr>, Some g))"

lemma connect_vfs_all: "connect_vfs E as = Inr cs \<Longrightarrow> list_all2 (source_connected E) as cs"
  by (induction as arbitrary: cs)
    (auto simp: source_connected_def map_sum_Inr Let_def split: if_splits sum.splits)

definition source_defined :: "'w platformEnv \<Rightarrow> bool \<Rightarrow> shareArg \<times> 'w remoteFS option \<Rightarrow> 'w shareDef \<Rightarrow> bool" where
  "source_defined E ro c def \<longleftrightarrow> sd_Name def = sa_name (fst c) \<and>
    (case snd c of
       Some g \<Rightarrow> sd_FS def = Some (rf_FS g) \<and> sd_ReadOnly def = (ro \<or> rf_ReadOnly g)
     | None \<Rightarrow> (\<exists>F. pe_localfs E (sa_folder (fst c)) = Inr F \<and> sd_FS def = Some F) \<and> sd_ReadOnly def = ro)"

lemma share_defs_all: "share_defs E ro cs = Inr defs \<Longrightarrow> list_all2 (source_defined E ro) cs defs"
  by (induction E ro cs arbitrary: defs rule: share_defs.induct)
    (auto simp: source_defined_def map_sum_Inr split: sum.splits)

text \<open>
  The share of a source: a folder is served by \<open>localfs\<close> on this folder, a URL by the client of this
  provider; a name that was given, or else one the provider suggests, is kept.
\<close>

definition exported :: "'w platformEnv \<Rightarrow> bool \<Rightarrow> shareArg \<Rightarrow> 'w share \<Rightarrow> bool" where
  "exported E ro a sh \<longleftrightarrow>
    (sa_name a = [] \<or> sh_name sh = sa_name a) \<and>
    (if sa_vfs a = [] then pe_localfs E (sa_folder a) = Inr (sh_fs sh) \<and> sh_readOnly sh = ro
     else
       (case pe_connect E (sa_vfs a) of
          Inl _ \<Rightarrow> False
        | Inr g \<Rightarrow> sh_fs sh = rf_FS g \<and> sh_readOnly sh = (ro \<or> rf_ReadOnly g) \<and>
            (sa_name a \<noteq> [] \<or> rf_Name g = [] \<or> sh_name sh = rf_Name g)))"

lemma source_exported:
  assumes c: "source_connected E a c" and d: "source_defined E ro ((fst c)\<lparr>sa_name := n\<rparr>, snd c) def"
    and n: "sa_name (fst c) = [] \<or> n = sa_name (fst c)"
  shows "exported E ro a (share_of_def def)"
proof (cases "sa_vfs a = []")
  case True
  then show ?thesis
    using assms by (auto simp: source_connected_def source_defined_def exported_def share_of_def_def)
next
  case False
  obtain g N where g: "pe_connect E (sa_vfs a) = Inr g" and c': "c = (a\<lparr>sa_name := N\<rparr>, Some g)"
    and N: "N = (if sa_name a \<noteq> [] then sa_name a else if rf_Name g \<noteq> [] then rf_Name g
      else flattenHost (pe_U E) (pe_host E) (sa_vfs a))"
    using c False by (auto simp: source_connected_def)
  have "sh_fs (share_of_def def) = rf_FS g" "sh_readOnly (share_of_def def) = (ro \<or> rf_ReadOnly g)"
    "sh_name (share_of_def def) = n"
    using d by (simp_all add: source_defined_def c' share_of_def_def)
  moreover have "N = [] \<or> n = N" using n c' by auto
  then have "sa_name a = [] \<or> n = sa_name a" "sa_name a \<noteq> [] \<or> rf_Name g = [] \<or> n = rf_Name g"
    unfolding N by (auto split: if_splits)
  ultimately show ?thesis using False unfolding exported_def g by simp
qed

text \<open>
  C31. What a start exports: user and password are those of the flags, or none with -guest, and a user
  comes with a password; there is one share for each source in the order of the command line, or
  the one of the working directory, which serves this source under its name and is read-only
  exactly when -readonly was given or its provider declares itself so; and no two have the same name.
\<close>

theorem main_exports:
  assumes "main E fl args = Inr (user, pass, shs)"
  shows "user = (if fl_guest fl then [] else fl_user fl) \<and> pass = (if fl_guest fl then [] else fl_pass fl) \<and>
    (user = [] \<or> pass \<noteq> []) \<and> distinct (map (folded (pe_U E) \<circ> sh_name) shs) \<and>
    list_all2 (exported E (fl_readonly fl))
      (if args \<noteq> [] then args
       else case pe_Getwd E of Inr cwd \<Rightarrow> [\<lparr>sa_folder = cwd, sa_vfs = [], sa_name = ascii ''data''\<rparr>] | Inl _ \<Rightarrow> []) shs"
proof -
  obtain as cs out defs where as: "default_args E args = Inr as" and cs: "connect_vfs E as = Inr cs"
    and out: "assignShareNames (pe_U E) (pe_abs E) (map fst cs) = Inr out"
    and defs: "share_defs E (fl_readonly fl) (zip out (map snd cs)) = Inr defs"
    and user: "user = (if fl_guest fl then [] else fl_user fl)" "pass = (if fl_guest fl then [] else fl_pass fl)"
    and new: "NewServer (pe_U E) user pass defs = Inr shs"
    using assms by (auto simp: main_def Let_def split: sum.splits)
  have shs: "shs = map share_of_def defs" "user = [] \<or> pass \<noteq> []"
    and d: "distinct (map (folded (pe_U E) \<circ> sh_name) shs)"
    using new by (auto simp: NewServer_def add_shares_iff share_of_def_def comp_def split: if_splits)
  note c = connect_vfs_all [OF cs] and f = share_defs_all [OF defs]
  have len: "length cs = length as" "length out = length as" "length defs = length as"
    using list_all2_lengthD [OF c] list_all2_lengthD [OF f] names_assigned(1) [OF out] by simp_all
  have "exported E (fl_readonly fl) (as ! i) (shs ! i)" if i: "i < length as" for i
  proof -
    have "source_connected E (as ! i) (cs ! i)" "source_defined E (fl_readonly fl) (out ! i, snd (cs ! i)) (defs ! i)"
      using c f i len by (auto simp: list_all2_conv_all_nth)
    moreover obtain n where n: "out ! i = (fst (cs ! i))\<lparr>sa_name := n\<rparr>"
      using names_assigned(3) [OF out, of i] i len by auto
    moreover have "sa_name (fst (cs ! i)) = [] \<or> out ! i = fst (cs ! i)"
      using name_kept [OF out, of i] i len by auto
    then have "sa_name (fst (cs ! i)) = [] \<or> n = sa_name (fst (cs ! i))" unfolding n
      by (metis shareArg.select_convs(3) shareArg.surjective shareArg.update_convs(3))
    ultimately have "exported E (fl_readonly fl) (as ! i) (share_of_def (defs ! i))"
      by (intro source_exported [of E _ "cs ! i" _ n]) simp_all
    then show ?thesis using i len by (simp add: shs(1))
  qed
  then have "list_all2 (exported E (fl_readonly fl)) as shs" using len by (simp add: list_all2_conv_all_nth shs(1))
  moreover have "as = (if args \<noteq> [] then args
       else case pe_Getwd E of Inr cwd \<Rightarrow> [\<lparr>sa_folder = cwd, sa_vfs = [], sa_name = ascii ''data''\<rparr>] | Inl _ \<Rightarrow> [])"
    using as by (auto simp: default_args_def split: if_splits sum.splits)
  ultimately show ?thesis using user shs(2) d by simp
qed
text \<open>A start with a folder and a provider that calls itself read-only.\<close>

definition demo_env :: "osw platformEnv" where
  "demo_env = \<lparr>pe_U = demo_unicode, pe_Getwd = Inl OtherError, pe_abs = Inr, pe_host = (\<lambda>_. None),
     pe_connect = (\<lambda>_. Inr \<lparr>rf_Name = [0x78], rf_ReadOnly = True, rf_FS = localFS Linux (Inr (4096, 1000, 500)) srv_root\<rparr>),
     pe_localfs = (\<lambda>_. Inr (localFS Linux (Inr (4096, 1000, 500)) srv_root))\<rparr>"

definition demo_flags :: flags where
  "demo_flags = \<lparr>fl_user = ascii ''user'', fl_pass = ascii ''password'', fl_guest = True, fl_readonly = False\<rparr>"

definition demo_args :: "shareArg list" where
  "demo_args = [\<lparr>sa_folder = [0x2F, 0x74], sa_vfs = [], sa_name = [0x74]\<rparr>,
     \<lparr>sa_folder = [], sa_vfs = [0x68], sa_name = []\<rparr>]"

lemma demo_connect:
  "connect_vfs demo_env demo_args = Inr [(demo_args ! 0, None), ((demo_args ! 1)\<lparr>sa_name := [0x78]\<rparr>,
     Some \<lparr>rf_Name = [0x78], rf_ReadOnly = True, rf_FS = localFS Linux (Inr (4096, 1000, 500)) srv_root\<rparr>)]"
  by (simp add: demo_args_def demo_env_def Let_def)

lemma demo_main: "\<exists>shs. main demo_env demo_flags demo_args = Inr ([], [], shs)"
proof -
  have r: "runes [0x74] = [116]" "runes [0x78] = [120]" "runes [73, 80, 67, 36] = [73, 80, 67, 36]"
    using runes_ascii [of "[0x74]"] runes_ascii [of "[0x78]"] runes_ascii [of "[73, 80, 67, 36]"] by simp_all
  have l: "ToLower demo_unicode [0x78] \<noteq> ToLower demo_unicode [0x74]"
    by (simp add: ToLower_def r ascii_lower_def string_of_runes_def utf8_encode_def)
  have e: "\<not> EqualFold U [0x74] [0x78]" "\<not> EqualFold U [0x74] [73, 80, 67, 36]" "\<not> EqualFold U [0x78] [73, 80, 67, 36]" for U
    by (simp_all add: EqualFold_def r fold_rune_def ascii_lower_def)
  let ?as = "[demo_args ! 0, (demo_args ! 1)\<lparr>sa_name := [0x78]\<rparr>]"
  have n: "assignShareNames demo_unicode Inr ?as = Inr ?as"
    using l by (simp add: assignShareNames_def assign_name_def demo_args_def)
  have d: "default_args demo_env demo_args = Inr demo_args" by (simp add: default_args_def demo_args_def)
  have u: "pe_U demo_env = demo_unicode" "pe_abs demo_env = Inr" by (simp_all add: demo_env_def)
  show ?thesis
    unfolding main_def d sum.case demo_connect u list.map fst_conv n using e
    by (simp add: demo_args_def demo_env_def demo_flags_def NewServer_def Let_def)
qed

lemma main_exports_witness:
  "\<exists>shs. main demo_env demo_flags demo_args = Inr ([], [], shs) \<and> list_all2 (exported demo_env False) demo_args shs"
proof -
  obtain shs where m: "main demo_env demo_flags demo_args = Inr ([], [], shs)" using demo_main by blast
  have "demo_args \<noteq> []" "\<not> fl_readonly demo_flags" by (simp_all add: demo_args_def demo_flags_def)
  with main_exports [OF m] m show ?thesis by auto
qed

end
