(* ===== verification/Program.thy ===== *)
theory Program
  imports CommandLine Remote
begin

text \<open>
  The program as it is started: \<open>main.go\<close> on folders, with \<open>localfs.New\<close> as the way to open one, and
  the connections of the server it starts; and the example provider \<open>examples/localvfs\<close>.
\<close>

section \<open>A start on folders\<close>

text \<open>\<open>localfs.New\<close>: \<open>filepath.Abs\<close> first, then the directory must be there.\<close>

definition local_source ::
    "absolute \<Rightarrow> platform \<Rightarrow> (goerror + i64 \<times> i64 \<times> i64) \<Rightarrow> osw \<Rightarrow> gostring \<Rightarrow> goerror + osw fs" where
  "local_source wd P st w folder =
    (case wd folder of
       Inl e \<Rightarrow> Inl e
     | Inr dir \<Rightarrow> map_sum id (localFS P st) (lfs_New dir w))"

text \<open>
  A source of the command line that is a folder with an absolute path, and that path: the root of
  the share the folder becomes.
\<close>

definition is_folder :: "absolute \<Rightarrow> shareArg \<Rightarrow> bool" where
  "is_folder wd a \<longleftrightarrow> sa_vfs a = [] \<and> (case wd (sa_folder a) of Inr (c # p) \<Rightarrow> c = slash | _ \<Rightarrow> False)"

definition folder_root :: "absolute \<Rightarrow> shareArg \<Rightarrow> gostring" where
  "folder_root wd a = path_Clean (case wd (sa_folder a) of Inr p \<Rightarrow> p | Inl _ \<Rightarrow> [])"

lemma clean_root_abs: "clean_root (path_Clean (slash # p))"
  unfolding path_Clean_abs clean_root_def using path_components_plain by blast

lemma local_source_serves:
  assumes "local_source wd P st w (sa_folder a) = Inr F" and "is_folder wd a"
  shows "F = localFS P st (folder_root wd a) \<and> clean_root (folder_root wd a)"
proof -
  obtain p where p: "wd (sa_folder a) = Inr (slash # p)"
    using assms(2) by (auto simp: is_folder_def split: sum.splits list.splits)
  have "F = localFS P st (path_Clean (slash # p))"
    using assms(1) p by (auto simp: local_source_def lfs_New_def Let_def map_sum_Inr split: sum.splits if_splits)
  then show ?thesis using clean_root_abs [of p] by (simp add: folder_root_def p)
qed

lemma connect_vfs_folders:
  "list_all (is_folder wd) as \<Longrightarrow> connect_vfs E as = Inr (map (\<lambda>a. (a, None)) as)"
  by (induction as) (auto simp: is_folder_def)

lemma share_names_folders:
  assumes "assignShareNames U wd as = Inr out" and "list_all (is_folder wd') as"
  shows "list_all (is_folder wd') out" and "map (folder_root wd') out = map (folder_root wd') as"
proof -
  have "out = fold (assign_name U wd) [0..<length as] as"
    using assms(1) by (auto simp: assignShareNames_def Let_def split: option.splits)
  then have "\<forall>j < length as. \<exists>n. out ! j = (as ! j)\<lparr>sa_name := n\<rparr>" "length out = length as"
    using assign_names [of "length as" as U wd] by (auto simp: Let_def)
  then have out: "length out = length as" "\<And>j. j < length as \<Longrightarrow> \<exists>n. out ! j = (as ! j)\<lparr>sa_name := n\<rparr>"
    by blast+
  then show "list_all (is_folder wd') out" using assms(2) unfolding list_all_length is_folder_def by fastforce
  have "folder_root wd' (out ! j) = folder_root wd' (as ! j)" if "j < length as" for j
    using out(2) [OF that] by (auto simp: folder_root_def)
  then show "map (folder_root wd') out = map (folder_root wd') as" using out(1) by (simp add: list_eq_iff_nth_eq)
qed

lemma share_defs_folders:
  assumes "share_defs E ro (map (\<lambda>a. (a, None)) as) = Inr defs"
  shows "\<forall>def \<in> set defs. sd_ReadOnly def = ro \<and>
    (\<exists>a \<in> set as. \<exists>F. pe_localfs E (sa_folder a) = Inr F \<and> sd_FS def = Some F)"
  using assms
proof (induction as arbitrary: defs)
  case (Cons a as)
  then obtain F ds where F: "pe_localfs E (sa_folder a) = Inr F"
    and ds: "share_defs E ro (map (\<lambda>a. (a, None)) as) = Inr ds"
    and defs: "defs = \<lparr>sd_Name = sa_name a, sd_FS = Some F, sd_ReadOnly = ro\<rparr> # ds"
    by (auto simp: map_sum_Inr split: sum.splits)
  from Cons.IH [OF ds] F show ?case unfolding defs by auto
qed simp

lemma started_shares:
  assumes "main E fl args = Inr (user, pass, shs)" and "default_args E args = Inr as"
    and "pe_localfs E = local_source (pe_abs E) P st w0" and "list_all (is_folder (pe_abs E)) as"
  shows "\<forall>sh \<in> set shs. sh_readOnly sh = fl_readonly fl \<and>
    (\<exists>root \<in> set (map (folder_root (pe_abs E)) as). serves_local root sh)"
proof
  fix sh assume m: "sh \<in> set shs"
  note c = connect_vfs_folders [OF assms(4), of E]
  have i: "map (fst \<circ> (\<lambda>a. (a, None :: osw remoteFS option))) as = as"
    "map (snd \<circ> (\<lambda>a. (a, None :: osw remoteFS option))) as = replicate (length as) None"
    by (simp_all add: comp_def map_replicate_const)
  obtain out defs where out: "assignShareNames (pe_U E) (pe_abs E) as = Inr out"
    and defs: "share_defs E (fl_readonly fl) (zip out (replicate (length as) None)) = Inr defs"
    and new: "NewServer (pe_U E) user pass defs = Inr shs"
    using assms(1) by (auto simp: main_def Let_def assms(2) c i split: sum.splits)
  have z: "zip out (replicate (length as) None) = map (\<lambda>a. (a, None)) out"
    using share_names_count [OF out] by (simp add: zip_replicate2)
  have "shs = map share_of_def defs"
    using new by (auto simp: NewServer_def add_shares_iff split: if_splits)
  with m obtain def where def: "def \<in> set defs" "sh = share_of_def def" by auto
  with share_defs_folders [OF defs [unfolded z]] obtain a F where a: "sd_ReadOnly def = fl_readonly fl"
    "a \<in> set out" "pe_localfs E (sa_folder a) = Inr F" "sd_FS def = Some F" by blast
  have "is_folder (pe_abs E) a"
    using share_names_folders(1) [OF out assms(4)] a(2) by (simp add: list_all_iff)
  from local_source_serves [OF a(3) [unfolded assms(3)] this]
  have "serves_local (folder_root (pe_abs E) a) sh"
    using a(4) by (auto simp: def(2) share_of_def_def serves_local_def)
  moreover have "folder_root (pe_abs E) a \<in> set (map (folder_root (pe_abs E)) as)"
    using share_names_folders(2) [OF out assms(4)] a(2) by (metis image_eqI list.set_map)
  ultimately show "sh_readOnly sh = fl_readonly fl \<and>
      (\<exists>root \<in> set (map (folder_root (pe_abs E)) as). serves_local root sh)"
    using a(1) by (auto simp: def(2) share_of_def_def)
qed

text \<open>
  C4. The program from its command line to the last byte of a connection: started on any folders (or on
  none, then the working directory), wherever they lie, it lets no client change anything
  that is in none of these folders, whatever bytes arrive, and with -readonly it lets no client
  change any file or directory.
\<close>

theorem started_server_contained:
  assumes "main E fl args = Inr (user, pass, sv_shares S)" and "default_args E args = Inr as"
    and "pe_localfs E = local_source (pe_abs E) P st w0" and "list_all (is_folder (pe_abs E)) as"
    and "D = map os_path (map (folder_root (pe_abs E)) as)"
    and "sealed D T w" and "clock_keeps (sealed D T) S"
    and "clock_keeps (same_tree (os_nodes w, os_data w)) S" and "serve S inp order (newConn a b w) = (outs, s')"
  shows "map (node_view (cn_world s')) (outside_nodes D (os_nodes (cn_world s')))
       = map (node_view w) (outside_nodes D (os_nodes w)) \<and>
     (\<not> fl_readonly fl \<or> os_nodes (cn_world s') = os_nodes w \<and> os_data (cn_world s') = os_data w)"
proof
  note sh = started_shares [OF assms(1-4)]
  have "\<forall>sh \<in> set (sv_shares S). \<exists>root \<in> set (map (folder_root (pe_abs E)) as). serves_local root sh"
    using sh by blast
  from serve_keeps [OF server_keeps_sealed [OF this] _ assms(9)] assms(6,7)
  have "sealed D T (cn_world s')" unfolding assms(5) by blast
  then show "map (node_view (cn_world s')) (outside_nodes D (os_nodes (cn_world s')))
       = map (node_view w) (outside_nodes D (os_nodes w))" using assms(6) by (rule sealed_view)
  have "list_all local_readonly (sv_shares S)" if "fl_readonly fl"
    using sh that by (fastforce simp: list_all_iff local_readonly_def serves_local_def)
  then show "\<not> fl_readonly fl \<or> os_nodes (cn_world s') = os_nodes w \<and> os_data (cn_world s') = os_data w"
    using serve_keeps [OF server_keeps_same_tree [OF _ assms(8)] _ assms(9)]
    by (auto simp: same_tree_def)
qed

text \<open>A start without arguments in \<open>/srv\<close>, for guests and read-only.\<close>

definition demo_start :: "osw platformEnv" where
  "demo_start = demo_env\<lparr>pe_Getwd := Inr srv_root,
     pe_localfs := local_source Inr Linux (Inr (4096, 1000, 500)) demo_osw\<rparr>"

lemma demo_start_folder:
    "is_folder (pe_abs demo_start) \<lparr>sa_folder = srv_root, sa_vfs = [], sa_name = n\<rparr>"
    "folder_root (pe_abs demo_start) \<lparr>sa_folder = srv_root, sa_vfs = [], sa_name = n\<rparr> = srv_root"
  and demo_start_clean: "path_Clean srv_root = srv_root"
proof -
  let ?c = "ascii ''srv''"
  have c: "\<forall>c \<in> set [?c]. plain_component c" by (simp add: plain_component_def)
  have r: "srv_root = slash # join_with slash [?c]" by (simp add: srv_root_def)
  show e: "path_Clean srv_root = srv_root"
    unfolding r path_Clean_abs path_components_join [OF c] ..
  then show "folder_root (pe_abs demo_start) \<lparr>sa_folder = srv_root, sa_vfs = [], sa_name = n\<rparr> = srv_root"
    by (simp add: folder_root_def demo_start_def demo_env_def)
  show "is_folder (pe_abs demo_start) \<lparr>sa_folder = srv_root, sa_vfs = [], sa_name = n\<rparr>"
    by (simp add: is_folder_def demo_start_def demo_env_def srv_root_def)
qed

lemma demo_started:
  "main demo_start (demo_flags\<lparr>fl_readonly := True\<rparr>) [] = Inr ([], [], [demo_share True])"
proof -
  let ?a = "\<lparr>sa_folder = srv_root, sa_vfs = [], sa_name = ascii ''data''\<rparr>"
  let ?d = "\<lparr>sd_Name = ascii ''data'', sd_FS = Some (localFS Linux (Inr (4096, 1000, 500)) srv_root), sd_ReadOnly = True\<rparr>"
  have "os_path srv_root = [ascii ''srv'']" by (simp add: os_path_def srv_root_def)
  then have "lfs_New srv_root demo_osw = Inr srv_root"
    by (simp add: lfs_New_def demo_start_clean os_Stat_def os_node_def demo_osw_def node_info_def)
  then have "pe_localfs demo_start srv_root = Inr (localFS Linux (Inr (4096, 1000, 500)) srv_root)"
    by (simp add: demo_start_def local_source_def)
  then have defs: "share_defs demo_start True [(?a, None)] = Inr [?d]" by simp
  have d: "default_args demo_start [] = Inr [?a]" by (simp add: default_args_def demo_start_def)
  have n: "assignShareNames U wd [?a] = Inr [?a]" for U wd
    by (simp add: assignShareNames_def assign_name_def)
  have r: "runes (ascii ''data'') = [100, 97, 116, 97]" "runes (ascii ''IPC$'') = [73, 80, 67, 36]" by code_simp+
  have "\<not> EqualFold U (ascii ''data'') (ascii ''IPC$'')" for U
    by (simp add: EqualFold_def r [simplified] fold_rune_def ascii_lower_def)
  then have "add_shares (pe_U demo_start) [?d] [] = Inr [demo_share True]"
    unfolding add_shares_iff by (simp add: good_def_def share_of_def_def demo_share_def)
  then have new: "NewServer (pe_U demo_start) [] [] [?d] = Inr [demo_share True]" by (simp add: NewServer_def)
  have c: "connect_vfs demo_start [?a] = Inr [(?a, None)]" by simp
  have f: "fl_guest (demo_flags\<lparr>fl_readonly := True\<rparr>)" "fl_readonly (demo_flags\<lparr>fl_readonly := True\<rparr>) = True"
    by (simp_all add: demo_flags_def)
  show ?thesis
    unfolding main_def d sum.case c list.map fst_conv snd_conv n if_P [OF f(1)] f(2) zip_Cons_Cons zip_Nil
      Let_def defs new ..
qed

lemma started_server_contained_witness:
  "\<forall>inp. os_nodes (cn_world (snd (serve (demo_server [] [demo_share True]) inp [] (newConn 0 0 demo_osw)))) = os_nodes demo_osw"
proof
  fix inp
  let ?S = "demo_server [] [demo_share True]" and ?f = "demo_flags\<lparr>fl_readonly := True\<rparr>"
  have m: "main demo_start ?f [] = Inr ([], [], sv_shares ?S)" by (simp add: demo_started)
  have d: "default_args demo_start [] = Inr [\<lparr>sa_folder = srv_root, sa_vfs = [], sa_name = ascii ''data''\<rparr>]"
    by (simp add: default_args_def demo_start_def)
  have l: "pe_localfs demo_start = local_source (pe_abs demo_start) Linux (Inr (4096, 1000, 500)) demo_osw"
    by (simp add: demo_start_def demo_env_def)
  from started_server_contained [OF m d l _ _ demo_sealed demo_clock demo_clock prod.collapse [symmetric]]
  show "os_nodes (cn_world (snd (serve ?S inp [] (newConn 0 0 demo_osw)))) = os_nodes demo_osw"
    using demo_start_folder by simp
qed

section \<open>The example provider\<close>

text \<open>
  \<open>main\<close> of \<open>examples/localvfs/main.go\<close>: the root it serves and the options of its handler, the
  name defaulting to the base name of the root.
\<close>

definition localvfs_main ::
    "(goerror + gostring) \<Rightarrow> absolute \<Rightarrow> osw \<Rightarrow> gostring \<Rightarrow> gostring \<Rightarrow> bool \<Rightarrow> gostring
      \<Rightarrow> goerror + gostring \<times> providerOptions" where
  "localvfs_main getwd wd w folder name readOnly token =
    (case (if folder = [] then getwd else Inr folder) of
       Inl e \<Rightarrow> Inl e
     | Inr dir \<Rightarrow>
         (case wd dir of
            Inl e \<Rightarrow> Inl e
          | Inr adir \<Rightarrow>
              (case lfs_New adir w of
                 Inl e \<Rightarrow> Inl e
               | Inr root \<Rightarrow>
                   let shareName = (if name = [] then path_Base root else name)
                   in Inr (root, \<lparr>po_Name = shareName, po_ReadOnly = readOnly, po_Token = token\<rparr>))))"

text \<open>A provider started with -readonly refuses every change, and one with -token every request without it.\<close>

lemma localvfs_refuses:
  assumes "localvfs_main getwd wd w folder name readOnly token = Inr (root, opt)"
  shows "readOnly \<Longrightarrow> fst (writeGate opt h r n) = writeErr StatusForbidden"
    and "token \<noteq> [] \<Longrightarrow> rq_token r \<noteq> token \<Longrightarrow> provider_Handler P opt F r n = (writeErr StatusUnauthorized, n)"
  using assms
  by (auto simp: localvfs_main_def writeGate_def provider_Handler_def Let_def split: sum.splits)

section \<open>Connecting to a provider\<close>

text \<open>\<open>httpvfs.NewWithOptions\<close> on a URL, as \<open>main\<close> calls it; \<open>dial\<close> is the client for the URL.\<close>

definition remote_source ::
    "(gostring \<Rightarrow> (gostring \<times> gostring) option) \<Rightarrow> (gostring \<Rightarrow> 'n httpFS) \<Rightarrow> 'n hworld \<Rightarrow> gostring
      \<Rightarrow> goerror + 'n hworld remoteFS" where
  "remote_source parse dial w url =
    (case fst (NewWithOptions parse dial url w) of
       Inl e \<Rightarrow> Inl e
     | Inr C \<Rightarrow> Inr \<lparr>rf_Name = hc_name C, rf_ReadOnly = hc_readOnly C, rf_FS = httpFS_fs C\<rparr>)"

text \<open>A client that has the token gets the name and the read-only flag the provider was started with.\<close>

lemma capabilities_provider:
  assumes "hc_roundtrip C = via P opt F" and "po_Token opt = [] \<or> hc_token C = po_Token opt"
  shows "fst (hfs_New C w) = Inr (C\<lparr>hc_name := po_Name opt, hc_readOnly := po_ReadOnly opt,
      hc_caseInsensitive := fs_CaseInsensitive F\<rparr>)"
  using assms
  by (auto simp: hfs_New_def http_get_def client_Do_def via_def newRequest_def
      provider_Handler_def ServeMux_def provider_routes_def p_capabilities_def decode_capabilities_def Let_def
      field_text_def field_bool_def writeJSON_def split: prod.splits)

lemma remote_source_provider:
  assumes "hc_roundtrip (dial (TrimRight slash url)) = via P opt F"
    and "po_Token opt = [] \<or> hc_token (dial (TrimRight slash url)) = po_Token opt"
    and "remote_source parse dial w url = Inr g"
  shows "g = \<lparr>rf_Name = po_Name opt, rf_ReadOnly = po_ReadOnly opt,
    rf_FS = httpFS_fs ((dial (TrimRight slash url))\<lparr>hc_name := po_Name opt, hc_readOnly := po_ReadOnly opt,
      hc_caseInsensitive := fs_CaseInsensitive F\<rparr>)\<rparr>"
proof -
  obtain C where C: "fst (NewWithOptions parse dial url w) = Inr C"
    and g: "g = \<lparr>rf_Name = hc_name C, rf_ReadOnly = hc_readOnly C, rf_FS = httpFS_fs C\<rparr>"
    using assms(3) by (auto simp: remote_source_def split: sum.splits)
  from NewWithOptions_Inr [OF C] show ?thesis by (auto simp: capabilities_provider [OF assms(1,2)] g)
qed

text \<open>No share is made of a provider whose token the client lacks, or of a URL that is not http(s) with a host.\<close>

lemma remote_source_refused:
  assumes "hc_roundtrip (dial (TrimRight slash url)) = via P opt F" and "po_Token opt \<noteq> []"
    and "hc_token (dial (TrimRight slash url)) \<noteq> po_Token opt"
  shows "\<exists>e. remote_source parse dial w url = Inl e"
  using assms
  by (auto simp: remote_source_def NewWithOptions_def hfs_New_def http_get_def client_Do_def via_def newRequest_def
      provider_Handler_def writeErr_def writeJSON_def decode_capabilities_def field_text_def Let_def
      split: prod.splits option.splits)

lemma bad_url_refused:
  assumes "\<forall>scheme host. parse url = Some (scheme, host) \<longrightarrow>
    scheme \<notin> {ascii ''http'', ascii ''https''} \<or> host = []"
  shows "remote_source parse dial w url = Inl OtherError"
  using assms by (auto simp: remote_source_def NewWithOptions_def split: option.splits)

text \<open>
  A provider behind a -vfs flag that a client with the token reaches, of a local directory; the share
  is to be read-only, by the flag \<open>ro\<close> of this side or by the provider.
\<close>

definition provider_ro :: "(gostring \<Rightarrow> osw httpFS) \<Rightarrow> bool \<Rightarrow> shareArg \<Rightarrow> bool" where
  "provider_ro dial ro a \<longleftrightarrow> sa_vfs a \<noteq> [] \<and>
    (\<exists>P opt goos st root. let C = dial (TrimRight slash (sa_vfs a)) in
       hc_roundtrip C = via P opt (localFS goos st root) \<and>
       (po_Token opt = [] \<or> hc_token C = po_Token opt) \<and> (ro \<or> po_ReadOnly opt))"

definition connected_ro :: "bool \<Rightarrow> osw hworld remoteFS option \<Rightarrow> bool" where
  "connected_ro ro f \<longleftrightarrow>
    (\<exists>g. f = Some g \<and> (\<forall>sh. sh_fs sh = rf_FS g \<longrightarrow> sh_readOnly sh = (ro \<or> rf_ReadOnly g) \<longrightarrow> remote_readonly sh))"

lemma provider_ro_connected:
  assumes "provider_ro dial ro a" and "remote_source parse dial w (sa_vfs a) = Inr g"
  shows "connected_ro ro (Some g)"
proof -
  let ?D = "dial (TrimRight slash (sa_vfs a))"
  obtain P opt goos st root where p: "hc_roundtrip ?D = via P opt (localFS goos st root)"
    "po_Token opt = [] \<or> hc_token ?D = po_Token opt" "ro \<or> po_ReadOnly opt"
    using assms(1) by (auto simp: provider_ro_def Let_def)
  let ?C = "?D\<lparr>hc_name := po_Name opt, hc_readOnly := po_ReadOnly opt,
      hc_caseInsensitive := fs_CaseInsensitive (localFS goos st root)\<rparr>"
  note g = remote_source_provider [OF p(1,2) assms(2)]
  have "remote_readonly sh" if "sh_fs sh = rf_FS g" "sh_readOnly sh = (ro \<or> rf_ReadOnly g)" for sh
    by (rule remote_readonlyI [of sh ?C P opt goos st root]) (use that p(1,3) g in simp_all)
  then show ?thesis by (auto simp: connected_ro_def)
qed

lemma connect_vfs_providers:
  assumes "connect_vfs E as = Inr cs" and "list_all (provider_ro dial ro) as"
    and "pe_connect E = remote_source parse dial w"
  shows "list_all (connected_ro ro) (map snd cs)"
  using assms(1,2)
proof (induction as arbitrary: cs)
  case (Cons a as)
  have v: "sa_vfs a \<noteq> []" "provider_ro dial ro a" using Cons.prems(2) by (simp_all add: provider_ro_def)
  then obtain g n ds where g: "remote_source parse dial w (sa_vfs a) = Inr g" and ds: "connect_vfs E as = Inr ds"
    and cs: "cs = (a\<lparr>sa_name := n\<rparr>, Some g) # ds"
    using Cons.prems(1) by (auto simp: assms(3) map_sum_Inr Let_def split: sum.splits)
  show ?case using Cons.IH [OF ds] Cons.prems(2) provider_ro_connected [OF v(2) g] by (simp add: cs)
qed simp

lemma share_defs_providers:
  assumes "share_defs E ro (zip out fs) = Inr defs" and "list_all (connected_ro ro) fs" and "length out = length fs"
  shows "list_all remote_readonly (map share_of_def defs)"
  using assms(3,1,2)
proof (induction out fs arbitrary: defs rule: list_induct2)
  case (Cons a as f fs)
  then obtain g where g: "f = Some g"
    "\<And>sh. sh_fs sh = rf_FS g \<Longrightarrow> sh_readOnly sh = (ro \<or> rf_ReadOnly g) \<Longrightarrow> remote_readonly sh"
    by (auto simp: connected_ro_def)
  obtain ds where ds: "share_defs E ro (zip as fs) = Inr ds"
    and d: "defs = \<lparr>sd_Name = sa_name a, sd_FS = Some (rf_FS g), sd_ReadOnly = (ro \<or> rf_ReadOnly g)\<rparr> # ds"
    using Cons.prems(1) g(1) by (auto simp: map_sum_Inr)
  show ?case using Cons.IH [OF ds] Cons.prems(2) by (simp add: d g(2) share_of_def_def)
qed simp

text \<open>
  C28. The program started on providers: when each -vfs reaches a provider of a local directory, and
  -readonly was given or the provider was started with it, no client changes a file or directory
  of the provider's machine, whatever bytes arrive.
\<close>

theorem started_providers_unchanged:
  assumes "main E fl args = Inr (user, pass, sv_shares S)" and "args \<noteq> []"
    and "pe_connect E = remote_source parse dial w0" and "list_all (provider_ro dial (fl_readonly fl)) args"
    and "clock_keeps (behind (same_tree (os_nodes (hw_net w), os_data (hw_net w)))) S"
    and "serve S inp order (newConn a b w) = (outs, s')"
  shows "os_nodes (hw_net (cn_world s')) = os_nodes (hw_net w) \<and>
    os_data (hw_net (cn_world s')) = os_data (hw_net w)"
proof -
  obtain cs out defs where cs: "connect_vfs E args = Inr cs"
    and out: "assignShareNames (pe_U E) (pe_abs E) (map fst cs) = Inr out"
    and defs: "share_defs E (fl_readonly fl) (zip out (map snd cs)) = Inr defs"
    and new: "NewServer (pe_U E) user pass defs = Inr (sv_shares S)"
    using assms(1,2) by (auto simp: main_def default_args_def Let_def split: sum.splits)
  have "length out = length (map snd cs)" using share_names_count [OF out] by simp
  note ro = share_defs_providers [OF defs connect_vfs_providers [OF cs assms(4,3)] this]
  have "sv_shares S = map share_of_def defs"
    using new by (auto simp: NewServer_def add_shares_iff split: if_splits)
  with ro have "list_all remote_readonly (sv_shares S)" by (simp only:)
  from serve_keeps [OF server_keeps_behind [OF this assms(5)] _ assms(6)] show ?thesis
    by (simp add: behind_def same_tree_def)
qed

text \<open>A start on one provider, which was started read-only.\<close>

definition demo_parse :: "gostring \<Rightarrow> (gostring \<times> gostring) option" where
  "demo_parse url = (if take 7 url = ascii ''http://'' then Some (ascii ''http'', drop 7 url) else None)"

definition demo_vfs_start :: "osw hworld platformEnv" where
  "demo_vfs_start = \<lparr>pe_U = demo_unicode, pe_Getwd = Inl OtherError, pe_abs = Inr, pe_host = (\<lambda>_. None),
     pe_connect = remote_source demo_parse (\<lambda>_. demo_client True) demo_hworld, pe_localfs = (\<lambda>_. Inl OtherError)\<rparr>"

definition demo_vfs :: shareArg where
  "demo_vfs = \<lparr>sa_folder = [], sa_vfs = ascii ''http://h'', sa_name = ascii ''data''\<rparr>"

definition demo_vfs_share :: "osw hworld share" where
  "demo_vfs_share = \<lparr>sh_name = ascii ''data'', sh_fs = httpFS_fs (demo_client True), sh_readOnly = True\<rparr>"

lemma demo_vfs_started: "main demo_vfs_start demo_flags [demo_vfs] = Inr ([], [], [demo_vfs_share])"
proof -
  let ?d = "\<lparr>sd_Name = ascii ''data'', sd_FS = Some (httpFS_fs (demo_client True)), sd_ReadOnly = True\<rparr>"
  let ?g = "\<lparr>rf_Name = [], rf_ReadOnly = True, rf_FS = httpFS_fs (demo_client True)\<rparr>"
  let ?opt = "\<lparr>po_Name = [], po_ReadOnly = True, po_Token = []\<rparr>"
  have "hc_roundtrip (demo_client True) = via Linux ?opt (localFS Linux (Inr (4096, 1000, 500)) srv_root)"
    by (simp add: demo_client_def served_by_def)
  from capabilities_provider [OF this]
  have "remote_source demo_parse (\<lambda>_. demo_client True) demo_hworld (ascii ''http://h'') = Inr ?g"
    by (simp add: remote_source_def NewWithOptions_def demo_parse_def demo_client_def served_by_def localFS_def
        lfs_CaseInsensitive_def)
  then have c: "connect_vfs demo_vfs_start [demo_vfs] = Inr [(demo_vfs, Some ?g)]"
    by (simp add: demo_vfs_start_def demo_vfs_def)
  have n: "assignShareNames U wd [demo_vfs] = Inr [demo_vfs]" for U wd
    by (simp add: assignShareNames_def assign_name_def demo_vfs_def)
  have defs: "share_defs demo_vfs_start ro [(demo_vfs, Some ?g)] = Inr [?d]" for ro by (simp add: demo_vfs_def)
  have r: "runes (ascii ''data'') = [100, 97, 116, 97]" "runes (ascii ''IPC$'') = [73, 80, 67, 36]" by code_simp+
  have "\<not> EqualFold U (ascii ''data'') (ascii ''IPC$'')" for U
    by (simp add: EqualFold_def r [simplified] fold_rune_def ascii_lower_def)
  then have "add_shares (pe_U demo_vfs_start) [?d] [] = Inr [demo_vfs_share]"
    unfolding add_shares_iff by (simp add: good_def_def share_of_def_def demo_vfs_share_def)
  then have new: "NewServer (pe_U demo_vfs_start) [] [] [?d] = Inr [demo_vfs_share]" by (simp add: NewServer_def)
  have d: "default_args demo_vfs_start [demo_vfs] = Inr [demo_vfs]" by (simp add: default_args_def)
  have f: "fl_guest demo_flags" by (simp add: demo_flags_def)
  show ?thesis
    unfolding main_def d sum.case c list.map fst_conv snd_conv n if_P [OF f] zip_Cons_Cons zip_Nil Let_def defs new ..
qed

lemma started_providers_unchanged_witness:
  "\<forall>inp. os_nodes (hw_net (cn_world (snd (serve (demo_server [] [demo_vfs_share]) inp [] (newConn 0 0 demo_hworld))))) =
    os_nodes demo_osw"
proof
  fix inp
  let ?S = "demo_server [] [demo_vfs_share]"
  have m: "main demo_vfs_start demo_flags [demo_vfs] = Inr ([], [], sv_shares ?S)" by (simp add: demo_vfs_started)
  have c: "pe_connect demo_vfs_start = remote_source demo_parse (\<lambda>_. demo_client True) demo_hworld" by (simp add: demo_vfs_start_def)
  have "hc_roundtrip (demo_client True) = via Linux \<lparr>po_Name = [], po_ReadOnly = True, po_Token = []\<rparr>
      (localFS Linux (Inr (4096, 1000, 500)) srv_root)" by (simp add: demo_client_def served_by_def)
  then have "provider_ro (\<lambda>_. demo_client True) (fl_readonly demo_flags) demo_vfs"
    unfolding provider_ro_def
    by (intro conjI exI [of _ Linux] exI [of _ "\<lparr>po_Name = [], po_ReadOnly = True, po_Token = []\<rparr>"]
        exI [of _ "Inr (4096, 1000, 500)"] exI [of _ srv_root]) (simp_all add: demo_vfs_def)
  then have p: "list_all (provider_ro (\<lambda>_. demo_client True) (fl_readonly demo_flags)) [demo_vfs]" by simp
  from started_providers_unchanged [OF m _ c p demo_clock prod.collapse [symmetric]]
  show "os_nodes (hw_net (cn_world (snd (serve ?S inp [] (newConn 0 0 demo_hworld))))) = os_nodes demo_osw"
    by (simp add: demo_hworld_def)
qed

end
