(* ===== verification/Startup.thy ===== *)
theory Startup
  imports Program
begin

text \<open>
  What \<open>main.go\<close> does around the server: the flags that print, stop or start something else, the
  address it listens on, the parent watch (\<open>parentwatch_unix.go\<close>, \<open>parentwatch_windows.go\<close>), the log
  (\<open>internal/smb/log.go\<close>), the instructions \<open>Serve\<close> logs, and \<open>internal/openapi\<close>. What a part does
  to the process is a list of actions, in order.
\<close>

section \<open>Addresses\<close>

fun decimal :: "nat \<Rightarrow> gostring" where
  "decimal n = (if n < 10 then [] else decimal (n div 10)) @ [of_nat (48 + n mod 10)]"

declare decimal.simps [simp del]

text \<open>\<open>strconv.Itoa\<close>.\<close>

definition Itoa :: "int \<Rightarrow> gostring" where
  "Itoa i = (if i < 0 then ascii ''-'' @ decimal (nat (- i)) else decimal (nat i))"

abbreviation colon :: byte where "colon \<equiv> 0x3A"
abbreviation lbracket :: byte where "lbracket \<equiv> 0x5B"
abbreviation rbracket :: byte where "rbracket \<equiv> 0x5D"

text \<open>\<open>net.JoinHostPort\<close> and \<open>net.SplitHostPort\<close>, whose errors are all \<open>None\<close>.\<close>

definition JoinHostPort :: "gostring \<Rightarrow> gostring \<Rightarrow> gostring" where
  "JoinHostPort host port =
    (if colon \<in> set host then [lbracket] @ host @ [rbracket, colon] @ port else host @ [colon] @ port)"

definition last_index :: "byte \<Rightarrow> gostring \<Rightarrow> nat" where
  "last_index b s = length s - 1 - length (takeWhile (\<lambda>c. c \<noteq> b) (rev s))"

definition SplitHostPort :: "gostring \<Rightarrow> (gostring \<times> gostring) option" where
  "SplitHostPort hostport =
    (if colon \<notin> set hostport then None
     else
       let i = last_index colon hostport
       in if hostport ! 0 = lbracket then
            if rbracket \<notin> set hostport then None
            else
              let end' = length (takeWhile (\<lambda>c. c \<noteq> rbracket) hostport)
              in if end' + 1 \<noteq> i then None
                 else if lbracket \<in> set (drop 1 hostport) \<or> rbracket \<in> set (drop (end' + 1) hostport) then None
                 else Some (slice hostport 1 end', drop (i + 1) hostport)
          else if colon \<in> set (take i hostport) then None
          else if lbracket \<in> set hostport \<or> rbracket \<in> set hostport then None
          else Some (take i hostport, drop (i + 1) hostport))"

lemma takeWhile_before: "b \<notin> set t \<Longrightarrow> takeWhile (\<lambda>c. c \<noteq> b) (t @ b # u) = t"
  by (subst takeWhile_append2) auto

lemma last_index_append: "b \<notin> set t \<Longrightarrow> last_index b (s @ b # t) = length s"
  using takeWhile_before [of b "rev t" "rev s"] by (simp add: last_index_def)

text \<open>A listener's address splits into the host and port it was joined from.\<close>

lemma split_join:
  assumes "\<forall>b \<in> {lbracket, rbracket}. b \<notin> set host \<and> b \<notin> set port" and "colon \<notin> set port"
  shows "SplitHostPort (JoinHostPort host port) = Some (host, port)"
proof (cases "colon \<in> set host")
  case True
  have e: "JoinHostPort host port = ([lbracket] @ host @ [rbracket]) @ colon # port"
    using True by (simp add: JoinHostPort_def)
  have i: "last_index colon (JoinHostPort host port) = length host + 2"
    unfolding e by (subst last_index_append [OF assms(2)]) simp
  have t: "takeWhile (\<lambda>c. c \<noteq> rbracket) (lbracket # host @ rbracket # colon # port) = lbracket # host"
    using assms(1) takeWhile_before [of rbracket "lbracket # host" "colon # port"] by simp
  show ?thesis
    using assms t by (simp add: SplitHostPort_def i) (simp add: e slice_def)
next
  case False
  have e: "JoinHostPort host port = host @ colon # port" using False by (simp add: JoinHostPort_def)
  have "(host @ colon # port) ! 0 \<noteq> lbracket" using assms(1) by (cases host) auto
  then show ?thesis
    using assms False by (simp add: SplitHostPort_def e last_index_append [OF assms(2)])
qed

section \<open>The log\<close>

text \<open>\<open>log.go\<close>: the lines each call writes; the formatting is that of \<open>fmt\<close>.\<close>

definition debugf :: "bool \<Rightarrow> gostring \<Rightarrow> gostring list" where
  "debugf debugEnabled s = (if debugEnabled then [ascii ''DEBUG: '' @ s] else [])"

definition logf :: "gostring \<Rightarrow> gostring list" where
  "logf s = [s]"

definition errorf :: "gostring \<Rightarrow> gostring list" where
  "errorf s = [ascii ''ERROR: '' @ s]"

section \<open>How to connect\<close>

definition hostOf :: "gostring \<Rightarrow> gostring" where
  "hostOf addr = (case SplitHostPort addr of Some (host, _) \<Rightarrow> host | None \<Rightarrow> addr)"

definition displayHost :: "gostring \<Rightarrow> goerror + gostring \<Rightarrow> gostring" where
  "displayHost addr hostname =
    (let host = hostOf addr
     in if host = ascii ''0.0.0.0'' \<or> host = ascii ''::''
        then (case hostname of Inr hn \<Rightarrow> hn | Inl _ \<Rightarrow> host)
        else host)"

definition logConnectHelp :: "'w server \<Rightarrow> gostring \<Rightarrow> goerror + gostring \<Rightarrow> gostring list" where
  "logConnectHelp S addr hostname =
    (let host = displayHost addr hostname;
         port = (case SplitHostPort addr of Some (_, p) \<Rightarrow> p | None \<Rightarrow> []);
         name = sh_name (hd (sv_shares S))
     in logf (ascii ''Connect from:'') @
        (if opt_User S = [] then
           logf (ascii ''  Windows:  net use X: '' @ [backslash, backslash] @ host @ [backslash] @ name
             @ ascii '' /TCPPORT:'' @ port) @
           logf (ascii (''            WARNING: Windows clients will likely reject guest connections '' @
             ''(guest sessions cannot be signed and Windows requires signing) -- use -user and -pass instead'')) @
           logf (ascii ''  Linux:    sudo mount -t cifs //'' @ host @ ascii ''/'' @ name
             @ ascii '' /mnt -o port='' @ port @ ascii '',vers=3.0,guest'') @
           logf (ascii ''  macOS:    smb://guest@'' @ host @ ascii '':'' @ port @ ascii ''/'' @ name)
         else
           logf (ascii ''  Windows:  net use X: '' @ [backslash, backslash] @ host @ [backslash] @ name
             @ ascii '' /TCPPORT:'' @ port @ ascii '' /USER:'' @ opt_User S @ ascii '' '' @ opt_Pass S) @
           logf (ascii ''  Linux:    sudo mount -t cifs //'' @ host @ ascii ''/'' @ name
             @ ascii '' /mnt -o port='' @ port @ ascii '',vers=3.0,username='' @ opt_User S
             @ ascii '',password='' @ opt_Pass S) @
           logf (ascii ''  macOS:    smb://'' @ opt_User S @ ascii ''@'' @ host @ ascii '':'' @ port
             @ ascii ''/'' @ name)))"

definition start_lines :: "'w server \<Rightarrow> gostring \<Rightarrow> goerror + gostring \<Rightarrow> gostring list" where
  "start_lines S addr hostname =
    (let host = displayHost addr hostname
     in concat (map (\<lambda>sh. logf (ascii ''SMB server started on '' @ addr @ ascii '', share '' @
           [backslash, backslash] @ host @ [backslash] @ sh_name sh)) (sv_shares S))
        @ logConnectHelp S addr hostname)"

text \<open>The instructions name an address a client can use: the one bound, or the machine's name for a wildcard.\<close>

lemma displayHost_bound:
  assumes "\<forall>b \<in> {lbracket, rbracket}. b \<notin> set host \<and> b \<notin> set port" and "colon \<notin> set port"
  shows "displayHost (JoinHostPort host port) (Inr name) =
    (if host = ascii ''0.0.0.0'' \<or> host = ascii ''::'' then name else host)"
  by (simp add: displayHost_def hostOf_def split_join [OF assms])

section \<open>The parent watch\<close>

text \<open>
  On Unix the parent's id is read every second; on Windows the wait on the process handle ends with the
  parent. The result says whether the process exits, for the readings made so far.
\<close>

fun watchParent :: "int \<Rightarrow> int list \<Rightarrow> bool" where
  "watchParent parent [] = False"
| "watchParent parent (p # ps) = (p \<noteq> parent \<or> watchParent parent ps)"

lemma watchParent_orphan: "watchParent parent readings \<longleftrightarrow> (\<exists>p \<in> set readings. p \<noteq> parent)"
  by (induction readings) auto

definition watchParent_windows :: "goerror + nat \<Rightarrow> bool \<Rightarrow> bool" where
  "watchParent_windows openProcess signalled = (case openProcess of Inl _ \<Rightarrow> False | Inr _ \<Rightarrow> signalled)"

section \<open>The OpenAPI endpoint\<close>

text \<open>
  The two embedded documents are parameters; a response is its status, content type, CORS header and body.
  The path is a clean one: the mux of the Go library redirects the others to their clean form first.
\<close>

record page =
  pg_status :: nat
  pg_type :: gostring
  pg_anyOrigin :: bool
  pg_body :: bytes

definition openapi_Handler :: "bytes \<Rightarrow> bytes \<Rightarrow> gostring \<Rightarrow> page" where
  "openapi_Handler spec swaggerUI path =
    (if path = ascii ''/openapi.json'' then
       \<lparr>pg_status = StatusOK, pg_type = ascii ''application/json'', pg_anyOrigin = True, pg_body = spec\<rparr>
     else if path \<noteq> ascii ''/'' then
       \<lparr>pg_status = StatusNotFound, pg_type = ascii ''text/plain; charset=utf-8'', pg_anyOrigin = False,
        pg_body = ascii ''404 page not found'' @ [10]\<rparr>
     else
       \<lparr>pg_status = StatusOK, pg_type = ascii ''text/html; charset=utf-8'', pg_anyOrigin = False,
        pg_body = swaggerUI\<rparr>)"

section \<open>The process\<close>

record startFlags =
  su_ip :: gostring
  su_port :: int
  su_log :: gostring
  su_verbose :: bool
  su_version :: bool
  su_parent :: bool
  su_openapi :: gostring
  su_pprof :: gostring
  su_rest :: "gostring list"

text \<open>What the flags are when they are not given.\<close>

definition default_startFlags :: startFlags where
  "default_startFlags =
    \<lparr>su_ip = ascii ''127.0.0.1'', su_port = 1445, su_log = [], su_verbose = False, su_version = False,
     su_parent = False, su_openapi = [], su_pprof = [], su_rest = []\<rparr>"

definition default_flags :: flags where
  "default_flags =
    \<lparr>fl_user = ascii ''user'', fl_pass = ascii ''password'', fl_guest = False, fl_readonly = False\<rparr>"

datatype 'w action =
    PrintVersion
  | LogTo gostring
  | SetDebug bool
  | LogVersion
  | WatchParent
  | ServeOpenAPI gostring
  | ServePprof gostring
  | ServeShares gostring gostring gostring "'w share list"
  | Fatal

text \<open>\<open>main\<close> up to the shares: the actions, and whether it goes on. \<open>logErr\<close> is what opening the log file gives.\<close>

definition main_setup :: "startFlags \<Rightarrow> goerror option \<Rightarrow> 'w action list \<times> bool" where
  "main_setup su logErr =
    (if su_version su then ([PrintVersion], False)
     else if su_rest su \<noteq> [] then ([Fatal], False)
     else if su_log su \<noteq> [] \<and> logErr \<noteq> None then ([Fatal], False)
     else
       ((if su_log su \<noteq> [] then [LogTo (su_log su)] else []) @
        [SetDebug (su_verbose su), LogVersion] @
        (if su_parent su then [WatchParent] else []) @
        (if su_openapi su \<noteq> [] then [ServeOpenAPI (su_openapi su)] else []) @
        (if su_pprof su \<noteq> [] then [ServePprof (su_pprof su)] else []), True))"

definition main_run ::
    "'w platformEnv \<Rightarrow> startFlags \<Rightarrow> goerror option \<Rightarrow> flags \<Rightarrow> shareArg list \<Rightarrow> 'w action list" where
  "main_run E su logErr fl args =
    (case main_setup su logErr of
       (acts, False) \<Rightarrow> acts
     | (acts, True) \<Rightarrow>
         acts @
         (case main E fl args of
            Inl _ \<Rightarrow> [Fatal]
          | Inr (user, pass, shs) \<Rightarrow>
              [ServeShares (JoinHostPort (su_ip su) (Itoa (su_port su))) user pass shs]))"

lemma main_setup_goes_on:
  "main_setup su logErr = (acts, go) \<Longrightarrow>
    go \<longleftrightarrow> \<not> su_version su \<and> su_rest su = [] \<and> (su_log su = [] \<or> logErr = None)"
  by (simp add: main_setup_def split: if_splits)

lemma main_setup_no_shares: "ServeShares addr user pass shs \<notin> set (fst (main_setup su logErr))"
  by (simp add: main_setup_def)

text \<open>
  Shares are served exactly when no flag stops the start and \<open>main\<close> accepts the sources; they are the
  last thing started, on the address of -ip and -port.
\<close>

lemma main_run_serves:
  fixes E :: "'w platformEnv"
  shows "ServeShares addr user pass shs \<in> set (main_run E su logErr fl args) \<longleftrightarrow>
    \<not> su_version su \<and> su_rest su = [] \<and> (su_log su = [] \<or> logErr = None) \<and>
    main E fl args = Inr (user, pass, shs) \<and> addr = JoinHostPort (su_ip su) (Itoa (su_port su))"
proof -
  obtain acts :: "'w action list" and go where s: "main_setup su logErr = (acts, go)" by fastforce
  have n: "ServeShares addr user pass shs \<notin> set acts"
    using main_setup_no_shares [of addr user pass shs su logErr] by (simp add: s)
  have "ServeShares addr user pass shs \<in> set (main_run E su logErr fl args) \<longleftrightarrow>
      go \<and> main E fl args = Inr (user, pass, shs) \<and> addr = JoinHostPort (su_ip su) (Itoa (su_port su))"
    using n by (cases go; cases "main E fl args") (auto simp: main_run_def s)
  then show ?thesis using main_setup_goes_on [OF s] by blast
qed

text \<open>A start that is stopped by its flags starts nothing: it prints the version, or ends with an error.\<close>

lemma main_run_stopped:
  assumes "su_version su \<or> su_rest su \<noteq> [] \<or> su_log su \<noteq> [] \<and> logErr \<noteq> None"
  shows "main_run E su logErr fl args = (if su_version su then [PrintVersion] else [Fatal])"
  using assms by (simp add: main_run_def main_setup_def) blast

text \<open>Without flags the server listens on the loopback address only, and asks for the default password.\<close>

lemma main_run_default:
  assumes "ServeShares addr user pass shs \<in> set (main_run E default_startFlags logErr default_flags args)"
  shows "addr = ascii ''127.0.0.1:1445'' \<and> user = ascii ''user'' \<and> pass = ascii ''password''"
proof -
  have "JoinHostPort (su_ip default_startFlags) (Itoa (su_port default_startFlags)) = ascii ''127.0.0.1:1445''"
    by (simp add: default_startFlags_def) code_simp
  moreover have "(user, pass) = (ascii ''user'', ascii ''password'')"
    using assms unfolding main_run_serves by (auto simp: main_def default_flags_def Let_def split: sum.splits)
  ultimately show ?thesis using assms unfolding main_run_serves by simp
qed

end
