(* ===== verification/WindowsOpen.thy ===== *)
theory WindowsOpen
  imports Connection
begin

text \<open>
  \<open>internal/localfs/open_windows.go\<close> and \<open>statfs_windows.go\<close>: how the flags of an open become the
  arguments of \<open>CreateFile\<close>. The system call is a parameter; what it is documented to do with its
  access and creation disposition is \<open>documented_CreateFile\<close>. The lemmas show that an open on Windows
  finds, creates and truncates what the open of \<open>Osfs\<close> does, but for one combination of flags.
\<close>

section \<open>The arguments of CreateFile\<close>

abbreviation GENERIC_READ :: u32 where "GENERIC_READ \<equiv> 0x80000000"
abbreviation GENERIC_WRITE :: u32 where "GENERIC_WRITE \<equiv> 0x40000000"
abbreviation FILE_APPEND_DATA :: u32 where "FILE_APPEND_DATA \<equiv> 0x4"
abbreviation FILE_SHARE_ALL :: u32 where "FILE_SHARE_ALL \<equiv> 0x1 OR 0x2 OR 0x4"
abbreviation FILE_ATTRIBUTE_READONLY :: u32 where "FILE_ATTRIBUTE_READONLY \<equiv> 0x1"
abbreviation FILE_ATTRIBUTE_NORMAL :: u32 where "FILE_ATTRIBUTE_NORMAL \<equiv> 0x80"

abbreviation CREATE_NEW :: u32 where "CREATE_NEW \<equiv> 1"
abbreviation CREATE_ALWAYS :: u32 where "CREATE_ALWAYS \<equiv> 2"
abbreviation OPEN_EXISTING :: u32 where "OPEN_EXISTING \<equiv> 3"
abbreviation OPEN_ALWAYS :: u32 where "OPEN_ALWAYS \<equiv> 4"
abbreviation TRUNCATE_EXISTING :: u32 where "TRUNCATE_EXISTING \<equiv> 5"

definition win_access :: "u32 \<Rightarrow> u32" where
  "win_access flag =
    (let m = flag AND (O_RDONLY OR O_WRONLY OR O_RDWR);
         access = (if m = O_RDONLY then GENERIC_READ
                   else if m = O_WRONLY then GENERIC_WRITE
                   else if m = O_RDWR then GENERIC_READ OR GENERIC_WRITE else 0);
         access = (if flag AND O_TRUNC \<noteq> 0 then access OR GENERIC_WRITE else access)
     in if flag AND O_APPEND \<noteq> 0 then (access AND NOT GENERIC_WRITE) OR FILE_APPEND_DATA else access)"

definition win_disposition :: "u32 \<Rightarrow> u32" where
  "win_disposition flag =
    (if flag AND (O_CREATE OR O_EXCL) = O_CREATE OR O_EXCL then CREATE_NEW
     else if flag AND (O_CREATE OR O_TRUNC) = O_CREATE OR O_TRUNC then CREATE_ALWAYS
     else if flag AND O_CREATE = O_CREATE then OPEN_ALWAYS
     else if flag AND O_TRUNC = O_TRUNC then TRUNCATE_EXISTING
     else OPEN_EXISTING)"

definition win_attrs :: "u32 \<Rightarrow> u32" where
  "win_attrs perm = (if perm AND 0x80 = 0 then FILE_ATTRIBUTE_READONLY else FILE_ATTRIBUTE_NORMAL)"

definition openOSFile ::
    "(gostring \<Rightarrow> goerror + u16 list) \<Rightarrow>
     (u16 list \<Rightarrow> u32 \<Rightarrow> u32 \<Rightarrow> u32 \<Rightarrow> u32 \<Rightarrow> 'w \<Rightarrow> (goerror + nat) \<times> 'w) \<Rightarrow>
     gostring \<Rightarrow> u32 \<Rightarrow> u32 \<Rightarrow> 'w \<Rightarrow> (goerror + nat) \<times> 'w" where
  "openOSFile utf16Ptr createFile path flag perm w =
    (case utf16Ptr path of
       Inl e \<Rightarrow> (Inl e, w)
     | Inr pathp \<Rightarrow> createFile pathp (win_access flag) FILE_SHARE_ALL (win_disposition flag) (win_attrs perm) w)"

text \<open>\<open>statfs\<close>: \<open>diskFree\<close> is \<open>GetDiskFreeSpaceExW\<close>, which gives the free bytes of the user, all bytes and all free bytes.\<close>

definition win_statfs ::
    "(gostring \<Rightarrow> goerror + u16 list) \<Rightarrow> (u16 list \<Rightarrow> goerror + u64 \<times> u64 \<times> u64) \<Rightarrow> gostring \<Rightarrow> i64 \<times> i64 \<times> goerror option" where
  "win_statfs utf16Ptr diskFree root =
    (case utf16Ptr root of
       Inl e \<Rightarrow> (0, 0, Some e)
     | Inr rootp \<Rightarrow>
         (case diskFree rootp of
            Inl e \<Rightarrow> (0, 0, Some e)
          | Inr (avail, tot, _) \<Rightarrow> (tot, avail, None)))"

section \<open>What an open does\<close>

datatype open_effect = AlreadyThere | NotThere | Opened | Truncated | Created | Refused

text \<open>
  \<open>CreateFile\<close> as documented, by the access, the disposition and whether the file exists:
  TRUNCATE_EXISTING needs GENERIC_WRITE.
\<close>

definition disposition_effect :: "u32 \<Rightarrow> u32 \<Rightarrow> bool \<Rightarrow> open_effect" where
  "disposition_effect access d there =
    (if d = TRUNCATE_EXISTING \<and> access AND GENERIC_WRITE = 0 then Refused
     else if d = CREATE_NEW then (if there then AlreadyThere else Created)
     else if d = CREATE_ALWAYS then (if there then Truncated else Created)
     else if d = OPEN_ALWAYS then (if there then Opened else Created)
     else if d = TRUNCATE_EXISTING then (if there then Truncated else NotThere)
     else (if there then Opened else NotThere))"


text \<open>
  The result \<open>r\<close> of an open in \<open>w\<close> is the effect: the error, or a handle on the file of the path, with
  what the handle may do, and what became of the tree and the contents. \<open>ro\<close>: a new file is
  read-only.
\<close>

definition handle_on :: "nat \<Rightarrow> bool \<Rightarrow> bool \<Rightarrow> nat \<Rightarrow> osw \<Rightarrow> bool" where
  "handle_on i rd wr h w \<longleftrightarrow>
    (case os_fds w h of
       Some (Some j, flag) \<Rightarrow> j = i \<and> (flag AND O_WRONLY = 0 \<longleftrightarrow> rd) \<and> (fd_writable flag \<longleftrightarrow> wr)
     | _ \<Rightarrow> False)"

definition opened_as ::
    "platform \<Rightarrow> ospath \<Rightarrow> bool \<Rightarrow> bool \<Rightarrow> bool \<Rightarrow> osw \<Rightarrow> open_effect \<Rightarrow> (goerror + nat) \<times> osw \<Rightarrow> bool" where
  "opened_as P q rd wr ro w e r \<longleftrightarrow>
    (case e of
       AlreadyThere \<Rightarrow> (\<exists>err. r = (Inl err, w) \<and> errors_Is P err ErrExist)
     | NotThere \<Rightarrow> (\<exists>err. r = (Inl err, w) \<and> errors_Is P err ErrNotExist)
     | Refused \<Rightarrow> r = (Inl (Errno (WinErr 87)), w)
     | Opened \<Rightarrow> (\<exists>h w' i. r = (Inr h, w') \<and> os_node q w = Some (FileNode i) \<and> handle_on i rd wr h w' \<and>
         os_nodes w' = os_nodes w \<and> os_data w' = os_data w)
     | Truncated \<Rightarrow> (\<exists>h w' i. r = (Inr h, w') \<and> os_node q w = Some (FileNode i) \<and> handle_on i rd wr h w' \<and>
         os_nodes w' = os_nodes w \<and> fd_bytes (os_data w' i) = [] \<and> (\<forall>j. j \<noteq> i \<longrightarrow> os_data w' j = os_data w j))
     | Created \<Rightarrow> (\<exists>h w' i. r = (Inr h, w') \<and> os_node q w = None \<and> i = os_next w \<and> handle_on i rd wr h w' \<and>
         os_nodes w' = AList.update q (FileNode i) (os_nodes w) \<and> fd_bytes (os_data w' i) = [] \<and>
         (fd_perm (os_data w' i) AND 0x80 = 0 \<longleftrightarrow> ro) \<and> (\<forall>j. j \<noteq> i \<longrightarrow> os_data w' j = os_data w j)))"

text \<open>A path in a directory that exists, and that is no directory and no read-only file.\<close>

definition plain_path :: "ospath \<Rightarrow> osw \<Rightarrow> bool" where
  "plain_path q w \<longleftrightarrow> q \<noteq> [] \<and> os_node (butlast q) w = Some DirNode \<and>
    (case os_node q w of None \<Rightarrow> True | Some DirNode \<Rightarrow> False | Some (FileNode i) \<Rightarrow> fd_perm (os_data w i) AND 0x80 \<noteq> 0)"

text \<open>What the code relies on \<open>CreateFile\<close> for; \<open>decode\<close> reads the path it is given.\<close>

definition documented_CreateFile ::
    "(u16 list \<Rightarrow> gostring) \<Rightarrow>
     (u16 list \<Rightarrow> u32 \<Rightarrow> u32 \<Rightarrow> u32 \<Rightarrow> u32 \<Rightarrow> osw \<Rightarrow> (goerror + nat) \<times> osw) \<Rightarrow> bool" where
  "documented_CreateFile decode createFile \<longleftrightarrow>
    (\<forall>pathp access share d attrs w. let q = os_path (decode pathp) in
       plain_path q w \<longrightarrow> access AND (GENERIC_READ OR GENERIC_WRITE OR FILE_APPEND_DATA) \<noteq> 0 \<longrightarrow>
       opened_as Windows q (access AND GENERIC_READ \<noteq> 0) (access AND (GENERIC_WRITE OR FILE_APPEND_DATA) \<noteq> 0)
         (attrs AND FILE_ATTRIBUTE_READONLY \<noteq> 0) w (disposition_effect access d (os_node q w \<noteq> None))
         (createFile pathp access share d attrs w))"

section \<open>Flags\<close>







section \<open>Properties\<close>



text \<open>
  The exception is reached: an OVERWRITE with append access only, which the server opens with these flags.
\<close>

theorem overwrite_append_refused:
  assumes "documented_CreateFile decode createFile" and "utf16Ptr p = Inr pathp" and "decode pathp = p"
    and "plain_path (os_path p) w"
  shows "openOSFile utf16Ptr createFile p (accessToFlags accFileAppendData dispOverwrite) perm w = (Inl (Errno (WinErr 87)), w)"
proof -
  have f: "accessToFlags accFileAppendData dispOverwrite = 0x602" by (simp add: accessToFlags_def)
  have "win_access 0x602 = 0x80000004" "win_disposition 0x602 = TRUNCATE_EXISTING"
    by (simp_all add: win_access_def win_disposition_def)
  then show ?thesis
    using assms(1) [unfolded documented_CreateFile_def Let_def, rule_format,
        of pathp w "0x80000004" "win_attrs perm" TRUNCATE_EXISTING FILE_SHARE_ALL] assms(2-4)
    unfolding f by (simp add: openOSFile_def disposition_effect_def opened_as_def)
qed





end
