(* ===== verification/Spec2Isabelle.thy ===== *)
theory Spec2Isabelle
  imports Answers Compound Listing LocalFiles Window Pipeline Protocol Startup WindowsOpen
begin

text \<open>
  A verification development of portable-smb-server: an SMB2/3 file server in Go that shares local
  folders, or folders that another program serves over HTTP, without privileges.

  \<^bold>\<open>The program.\<close> \<open>main.go\<close> reads the command line, opens every source (\<open>internal/localfs\<close> for a folder,
  \<open>internal/httpvfs\<close> for a provider's URL), names the shares and hands them to \<open>smb.NewServer\<close>. The
  server accepts connections; each has a reader, which takes frames off the socket, dispatches the
  commands of a message one after the other and hands the response to a writer through a channel.
  A command works on the state of its connection (dialect, session ids, challenge, signing key,
  trees, handle table) and on a backend behind the interface \<open>fsx.FileSystem\<close>. The backend is
  \<open>localfs\<close>, over Go's \<open>os\<close> package, or \<open>httpvfs\<close>, whose requests the reference provider
  \<open>internal/vfsprovider\<close> answers from a \<open>localfs\<close> of its own.

  \<^bold>\<open>Theories and source files\<close>, in the order of their imports. Definitions carry the names of the Go
  functions; methods of the backends have the prefix \<open>lfs_\<close>, \<open>hfs_\<close>, \<open>hf_\<close> or \<open>p_\<close>, fields the
  prefix of their record.

  \<^item> \<open>Prelude\<close>: bytes, Go's \<open>copy\<close> and slices, the little-endian codec (the locale \<open>le_codec\<close> and its
    interpretations at 16, 32 and 64 bits), lists and options.
  \<^item> \<open>GoText\<close>: Go strings, runes, UTF-16LE, case folding, \<open>path.Clean\<close>.
  \<^item> \<open>Packet\<close>, \<open>Transport\<close>: \<open>packet.go\<close>, \<open>transport.go\<close>: header, response, FILETIME, frames.
  \<^item> \<open>MD4\<close>, \<open>Crypto\<close>, \<open>Spnego\<close>: \<open>internal/md4\<close>, \<open>crypto.go\<close>, \<open>spnego.go\<close>.
  \<^item> \<open>Fsx\<close>: \<open>fsx.go\<close> and the error tables: the backend as a record of functions on the world, and the
    locales \<open>query_backend\<close> and \<open>any_backend\<close>: which property of the world its operations keep.
  \<^item> \<open>Conn\<close>: the connection, the open files and the handle table of \<open>create.go\<close> and \<open>server.go\<close>,
    with the locale of a table whose keys are issued once.
  \<^item> \<open>Negotiate\<close> (\<open>negotiate.go\<close>, \<open>tree.go\<close>, \<open>ioctl.go\<close>, \<open>misc.go\<close>), \<open>Session\<close> (\<open>session.go\<close>),
    \<open>Aapl\<close> (\<open>aapl.go\<close>), \<open>Create\<close> (\<open>create.go\<close>), \<open>FileIO\<close> (\<open>io.go\<close>), \<open>Info\<close> and \<open>Dir\<close> (\<open>info.go\<close>): the
    command handlers, each with the lemma that bounds its effect on the connection and the world.
  \<^item> \<open>Server\<close>: the gates, \<open>handleCommand\<close>, \<open>dispatch\<close>, the assembly and signing of responses, and
    \<open>serve\<close> of \<open>server.go\<close>, with the locale \<open>command_relation\<close>, which takes what a command does to what a
    connection does. \<open>Safety\<close>: what an unauthenticated client reaches.
  \<^item> \<open>Osfs\<close>, \<open>Localfs\<close>, \<open>WindowsOpen\<close>: a Unix file tree as Go's \<open>os\<close> shows it, \<open>localfs.go\<close> on it, and
    the flags of an open on Windows (\<open>open_windows.go\<close>, \<open>statfs_windows.go\<close>).
  \<^item> \<open>Connection\<close>: a whole connection over local shares. \<open>LocalFiles\<close>, \<open>Listing\<close>, \<open>Compound\<close>,
    \<open>Answers\<close>: what a client sees of files, listings, compound responses and answers.
  \<^item> \<open>Protocol\<close>: an abstract session without packets (logins, trees, opens), which the commands of the
    server refine through the abstraction \<open>abs_conn\<close>.
  \<^item> \<open>Http\<close>, \<open>Httpvfs\<close>, \<open>Vfsprovider\<close>, \<open>Remote\<close>, \<open>Window\<close>: requests and JSON as values,
    \<open>httpvfs.go\<close>, \<open>vfsprovider.go\<close>, the two joined (the locales \<open>provided\<close> and
    \<open>provided_read_only\<close>), and the read-ahead windows (the locales \<open>served_files\<close>, \<open>served_client\<close>).
  \<^item> \<open>Pipeline\<close>, \<open>Lifecycle\<close>: the goroutines of a connection, and \<open>NewServer\<close>, \<open>Serve\<close> and \<open>Shutdown\<close>, as
    step relations over all interleavings.
  \<^item> \<open>CommandLine\<close>, \<open>Program\<close>: \<open>main.go\<close> and \<open>examples/localvfs\<close>, and the program from its command line
    to the end of a connection. \<open>Startup\<close>: what \<open>main\<close> does around it: the flags and their defaults, the
    address, the log (\<open>log.go\<close>) and the instructions written to it, \<open>parentwatch_unix.go\<close>,
    \<open>parentwatch_windows.go\<close>, \<open>internal/openapi\<close>.

  \<^bold>\<open>State and effects.\<close> A handler takes the connection (a record) and gives a reply and the connection.
  The world outside, of any type, is a field of the connection, and a backend operation is a
  function on it; the clock and the random source are functions on it too. What has to be shown of
  a backend is therefore which properties of the world it keeps, and the effect lemmas
  (\<open>handleCreate_effect\<close> and its kind) carry such a property from the backends through every
  command, message and connection. Errors are values: \<open>goerror\<close> for Go's errors, an NTSTATUS for
  the wire, \<open>Inl\<close> or \<open>None\<close> for early returns. Machine integers are words of their width where
  the code computes with them; lengths and slice bounds, which Go keeps within a buffer, are
  natural numbers, with the bounds checks of the code written out.

  \<^bold>\<open>What the properties show.\<close> This theory: isolation of an unauthenticated client, read-only shares,
  containment in the shared folders, wherever they lie, exactly when SESSION_SETUP succeeds, the two gates, and the
  handle table. The other theories: the composition with the command line (\<open>Program\<close>), one answer
  for each command (\<open>Answers\<close>), the refinement of the abstract session, and what a connection holds
  (\<open>Protocol\<close>), order of responses,
  absence of deadlock and the end of the goroutines (\<open>Pipeline\<close>), a complete shutdown
  (\<open>Lifecycle\<close>), compound responses, listings and patterns, reads and writes of files, provider
  shares that do what the provider's file system does and read-ahead that is not noticed,
  names that stay below the root, signatures, negotiation, framing, MD4 and CMAC against their
  references, and DER.

  \<^bold>\<open>Bounds and termination.\<close> No definition has fuel. Loops over bytes end because every step consumes
  some (\<open>readMessage_consumes\<close>, the offset of the compound chain, the DER reader); the pattern
  matcher ends by a lexicographic measure. Goroutines are relations: that they end is a property.
  FileIds are 64-bit counters; statements over a whole connection ask that fewer than \<open>2 ^ 64\<close> bytes
  arrive, so that the counter does not wrap.

  \<^bold>\<open>Parameters.\<close> MD5, HMAC-MD5, HMAC-SHA256, RC4 and the AES block of Go's crypto packages (\<open>crypto\<close>), the
  Unicode tables (\<open>unicode\<close>), the clock and random bytes (\<open>sv_now\<close>, \<open>sv_rand\<close>), the network round trip of
  the HTTP client (\<open>hc_roundtrip\<close>, joined to the provider in \<open>Remote\<close>), the system calls of Windows,
  \<open>filepath.Abs\<close> and the working directory. No theorem assumes anything about the primitives;
  the lengths of what they give are part of their types. The open on Windows is compared with the
  one on Unix for any \<open>CreateFile\<close> that does what \<open>documented_CreateFile\<close> says.

  \<^bold>\<open>Abstractions.\<close> The file tree of \<open>Osfs\<close> has no symbolic links, no permission checks other than
  the open flags, and no other process; a close never fails there. The text of URLs, headers, JSON
  and error messages is left to the Go library; a decoded document is a value. The connection of
  \<open>Server\<close> is sequential, as one reader per connection makes it; \<open>Pipeline\<close> runs its loop message by
  message beside the writer, with a peer that may send anything at any time. Two connections share only the world, so a property of the world that every backend
  operation keeps holds for any number of them. A Go map visited in runtime order is an
  argument that lists the keys.

  \<^bold>\<open>Not modelled.\<close> The load tests under \<open>test/rig\<close>, which drive the program from outside; the text
  of usage and error messages; the parsing of the command line, which is that of Go's package
  \<open>flag\<close>; the listeners of the OpenAPI and profiling endpoints; and the calls that write debug lines.
  An interrupt is the \<open>Shutdown\<close> of \<open>Lifecycle\<close>.
\<close>

section \<open>Properties\<close>

text \<open>
  C1. Isolation before authentication: with a user configured, a client whose bytes contain no proof
  of the password, whatever they are, leaves every property of the world as it was that the
  clock and the random source keep (in particular no backend is called), and ends
  the connection with no authenticated session.
\<close>

theorem unauthenticated_isolated:
  assumes "opt_User S \<noteq> []" and "clock_keeps I S" and "\<not> password_shown S inp"
    and "I w" and "serve S inp order (newConn a b w) = (outs, s')"
  shows "I (cn_world s') \<and> cn_authedSessions s' = {}"
proof -
  obtain s1 where l: "serve_loop S inp [] (newConn a b w) = (outs, s1)"
    and s': "s' = closeAllHandles order s1"
    using assms(5) by (auto simp: serve_def split: prod.splits)
  have "guarded S I inp (newConn a b w) s1"
    by (rule serve_loop_guarded [OF assms(1,2) newConn_ok(2) l])
  then have "cn_authedSessions s1 = {}" "I (cn_world s1)" "cn_handles s1 = []"
    using assms(3,4) by (auto simp: guarded_def newConn_def)
  then show ?thesis
    using closeAllHandles_empty [of s1 order] unfolding s' by (simp add: closeAllHandles_def Let_def)
qed

lemma unauthenticated_isolated_witness:
  "cn_world (snd (serve (demo_server (ascii ''bob'') [demo_share False]) demo_request []
     (newConn 0 0 demo_osw))) = demo_osw"
  by (rule unauthenticated_isolated [where I = "\<lambda>w. w = demo_osw", OF _ demo_clock
        demo_request_proves_nothing refl prod.collapse [symmetric], THEN conjunct1]) simp

text \<open>
  C2. A read-only share of a local directory is never written: whatever a client sends, over a whole
  connection and its teardown, the file tree and every file's contents and times stay the same.
\<close>

theorem read_only_tree_unchanged:
  assumes "list_all local_readonly (sv_shares S)"
    and "clock_keeps (same_tree (os_nodes w, os_data w)) S"
    and "serve S inp order (newConn a b w) = (outs, s')"
  shows "os_nodes (cn_world s') = os_nodes w \<and> os_data (cn_world s') = os_data w"
  using serve_keeps [OF server_keeps_same_tree [OF assms(1,2)] _ assms(3)]
  by (simp add: same_tree_def)

lemma read_only_tree_unchanged_witness:
  "\<forall>inp. os_nodes (cn_world (snd (serve (demo_server [] [demo_share True]) inp []
     (newConn 0 0 demo_osw)))) = os_nodes demo_osw"
proof
  fix inp
  have "list_all local_readonly (sv_shares (demo_server [] [demo_share True]))"
    by (auto simp: local_readonly_def demo_share_def)
  from read_only_tree_unchanged [OF this demo_clock prod.collapse [symmetric]]
  show "os_nodes (cn_world (snd (serve (demo_server [] [demo_share True]) inp []
     (newConn 0 0 demo_osw)))) = os_nodes demo_osw" by blast
qed

text \<open>
  C3. A client of local shares, read-only or not, never changes anything outside the directories that are
  shared: whatever it sends, no file or directory that lies in none of the \<open>roots\<close> of the shares
  appears, disappears, moves or changes its contents.
\<close>

theorem shares_contained:
  assumes "list_all2 serves_local roots (sv_shares S)" and "clock_keeps (sealed (map os_path roots) T) S"
    and "sealed (map os_path roots) T w" and "serve S inp order (newConn a b w) = (outs, s')"
  shows "map (node_view (cn_world s')) (outside_nodes (map os_path roots) (os_nodes (cn_world s')))
       = map (node_view w) (outside_nodes (map os_path roots) (os_nodes w))"
proof -
  have "\<forall>sh \<in> set (sv_shares S). \<exists>root \<in> set roots. serves_local root sh"
    using assms(1) by (metis in_set_conv_nth list_all2_conv_all_nth)
  from serve_keeps [OF server_keeps_sealed [OF this assms(2)] assms(3,4)] assms(3) show ?thesis by (rule sealed_view)
qed

text \<open>Shares of \<open>/srv\<close> and \<open>/mnt\<close>: the root directory and \<open>/etc\<close> stay as they are.\<close>

lemma shares_contained_witness:
  "\<forall>inp. let S = demo_server [] [demo_share False, demo_share2];
       w = cn_world (snd (serve S inp [] (newConn 0 0 demo_osw2)));
       D = map os_path [srv_root, mnt_root]
   in map (node_view w) (outside_nodes D (os_nodes w)) = map (node_view demo_osw2) (outside_nodes D (os_nodes demo_osw2))"
proof
  fix inp
  let ?S = "demo_server [] [demo_share False, demo_share2]"
  have "list_all2 serves_local [srv_root, mnt_root] (sv_shares ?S)"
    by (simp add: demo_share_local demo_share2_local)
  from shares_contained [OF this demo_clock demo_sealed2 [unfolded Let_def, THEN conjunct1] prod.collapse [symmetric]]
  show "let S = ?S; w = cn_world (snd (serve S inp [] (newConn 0 0 demo_osw2))); D = map os_path [srv_root, mnt_root]
   in map (node_view w) (outside_nodes D (os_nodes w)) = map (node_view demo_osw2) (outside_nodes D (os_nodes demo_osw2))"
    unfolding Let_def .
qed

text \<open>
  C7. SESSION_SETUP with a user configured: it succeeds exactly when the request carries an
  AUTHENTICATE token that proves the user's password against the challenge the connection holds;
  only then does it authenticate the session it answers with or touch the signing key, and it
  never touches the handles or the trees.
\<close>

theorem session_setup_authenticates:
  assumes "opt_User S \<noteq> []" and "handleSessionSetup S h body s = ((status, sid, b), s')"
  shows "(status = statusSuccess) = (24 \<le> length body \<and>
       ntlmMessageType (request_token body) = ntlmTypeAuthenticate \<and>
       proves_password S (cn_authChallenge s) (request_token body))
     \<and> cn_authedSessions s' =
       (if status = statusSuccess then insert sid (cn_authedSessions s) else cn_authedSessions s)
     \<and> (status = statusSuccess \<or> cn_signKey s' = cn_signKey s)
     \<and> cn_handles s' = cn_handles s \<and> cn_diskTrees s' = cn_diskTrees s"
proof -
  have p: "proves_password S ch tok \<Longrightarrow> ntlmMessageType tok = ntlmTypeAuthenticate" for ch tok
    by (auto simp: proves_password_def parseNTLMAuthenticate_def ntlmMessageType_def split: if_splits)
  show ?thesis
    using assms(2)
    by (cases rule: handleSessionSetup_cases) (use assms(1) p in \<open>auto simp: request_token_def\<close>)
qed

lemma session_setup_authenticates_witness:
  "cn_authedSessions (snd (handleSessionSetup (demo_server [0x62] [])
     (the (parseHeader (smb2Magic @ mk 60))) demo_setup (newConn 0 0 ()))) \<noteq> {}"
proof -
  let ?S = "demo_server [0x62] []" and ?h = "the (parseHeader (smb2Magic @ mk 60))" and ?s = "newConn 0 0 ()"
  obtain st sid b s' where e: "handleSessionSetup ?S ?h demo_setup ?s = ((st, sid, b), s')" by (metis surj_pair)
  have "ntlmMessageType demo_token = ntlmTypeAuthenticate"
    using demo_token_fields by (simp add: ntlmMessageType_def)
  then have "st = statusSuccess"
    using session_setup_authenticates [OF _ e] demo_setup_token demo_token_proves [of "[]"]
    by (simp add: newConn_def)
  then show ?thesis using session_setup_authenticates [OF _ e] e by simp
qed

text \<open>
  C8. The gate: with a user configured, a command other than the handshake on a session that is not
  authenticated is refused with USER_SESSION_DELETED, whatever its body, and changes nothing.
\<close>

theorem unauthenticated_command_refused:
  assumes "opt_User S \<noteq> []" and "h_command h \<notin> {cmdNegotiate, cmdSessionSetup}"
    and "gate_session h ctx \<notin> cn_authedSessions s"
    and "handleCommand S h seg ctx s = (out, ctx', s')"
  shows "s' = s \<and> map_option (\<lambda>p. get32 p 8) out = Some statusUserSessionDeleted"
  using assms buildResponse_status
  by (auto simp: handleCommand_def gate_def gate_session_def Let_def split: if_splits prod.splits)

lemma unauthenticated_command_refused_witness:
  "snd (snd (handleCommand (demo_server [0x62] []) (the (parseHeader (drop 4 demo_request)))
     (drop 4 demo_request) newCtx (newConn 0 0 ()))) = newConn 0 0 ()"
proof -
  let ?h = "the (parseHeader (drop 4 demo_request))"
  obtain out ctx s' where e: "handleCommand (demo_server [0x62] []) ?h (drop 4 demo_request) newCtx
    (newConn 0 0 ()) = (out, ctx, s')" by (metis surj_pair)
  have "h_command ?h = cmdTreeConnect"
    by (simp add: parseHeader_def demo_request_def smb2Magic_def mk_def slice_def un16_def)
  then have "h_command ?h \<notin> {cmdNegotiate, cmdSessionSetup}" by simp
  from unauthenticated_command_refused [OF _ this _ e] show ?thesis
    by (simp add: e) (simp add: newConn_def)
qed

text \<open>
  C9. A request that is marked as signed, on a connection with a signing key, and whose signature
  does not verify is refused with ACCESS_DENIED and changes nothing.
\<close>

theorem bad_signature_refused:
  assumes "cn_signKey s = Some key" and "h_flags h AND flagsSigned \<noteq> 0"
    and "\<not> fst (verifyMessage (sv_C S) key (cn_dialect s) seg)"
    and "gate_session h ctx \<in> cn_authedSessions s"
    and "handleCommand S h seg ctx s = (out, ctx', s')"
  shows "s' = s \<and> map_option (\<lambda>p. get32 p 8) out = Some statusAccessDenied"
  using assms buildResponse_status
  by (auto simp: handleCommand_def gate_def gate_session_def Let_def split: if_splits prod.splits)

lemma bad_signature_refused_witness:
  "let s = (newConn 0 0 ())\<lparr>cn_signKey := Some [], cn_authedSessions := {0}\<rparr>;
       h = \<lparr>h_creditCharge = 0, h_command = cmdEcho, h_creditReqResp = 1, h_flags = flagsSigned,
            h_nextCommand = 0, h_messageID = 1, h_treeID = 0, h_sessionID = 0\<rparr>
   in snd (snd (handleCommand (demo_server [0x62] []) h (mk 60) newCtx s)) = s"
proof -
  let ?s = "(newConn 0 0 ())\<lparr>cn_signKey := Some [], cn_authedSessions := {0}\<rparr>"
  let ?h = "\<lparr>h_creditCharge = 0, h_command = cmdEcho, h_creditReqResp = 1, h_flags = flagsSigned,
            h_nextCommand = 0, h_messageID = 1, h_treeID = 0, h_sessionID = 0\<rparr>"
  have "\<not> fst (verifyMessage (sv_C (demo_server [0x62] [])) [] (cn_dialect ?s) (mk 60))"
    by (simp add: verifyMessage_def mac_verify_def)
  from bad_signature_refused [OF _ _ this _ prod.collapse [symmetric, THEN trans, OF
        arg_cong [OF prod.collapse [symmetric], of "Pair _"]], of ?h newCtx]
  show ?thesis by (simp add: gate_session_def)
qed

text \<open>
  C10. A FileId that CLOSE removed stays unknown to the connection, whatever the client sends next:
  it is never handed out again and no command finds it.
\<close>

theorem closed_stays_closed:
  assumes "handles_ok s" and "shares_from S s"
    and "getHandle (slice body 8 24) s = Some f" and "24 \<le> length body"
    and "handleClose S body s = (r, s1)" and "serve_loop S inp [] s1 = (outs, s2)"
    and "unat (cn_handleCtr s) + length inp + 1 < 2 ^ 64"
  shows "getHandle (slice body 8 24) s2 = None"
proof -
  let ?k = "fileIDKey (slice body 8 24)"
  let ?s = "cls_key ?k s"
  have g: "get_key ?k s = Some f" using assms(3) by (simp add: getHandle_def get_key_def)
  note d = ht.closed_dead [OF assms(1) g] and ok = ht.cls_ok [OF assms(1), of ?k]
  have "effect S (\<lambda>_. True) s s1" by (rule handleClose_effect [OF assms(5) _ assms(2)]) simp
  then have sf: "shares_from S s1" by (simp add: effect_def)
  have "world_step (\<lambda>_. True) ?s s1" using handleClose_step [OF assms(5) _ assms(2,4)] by simp
  note w = world_step_same_table [OF this]
  have "cn_handleCtr s1 = cn_handleCtr s" using w by (simp add: same_table_def cls_key_def)
  moreover have "steps_ok S (\<lambda>_. True) (length inp) s1 s2" by (rule serve_loop_steps [OF _ sf assms(6)]) simp
  moreover have "handles_ok s1" using ok ht.same_ok [OF w] by simp
  ultimately have "ht.tstep\<^sup>*\<^sup>* s1 s2" using assms(7) by (simp add: steps_ok_def)
  with tsteps_frame [OF w] have "ht.tstep\<^sup>*\<^sup>* ?s s2" by (rule rtranclp_trans)
  from ht.dead_forever [OF this ok d] show ?thesis
    by (simp add: ht.dead_def getHandle_def get_key_def)
qed

lemma closed_stays_closed_witness:
  "let S = demo_server [] [demo_share False]; body = mk 8 @ file_id 1
   in getHandle (file_id 1) (snd (serve_loop S demo_request [] (snd (handleClose S body demo_open)))) = None"
proof -
  let ?S = "demo_server [] [demo_share False]" and ?body = "mk 8 @ file_id 1"
  have b: "slice ?body 8 24 = file_id 1" "24 \<le> length ?body" by (simp_all add: slice_def mk_def)
  obtain f where g: "getHandle (slice ?body 8 24) demo_open = Some f" using demo_open_ok(3) b by auto
  have "unat (cn_handleCtr demo_open) + length demo_request + 1 < 2 ^ 64"
    by (simp add: demo_open_ok(4) demo_request_def smb2Magic_def)
  from closed_stays_closed [OF demo_open_ok(1,2) g b(2) prod.collapse [symmetric]
      prod.collapse [symmetric] this]
  show ?thesis unfolding b Let_def .
qed

text \<open>
  C11. The handle table of a connection: however long it is served, its keys are distinct and are the
  FileIds of their opens, every one of them was issued by the counter, and there are at most
  \<open>maxOpenFiles\<close>.
\<close>

theorem handle_table_bounded:
  assumes "length inp < 2 ^ 64" and "serve_loop S inp [] (newConn a b w) = (outs, s')"
  shows "handles_ok s' \<and> length (cn_handles s') \<le> maxOpenFiles \<and> unat (cn_handleCtr s') \<le> length inp"
proof -
  have "steps_ok S (\<lambda>_. True) (length inp) (newConn a b w) s'"
    by (rule serve_loop_steps [OF _ newConn_ok(2) assms(2)]) simp
  then have t: "ht.tstep\<^sup>*\<^sup>* (newConn a b w) s'" and c: "unat (cn_handleCtr s') \<le> length inp"
    using assms(1) newConn_ok(1) [of a b w] by (simp_all add: steps_ok_def newConn_def)
  from ht.tsteps_ok [OF t newConn_ok(1)] have "handles_ok s'" .
  with c show ?thesis by (simp add: handles_ok_def)
qed

lemma handle_table_bounded_witness:
  "handles_ok (snd (serve_loop (demo_server [] [demo_share False]) demo_request [] (newConn 0 0 demo_osw)))"
proof -
  have "length demo_request < 2 ^ 64" by (simp add: demo_request_def smb2Magic_def)
  from handle_table_bounded [OF this prod.collapse [symmetric], THEN conjunct1] show ?thesis .
qed

end
